(* ===== verification/ZT_Prelude.thy ===== *)
theory ZT_Prelude
  imports Main "HOL-Library.Word"
begin

text \<open>
  Shared ground of the development: the C integer types as machine words, byte buffers,
  unaligned little-endian loads, the byte swaps of \<^verbatim>\<open>kernel/include/bpf_endian.h\<close>, and the
  generic lemmas the component theories use.

  A \<^verbatim>\<open>const char *\<close> is modelled by the bytes found from the pointer on
  (\<open>nat \<Rightarrow> u8\<close>): \<^verbatim>\<open>buf[i]\<close> is \<open>b i\<close> and \<^verbatim>\<open>buf + n\<close> is \<open>shift_buf b n\<close>. Reading past the
  end of an array is thus visible as a dependence on bytes beyond its length, and that a
  routine stays inside an array of length \<open>n\<close> is the statement that two buffers agreeing
  on their first \<open>n\<close> bytes give the same result (\<open>agree_on\<close>).
\<close>

unbundle bit_operations_syntax

type_synonym u8 = "8 word"
type_synonym u16 = "16 word"
type_synonym u32 = "32 word"
type_synonym u64 = "64 word"
type_synonym buf = "nat \<Rightarrow> u8"

named_theorems infer_defs "definitions of the protocol classifiers"
named_theorems frame_simps "what an operation leaves of the connection state"

section \<open>Buffers\<close>

definition shift_buf :: "buf \<Rightarrow> nat \<Rightarrow> buf" where
  "shift_buf b n = (\<lambda>i. b (n + i))"

definition buf_of :: "u8 list \<Rightarrow> buf" where
  "buf_of xs = (\<lambda>i. if i < length xs then xs ! i else 0)"

definition memcpy_buf :: "buf \<Rightarrow> buf \<Rightarrow> nat \<Rightarrow> buf" where
  "memcpy_buf dst src n = (\<lambda>i. if i < n then src i else dst i)"

definition agree_on :: "nat \<Rightarrow> buf \<Rightarrow> buf \<Rightarrow> bool" where
  "agree_on n b b' \<longleftrightarrow> (\<forall>i<n. b i = b' i)"

fun str_at :: "buf \<Rightarrow> nat \<Rightarrow> string \<Rightarrow> bool" where
  "str_at b i [] \<longleftrightarrow> True"
| "str_at b i (c # cs) \<longleftrightarrow> b i = of_char c \<and> str_at b (Suc i) cs"

definition byte :: "char \<Rightarrow> u8" where
  "byte c = of_char c"

lemma shift_buf_apply [simp]: "shift_buf b n i = b (n + i)"
  by (simp add: shift_buf_def)

lemma agree_onD: "agree_on n b b' \<Longrightarrow> i < n \<Longrightarrow> b i = b' i"
  by (simp add: agree_on_def)

lemma agree_on_mono: "agree_on n b b' \<Longrightarrow> m \<le> n \<Longrightarrow> agree_on m b b'"
  by (simp add: agree_on_def)

lemma agree_on_shift: "agree_on n b b' \<Longrightarrow> k + m \<le> n \<Longrightarrow> agree_on m (shift_buf b k) (shift_buf b' k)"
  by (simp add: agree_on_def)

lemma str_at_agree:
  "agree_on n b b' \<Longrightarrow> i + length s \<le> n \<Longrightarrow> str_at b i s = str_at b' i s"
  by (induction s arbitrary: i) (auto simp: agree_on_def)

lemma str_at_nth: "str_at b i s \<longleftrightarrow> (\<forall>k<length s. b (i + k) = of_char (s ! k))"
proof (induction s arbitrary: i)
  case Nil
  then show ?case by simp
next
  case (Cons c cs)
  have "(\<forall>k<length (c # cs). b (i + k) = of_char ((c # cs) ! k)) \<longleftrightarrow>
        b i = of_char c \<and> (\<forall>k<length cs. b (Suc i + k) = of_char (cs ! k))"
    by (simp add: All_less_Suc2)
  with Cons.IH show ?case by simp
qed

section \<open>Unaligned loads and byte order\<close>

text \<open>\<^verbatim>\<open>*(__u16 *)(buf + i)\<close> and \<^verbatim>\<open>*(__u32 *)(buf + i)\<close> on a little-endian machine.\<close>

definition ld_u16 :: "buf \<Rightarrow> nat \<Rightarrow> u16" where
  "ld_u16 b i = ucast (b i) OR push_bit 8 (ucast (b (i + 1)))"

definition ld_u32 :: "buf \<Rightarrow> nat \<Rightarrow> u32" where
  "ld_u32 b i = ucast (b i) OR push_bit 8 (ucast (b (i + 1))) OR
     push_bit 16 (ucast (b (i + 2))) OR push_bit 24 (ucast (b (i + 3)))"

definition ld_u64 :: "buf \<Rightarrow> nat \<Rightarrow> u64" where
  "ld_u64 b i = ucast (ld_u32 b i) OR push_bit 32 (ucast (ld_u32 b (i + 4)))"

text \<open>\<^verbatim>\<open>___bpf_mvb(x, b, n, m)\<close>: byte \<open>n\<close> of \<open>x\<close> moved to byte \<open>m\<close>.\<close>

definition bpf_mvb :: "'a::len word \<Rightarrow> nat \<Rightarrow> nat \<Rightarrow> nat \<Rightarrow> 'a word" where
  "bpf_mvb x w n m = push_bit (m * 8) (drop_bit (w - 8) (push_bit (w - (n + 1) * 8) x))"

definition byte_swap_u16 :: "u16 \<Rightarrow> u16" where
  "byte_swap_u16 x = bpf_mvb x 16 0 1 OR bpf_mvb x 16 1 0"

definition byte_swap_u32 :: "u32 \<Rightarrow> u32" where
  "byte_swap_u32 x = bpf_mvb x 32 0 3 OR bpf_mvb x 32 1 2 OR bpf_mvb x 32 2 1 OR bpf_mvb x 32 3 0"

abbreviation bpf_ntohs :: "u16 \<Rightarrow> u16" where "bpf_ntohs \<equiv> byte_swap_u16"
abbreviation bpf_ntohl :: "u32 \<Rightarrow> u32" where "bpf_ntohl \<equiv> byte_swap_u32"

text \<open>The remainder of C, whose sign is that of the dividend.\<close>

definition c_rem :: "int \<Rightarrow> int \<Rightarrow> int" where
  "c_rem a b = sgn a * (\<bar>a\<bar> mod \<bar>b\<bar>)"

text \<open>Big-endian readings of the same bytes, as numbers.\<close>

definition be16_nat :: "buf \<Rightarrow> nat \<Rightarrow> nat" where
  "be16_nat b i = 256 * unat (b i) + unat (b (i + 1))"

definition be32_nat :: "buf \<Rightarrow> nat \<Rightarrow> nat" where
  "be32_nat b i = 65536 * be16_nat b i + be16_nat b (i + 2)"

lemma bit_u8_ge [simp]: "8 \<le> n \<Longrightarrow> \<not> bit (x::u8) n"
  using bit_imp_le_length [of x n] by auto

lemma unat_u8_less [simp]: "unat (x::u8) < 256"
  using unsigned_less [of x] by simp

lemma unat_u16_less [simp]: "unat (x::u16) < 65536"
  using unsigned_less [of x] by simp

lemma unat_of_nat_small: "n < 4294967296 \<Longrightarrow> unat (of_nat n :: u32) = n"
  by (simp add: unsigned_of_nat take_bit_nat_eq_self_iff)

lemma unat_of_nat_u64: "n < 2 ^ 64 \<Longrightarrow> unat (of_nat n :: u64) = n"
  by (simp add: unsigned_of_nat take_bit_nat_eq_self_iff)

lemma unat_u64_less: "unat (x::u64) < 2 ^ 64"
  using unsigned_less [of x] by simp

lemma unat_u32_less: "unat (x::u32) < 2 ^ 32"
  using unsigned_less [of x] by simp

lemma byte_swap_ld_u16: "byte_swap_u16 (ld_u16 b i) = push_bit 8 (ucast (b i)) OR ucast (b (i + 1))"
  unfolding byte_swap_u16_def ld_u16_def bpf_mvb_def
  by (rule bit_word_eqI) (auto simp: bit_simps not_less)

lemma byte_swap_ld_u32: "byte_swap_u32 (ld_u32 b i) =
   push_bit 16 (ucast (byte_swap_u16 (ld_u16 b i))) OR ucast (byte_swap_u16 (ld_u16 b (i + 2)))"
proof (rule bit_word_eqI)
  fix n assume "n < LENGTH(32)"
  then consider "n < 8" | "8 \<le> n" "n < 16" | "16 \<le> n" "n < 24" | "24 \<le> n" "n < 32"
    by force
  then show "bit (byte_swap_u32 (ld_u32 b i)) n =
      bit (push_bit 16 (ucast (byte_swap_u16 (ld_u16 b i))) OR
           ucast (byte_swap_u16 (ld_u16 b (i + 2))) :: u32) n"
    by cases (auto simp: byte_swap_u32_def ld_u32_def bpf_mvb_def byte_swap_ld_u16 bit_simps numeral_3_eq_3)
qed

lemma unat_or_push:
  fixes x y :: "'a::len word"
  assumes "m + LENGTH('a) \<le> LENGTH('b::len)" and "m = LENGTH('a)"
  shows "unat (push_bit m (ucast x) OR ucast y :: 'b word) = 2 ^ m * unat x + unat y"
proof -
  have "push_bit m (ucast x) OR ucast y = push_bit m (ucast x) + (ucast y :: 'b word)"
    using assms by (intro disjunctive_add [symmetric]) (auto simp: bit_simps not_less dest: bit_imp_le_length)
  moreover have "2 ^ m * unat x + unat y < 2 ^ LENGTH('b)"
  proof -
    have "unat x < 2 ^ m" "unat y < 2 ^ m" unfolding assms(2) by (rule unsigned_less)+
    hence "unat x \<le> 2 ^ m - 1" "unat y < 2 ^ m" by simp_all
    hence "2 ^ m * unat x + unat y < 2 ^ m * (2 ^ m - 1) + 2 ^ m"
      by (meson add_le_less_mono mult_le_mono2)
    also have "\<dots> = 2 ^ (m + m)" by (simp add: power_add diff_mult_distrib2)
    also have "\<dots> \<le> 2 ^ LENGTH('b)" using assms by (simp add: power_increasing)
    finally show ?thesis .
  qed
  moreover have "unat x < 2 ^ LENGTH('b)" "unat y < 2 ^ LENGTH('b)"
  proof -
    have a: "(2::nat) ^ LENGTH('a) \<le> 2 ^ LENGTH('b)" using assms by simp
    show "unat x < 2 ^ LENGTH('b)" by (rule less_le_trans [OF unsigned_less a])
    show "unat y < 2 ^ LENGTH('b)" by (rule less_le_trans [OF unsigned_less a])
  qed
  moreover have "unat (ucast x :: 'b word) = unat x" "unat (ucast y :: 'b word) = unat y"
    using calculation by (simp_all add: unsigned_ucast_eq take_bit_nat_eq_self_iff)
  ultimately show ?thesis
    by (simp add: unat_word_ariths unsigned_push_bit_eq take_bit_eq_mod push_bit_nat_def mult.commute mod_add_left_eq)
qed

lemma unat_ntohs [simp]: "unat (byte_swap_u16 (ld_u16 b i)) = be16_nat b i"
  by (simp add: byte_swap_ld_u16 be16_nat_def unat_or_push)

lemma unat_ntohl [simp]: "unat (byte_swap_u32 (ld_u32 b i)) = be32_nat b i"
  unfolding byte_swap_ld_u32 be32_nat_def
  by (subst unat_or_push) simp_all

lemma unat_ucast_u32_u64 [simp]: "unat (ucast (x::u32) :: u64) = unat x"
proof -
  have "unat x < 2 ^ 32" using unsigned_less [of x] by simp
  then have "unat x < 2 ^ 64" by (rule less_le_trans) simp
  then show ?thesis by (simp add: unsigned_ucast_eq take_bit_nat_eq_self_iff)
qed

lemma bit_byte_at: "bit (push_bit m (ucast (x::u8)) :: u32) n \<longleftrightarrow> m \<le> n \<and> n < m + 8 \<and> n < 32 \<and> bit x (n - m)"
  by (auto simp: bit_simps dest: bit_imp_le_length)

lemma bit_byte_at0: "bit (ucast (x::u8) :: u32) n \<longleftrightarrow> n < 8 \<and> bit x n"
  by (auto simp: bit_simps dest: bit_imp_le_length)

lemma bit_ld_u32:
  assumes "r < 8" "k < 4"
  shows "bit (ld_u32 b i) (8 * k + r) \<longleftrightarrow> bit (b (i + k)) r"
proof -
  consider "k = 0" | "k = 1" | "k = 2" | "k = 3" using assms by force
  then show ?thesis
    using assms(1) by cases (simp_all add: ld_u32_def bit_or_iff bit_byte_at bit_byte_at0)
qed

lemma bit_ld_u64:
  assumes "r < 8" "k < 8"
  shows "bit (ld_u64 b i) (8 * k + r) \<longleftrightarrow> bit (b (i + k)) r"
proof (cases "k < 4")
  case True
  then show ?thesis
    using assms bit_ld_u32 [of r k b i] by (simp add: ld_u64_def bit_simps)
next
  case False
  then obtain j where j: "k = 4 + j" "j < 4"
    using assms(2) by (metis add_less_cancel_left le_add_diff_inverse linorder_not_less numeral_Bit0)
  have e: "8 * k + r - 32 = 8 * j + r" using j by simp
  show ?thesis
    using assms j bit_ld_u32 [of r j b "i + 4"]
    by (simp add: ld_u64_def bit_simps e add.assoc) (auto dest: bit_imp_le_length)
qed

lemma unat_add_le: "unat (x + y) \<le> unat x + unat y" for x y :: "'a::len word"
  by (simp add: unat_word_ariths)

lemma unat_ucast_u16_u32 [simp]: "unat (ucast (x::u16) :: u32) = unat x"
proof -
  have "unat x < 4294967296" by (rule less_trans [OF unat_u16_less]) simp
  then show ?thesis by (simp add: unsigned_ucast_eq take_bit_nat_eq_self_iff)
qed

lemma u8_all_list: "list_all (\<lambda>n. P (of_nat n :: u8)) [0..<256] \<Longrightarrow> P x"
  using unat_u8_less [of x] by (auto simp: list_all_iff simp del: unat_u8_less dest: bspec [of _ _ "unat x"])

lemma ucast_ucast_u64: "ucast (ucast (x::u32) :: u64) = x"
  by (rule bit_eqI) (auto simp: bit_simps dest: bit_imp_le_length)

lemma uint_u32_small: "unat w < 2 ^ 31 \<Longrightarrow> uint (w :: u32) < 2 ^ 31"
proof -
  assume "unat w < 2 ^ 31"
  then have "int (unat w) < int (2 ^ 31)" by (simp only: of_nat_less_iff)
  then show ?thesis by simp
qed

lemma sint_u32_small: "unat w < 2 ^ 31 \<Longrightarrow> sint (w :: u32) = uint w"
proof -
  assume "unat w < 2 ^ 31"
  then have "signed_take_bit 31 (uint w) = uint w"
    by (intro signed_take_bit_int_eq_self) (use uint_u32_small [of w] in \<open>simp_all add: order.trans [OF _ unsigned_greater_eq]\<close>)
  moreover have "sint w = signed_take_bit 31 (uint w)" unfolding sint_uint by simp
  ultimately show ?thesis by (simp only:)
qed

lemma unat_scast_u32_u64: "unat w < 2 ^ 31 \<Longrightarrow> unat (scast (w :: u32) :: u64) = unat w"
proof -
  assume w: "unat w < 2 ^ 31"
  have "(scast w :: u64) = word_of_int (uint w)" by (simp only: scast_eq sint_u32_small [OF w])
  also have "\<dots> = of_nat (unat w)" 
    by (simp only: uint_nat of_int_of_nat_eq)
  finally show ?thesis using w by (simp add: unsigned_of_nat take_bit_nat_eq_self_iff)
qed

lemma unat_2_pow: "k < 32 \<Longrightarrow> unat (2 ^ k :: u32) = 2 ^ k"
  using of_nat_power [of 2 k, where 'a = "32 word"] unsigned_of_nat [of "2 ^ k", where 'b = 32 and 'a = nat]
  by (simp add: take_bit_nat_eq_self)

end
