(* ===== verification/Conn_Info.thy ===== *)
theory Conn_Info
  imports ZT_Prelude
begin

text \<open>
  The state every protocol classifier works on: the enumerations of
  \<^verbatim>\<open>kernel/include/common.h\<close>, \<^verbatim>\<open>struct conn_info_s\<close> (\<^verbatim>\<open>socket_trace.h\<close>),
  \<^verbatim>\<open>struct socket_info_s\<close> (\<^verbatim>\<open>socket_trace_common.h\<close>), the read-only kernel environment of
  one probe invocation, and the helpers at the top of \<^verbatim>\<open>protocol_inference.h\<close>: the port
  bitmaps, the port checks and the cache of previously read bytes.

  One-bit fields are booleans. \<^verbatim>\<open>l7_proto\<close>, \<^verbatim>\<open>skip_proto\<close> and the cached protocol numbers
  only ever hold values of \<^verbatim>\<open>enum traffic_protocol\<close> and are of that type. A union of
  \<^verbatim>\<open>encoding_type\<close> and \<^verbatim>\<open>correlation_id\<close> is one 32-bit word whose low byte is
  \<^verbatim>\<open>encoding_type\<close> (little endian). \<^verbatim>\<open>socket_info_ptr\<close> points into the socket map: it is
  the entry itself, updated in place, or \<open>None\<close> for \<^verbatim>\<open>NULL\<close>.
\<close>

section \<open>Enumerations\<close>

datatype message_type =
    MSG_UNKNOWN | MSG_REQUEST | MSG_RESPONSE | MSG_REQUEST_END | MSG_RESPONSE_END
  | MSG_REASM_START | MSG_REASM_SEG | MSG_COMMON | MSG_PRESTORE | MSG_RECONFIRM
  | MSG_CLOSE | MSG_CLEAR

datatype traffic_direction = T_EGRESS | T_INGRESS

datatype traffic_protocol =
    PROTO_UNKNOWN | PROTO_OTHER | PROTO_HTTP1 | PROTO_HTTP2 | PROTO_DUBBO | PROTO_SOFARPC
  | PROTO_FASTCGI | PROTO_BRPC | PROTO_TARS | PROTO_SOME_IP | PROTO_ISO8583 | PROTO_MYSQL
  | PROTO_POSTGRESQL | PROTO_ORACLE | PROTO_REDIS | PROTO_MONGO | PROTO_MEMCACHED
  | PROTO_KAFKA | PROTO_MQTT | PROTO_AMQP | PROTO_OPENWIRE | PROTO_NATS | PROTO_PULSAR
  | PROTO_ZMTP | PROTO_ROCKETMQ | PROTO_WEBSPHEREMQ | PROTO_DNS | PROTO_TLS | PROTO_CUSTOM
  | PROTO_DPDK_PKT

datatype endpoint_role = ROLE_UNKNOWN | ROLE_CLIENT | ROLE_SERVER

datatype process_data_extra_source =
    DATA_SOURCE_SYSCALL | DATA_SOURCE_GO_TLS_UPROBE | DATA_SOURCE_GO_HTTP2_UPROBE
  | DATA_SOURCE_OPENSSL_UPROBE | DATA_SOURCE_IO_EVENT
  | DATA_SOURCE_GO_HTTP2_DATAFRAME_UPROBE | DATA_SOURCE_RESERVED | DATA_SOURCE_DPDK
  | DATA_SOURCE_UNIX_SOCKET

record protocol_message_t =
  pm_protocol :: traffic_protocol
  pm_type :: message_type

definition SOCK_STREAM :: u16 where "SOCK_STREAM = 1"
definition SOCK_UNIX :: u16 where "SOCK_UNIX = 11"
definition IPPROTO_TCP :: u8 where "IPPROTO_TCP = 6"
definition IPPROTO_UDP :: u8 where "IPPROTO_UDP = 17"
definition EBPF_CACHE_SIZE :: nat where "EBPF_CACHE_SIZE = 16"
definition INFER_BUF_MAX :: nat where "INFER_BUF_MAX = 32"

text \<open>The size of \<^verbatim>\<open>infer_data_s.data\<close>, \<^verbatim>\<open>INFER_BUF_MAX * 2\<close>.\<close>

definition INFER_DATA_SZ :: nat where "INFER_DATA_SZ = 64"
definition TASK_COMM_LEN :: nat where "TASK_COMM_LEN = 16"

section \<open>Connection and socket records\<close>

record tuple_t =
  tp_daddr :: "u8 list"
  tp_rcv_saddr :: "u8 list"
  tp_addr_len :: u8
  tp_l4_protocol :: u8
  tp_dport :: u16
  tp_num :: u16

record socket_info_s =
  si_sk :: u64
  si_socket :: u64
  si_l7_proto :: traffic_protocol
  si_allow_reassembly :: bool
  si_finish_reasm :: bool
  si_udp_pre_set_addr :: bool
  si_force_reasm :: bool
  si_no_trace :: bool
  si_data_source :: process_data_extra_source
  si_reasm_bytes :: u32
  si_seq :: u64
  si_prev_data :: buf
  si_direction :: traffic_direction
  si_pre_direction :: traffic_direction
  si_role :: endpoint_role
  si_is_tls :: bool
  si_tls_end :: bool
  si_need_reconfirm :: bool
  si_correlation_id :: u32
  si_peer_fd :: u32
  si_update_time :: u32
  si_prev_data_len :: u32
  si_trace_id :: u64
  si_uid :: u64

record conn_info_s =
  ci_tuple :: tuple_t
  ci_skc_family :: u16
  ci_sk_type :: u16
  ci_skc_ipv6only :: bool
  ci_enable_reasm :: bool
  ci_need_reconfirm :: bool
  ci_keep_trace :: bool
  ci_direction :: traffic_direction
  ci_prev_direction :: traffic_direction
  ci_role :: endpoint_role
  ci_skc_state :: u8
  ci_skip_proto :: traffic_protocol
  ci_dns_q_type :: u16
  ci_fd :: u32
  ci_protocol :: traffic_protocol
  ci_message_type :: message_type
  ci_is_reasm_seg :: bool
  ci_no_trace :: bool
  ci_correlation_id :: u32
  ci_prev_count :: u32
  ci_syscall_infer_len :: u32
  ci_count :: "40 word"
  ci_prev_buf :: buf
  ci_syscall_infer_addr :: u64
  ci_sk :: u64
  ci_socket_info_ptr :: "socket_info_s option"

text \<open>\<^verbatim>\<open>conn_info->encoding_type\<close> is the low byte of the union.\<close>

definition encoding_type :: "u32 \<Rightarrow> u8" where
  "encoding_type w = ucast w"

definition set_encoding_type :: "u8 \<Rightarrow> u32 \<Rightarrow> u32" where
  "set_encoding_type e w = push_bit 8 (drop_bit 8 w) OR ucast e"

lemma encoding_type_set [simp]: "encoding_type (set_encoding_type e w) = e"
  unfolding encoding_type_def set_encoding_type_def
  by (rule bit_word_eqI) (auto simp: bit_simps)

section \<open>Kernel environment of one invocation\<close>

text \<open>
  What the program reads through helpers and read-only maps. \<open>probe_read_user a n\<close> is the
  return code of \<^verbatim>\<open>bpf_probe_read_user\<close> with the \<open>n\<close> bytes it leaves in the destination;
  \<open>probe_read_user_str\<close> likewise, its return code being the length with the terminating zero.
\<close>

record tracer_ctx_s =
  tc_socket_id :: u64
  tc_coroutine_trace_id :: u64
  tc_thread_trace_id :: u64
  tc_data_limit_max :: u32
  tc_go_tracing_timeout :: u32
  tc_io_event_collect_mode :: u32
  tc_io_event_minimal_duration :: u64
  tc_virtual_file_collect_enabled :: bool
  tc_push_buffer_refcnt :: u32
  tc_last_period_timestamp :: u64
  tc_period_timestamp :: u64
  tc_disable_tracing :: bool

record ebpf_proc_info =
  pi_version :: u32
  pi_net_TCPConn_itab :: u64
  pi_crypto_tls_Conn_itab :: u64
  pi_credentials_syscallConn_itab :: u64

record bpf_env =
  ver_5_2_plus :: bool
  probe_read_user :: "u64 \<Rightarrow> nat \<Rightarrow> int \<times> buf"
  probe_read_user_str :: "u64 \<Rightarrow> nat \<Rightarrow> int \<times> buf"
  current_comm :: "int \<times> buf"
  current_pid_tgid :: u64
  protocol_filter :: "traffic_protocol \<Rightarrow> u32 option"
  proto_ports_bitmap :: "traffic_protocol \<Rightarrow> buf option"
  tracer_ctx :: "tracer_ctx_s option"
  proto_infer_cache_map :: "u32 \<Rightarrow> (u16 \<Rightarrow> traffic_protocol) option"
  proc_info_map :: "u32 \<Rightarrow> ebpf_proc_info option"
  tcp_read_seq :: "u32 \<Rightarrow> u32"
  http2_seq_full :: bool
  http2_seq_evicted :: "u32 \<times> u32 \<times> u32 \<Rightarrow> bool"

text \<open>\<^verbatim>\<open>bpf_probe_read_user(dst, n, addr)\<close> and \<^verbatim>\<open>bpf_get_current_comm(dst, 16)\<close> as updates of
  the destination buffer.\<close>

definition read_user :: "bpf_env \<Rightarrow> buf \<Rightarrow> nat \<Rightarrow> u64 \<Rightarrow> buf" where
  "read_user env dst n a = memcpy_buf dst (snd (probe_read_user env a n)) n"

definition is_protocol_enabled :: "bpf_env \<Rightarrow> traffic_protocol \<Rightarrow> bool" where
  "is_protocol_enabled env proto =
     (case protocol_filter env proto of Some enabled \<Rightarrow> enabled \<noteq> 0 | None \<Rightarrow> False)"

definition is_socket_info_valid :: "socket_info_s option \<Rightarrow> bool" where
  "is_socket_info_valid sk_info = (case sk_info of None \<Rightarrow> False | Some s \<Rightarrow> si_uid s \<noteq> 0)"

definition is_infer_socket_valid :: "socket_info_s option \<Rightarrow> bool" where
  "is_infer_socket_valid sk_info =
     (case sk_info of None \<Rightarrow> False
      | Some s \<Rightarrow> si_uid s \<noteq> 0 \<and> si_l7_proto s \<noteq> PROTO_TLS \<and> si_l7_proto s \<noteq> PROTO_UNKNOWN)"

text \<open>\<^verbatim>\<open>conn_info->socket_info_ptr->l7_proto\<close>, only read behind a validity check.\<close>

definition sock_l7_proto :: "conn_info_s \<Rightarrow> traffic_protocol" where
  "sock_l7_proto c =
     (case ci_socket_info_ptr c of Some s \<Rightarrow> si_l7_proto s | None \<Rightarrow> PROTO_UNKNOWN)"

definition skip_http2_kprobe :: "bpf_env \<Rightarrow> bool" where
  "skip_http2_kprobe env =
     (case proc_info_map env (ucast (drop_bit 32 (current_pid_tgid env))) of
        None \<Rightarrow> False
      | Some info \<Rightarrow>
          if pi_net_TCPConn_itab info \<noteq> 0 then True
          else if pi_crypto_tls_Conn_itab info \<noteq> 0 then True
          else if pi_credentials_syscallConn_itab info \<noteq> 0 then True
          else False)"

section \<open>Process names\<close>

definition is_nginx_process :: "bpf_env \<Rightarrow> bool" where
  "is_nginx_process env =
     (let comm = snd (current_comm env) in
      comm 0 = byte CHR ''n'' \<and> comm 1 = byte CHR ''g'' \<and> comm 2 = byte CHR ''i'' \<and>
      comm 3 = byte CHR ''n'' \<and> comm 4 = byte CHR ''x'' \<and> comm 5 = 0)"

definition drop_msg_by_comm :: "bpf_env \<Rightarrow> bool" where
  "drop_msg_by_comm env =
     (let comm = snd (current_comm env) in
      if fst (current_comm env) \<noteq> 0 then False
      else if comm 0 = byte CHR ''s'' then
        (if (comm 1 = byte CHR ''s'' \<and> comm 2 = byte CHR ''h'' \<and> comm 3 = 0) \<or>
            (comm 1 = byte CHR ''c'' \<and> comm 2 = byte CHR ''p'' \<and> comm 3 = 0) \<or>
            (comm 1 = byte CHR ''s'' \<and> comm 2 = byte CHR ''h'' \<and> comm 3 = byte CHR ''d'' \<and>
             comm 4 = 0)
         then True else False)
      else False)"

text \<open>The loop of \<^verbatim>\<open>is_same_command\<close> from index \<open>16 - n\<close> on.\<close>

fun is_same_command_from :: "nat \<Rightarrow> buf \<Rightarrow> buf \<Rightarrow> bool" where
  "is_same_command_from 0 a b = True"
| "is_same_command_from (Suc n) a b =
     (let idx = 16 - Suc n in
      if a idx = 0 \<and> a idx = b idx then True
      else if a idx \<noteq> b idx then False
      else is_same_command_from n a b)"

definition is_same_command :: "buf \<Rightarrow> buf \<Rightarrow> bool" where
  "is_same_command a b = is_same_command_from 16 a b"

definition is_current_comm :: "bpf_env \<Rightarrow> buf \<Rightarrow> bool" where
  "is_current_comm env comm =
     (if fst (current_comm env) \<noteq> 0 then False
      else is_same_command comm (snd (current_comm env)))"

section \<open>Port bitmaps\<close>

text \<open>\<^verbatim>\<open>is_set_bitmap\<close>, \<^verbatim>\<open>set_bitmap\<close> and \<^verbatim>\<open>clear_bitmap\<close> of \<^verbatim>\<open>user/common_utils.h\<close> on the
  8192-byte array of \<^verbatim>\<open>struct kprobe_port_bitmap\<close>: the shift is the population count of 7,
  the index mask is \<^verbatim>\<open>sizeof(bitmap) - 1\<close>.\<close>

definition bitmap_idx :: "u16 \<Rightarrow> nat" where
  "bitmap_idx v = unat (drop_bit 3 v AND (8192 - 1))"

definition bitmap_bit :: "u16 \<Rightarrow> nat" where
  "bitmap_bit v = unat (v AND (8 - 1))"

definition is_set_bitmap :: "buf \<Rightarrow> u16 \<Rightarrow> bool" where
  "is_set_bitmap m v \<longleftrightarrow> (ucast (m (bitmap_idx v)) :: u32) AND push_bit (bitmap_bit v) 1 \<noteq> 0"

definition set_bitmap :: "buf \<Rightarrow> u16 \<Rightarrow> buf" where
  "set_bitmap m v =
     m(bitmap_idx v := ucast ((ucast (m (bitmap_idx v)) :: u32) OR push_bit (bitmap_bit v) 1))"

definition clear_bitmap :: "buf \<Rightarrow> u16 \<Rightarrow> buf" where
  "clear_bitmap m v =
     m(bitmap_idx v :=
         ucast ((ucast (m (bitmap_idx v)) :: u32) AND NOT (push_bit (bitmap_bit v) 1)))"

definition is_set_ports_bitmap :: "buf \<Rightarrow> u16 \<Rightarrow> bool" where
  "is_set_ports_bitmap ports port =
     (let addr = unat (drop_bit 3 port) in
      if addr < 65536 div 8 then
        (let mask = push_bit (unat (port AND 7)) 1 :: u8 in
         if ports addr AND mask \<noteq> 0 then True else False)
      else False)"


lemma bitmap_idx_div: "bitmap_idx v = unat v div 8"
proof -
  have "drop_bit 3 v AND (8192 - 1) = take_bit 13 (drop_bit 3 v)"
    by (simp add: take_bit_eq_mask mask_eq_exp_minus_1)
  moreover have "unat v div 8 < 8192"
    using unat_u16_less [of v] by linarith
  ultimately show ?thesis
    by (simp add: bitmap_idx_def drop_bit_eq_div take_bit_eq_mod unat_div_distrib unat_mod_distrib)
qed

lemma bitmap_bit_mod: "bitmap_bit v = unat v mod 8"
proof -
  have "v AND (8 - 1) = take_bit 3 v"
    by (simp add: take_bit_eq_mask mask_eq_exp_minus_1)
  then show ?thesis
    by (simp add: bitmap_bit_def take_bit_eq_mod unat_mod_distrib)
qed

lemma is_set_bitmap_iff: "is_set_bitmap m v \<longleftrightarrow> bit (m (unat v div 8)) (unat v mod 8)"
proof -
  have "unat v mod 8 < 8" by simp
  then have "unat v mod 8 < 32" by linarith
  then show ?thesis
    by (simp add: is_set_bitmap_def bitmap_idx_div bitmap_bit_mod and_exp_eq_0_iff_not_bit bit_simps)
qed

lemma is_set_ports_bitmap_iff:
  "is_set_ports_bitmap m v \<longleftrightarrow> bit (m (unat v div 8)) (unat v mod 8)"
proof -
  have "unat v div 8 < 8192"
    using unat_u16_less [of v] by linarith
  then show ?thesis
    using bitmap_bit_mod [of v]
    by (simp add: is_set_ports_bitmap_def bitmap_bit_def Let_def drop_bit_eq_div unat_div_distrib and_exp_eq_0_iff_not_bit)
qed

lemma u16_eq_div_mod: "(w::u16) = v \<longleftrightarrow> unat w div 8 = unat v div 8 \<and> unat w mod 8 = unat v mod 8"
  by (metis div_mult_mod_eq word_unat_eq_iff)

lemma is_set_set_bitmap: "is_set_bitmap (set_bitmap m v) w \<longleftrightarrow> w = v \<or> is_set_bitmap m w"
  by (auto simp: u16_eq_div_mod [of w v] is_set_bitmap_iff set_bitmap_def bitmap_idx_div bitmap_bit_mod bit_simps)

lemma is_set_clear_bitmap: "is_set_bitmap (clear_bitmap m v) w \<longleftrightarrow> w \<noteq> v \<and> is_set_bitmap m w"
  by (auto simp: u16_eq_div_mod [of w v] is_set_bitmap_iff clear_bitmap_def bitmap_idx_div bitmap_bit_mod bit_simps)

text \<open>The contract of a set of 16-bit values held in a bitmap, and what any client of it may
  use: a sequence of insertions is read back as the set of what was inserted, in any order.\<close>

locale value_set =
  fixes member :: "'m \<Rightarrow> 'v \<Rightarrow> bool"
    and insert1 :: "'m \<Rightarrow> 'v \<Rightarrow> 'm"
    and delete1 :: "'m \<Rightarrow> 'v \<Rightarrow> 'm"
  assumes member_insert1: "member (insert1 m v) w \<longleftrightarrow> w = v \<or> member m w"
    and member_delete1: "member (delete1 m v) w \<longleftrightarrow> w \<noteq> v \<and> member m w"
begin

lemma member_insert_all: "member (foldl insert1 m vs) w \<longleftrightarrow> w \<in> set vs \<or> member m w"
  by (induction vs arbitrary: m) (auto simp: member_insert1)

lemma member_delete_all: "member (foldl delete1 m vs) w \<longleftrightarrow> w \<notin> set vs \<and> member m w"
  by (induction vs arbitrary: m) (auto simp: member_delete1)

lemma delete_insert_other: "v \<noteq> u \<Longrightarrow>
    member (delete1 (insert1 m v) u) w \<longleftrightarrow> member (insert1 (delete1 m u) v) w"
  by (auto simp: member_insert1 member_delete1)

end

interpretation ports: value_set is_set_bitmap set_bitmap clear_bitmap
  by unfold_locales (rule is_set_set_bitmap, rule is_set_clear_bitmap)

section \<open>Port checks\<close>

definition L7_PROTO_INFER_PROG_1 :: u8 where "L7_PROTO_INFER_PROG_1 = 0"
definition L7_PROTO_INFER_PROG_2 :: u8 where "L7_PROTO_INFER_PROG_2 = 1"

definition protocol_port_check :: "bpf_env \<Rightarrow> traffic_protocol \<Rightarrow> conn_info_s \<Rightarrow> u8 \<Rightarrow> bool" where
  "protocol_port_check env proto c prog_num =
     (if \<not> is_protocol_enabled env proto then False
      else if ci_sk_type c = SOCK_UNIX then True
      else case proto_ports_bitmap env proto of
        None \<Rightarrow> False
      | Some ports \<Rightarrow>
          if prog_num = L7_PROTO_INFER_PROG_1
          then is_set_bitmap ports (tp_num (ci_tuple c)) \<or>
               is_set_bitmap ports (tp_dport (ci_tuple c))
          else is_set_ports_bitmap ports (tp_num (ci_tuple c)) \<or>
               is_set_ports_bitmap ports (tp_dport (ci_tuple c)))"

definition protocol_port_check_1 :: "bpf_env \<Rightarrow> traffic_protocol \<Rightarrow> conn_info_s \<Rightarrow> bool" where
  "protocol_port_check_1 env proto c = protocol_port_check env proto c L7_PROTO_INFER_PROG_1"

definition protocol_port_check_2 :: "bpf_env \<Rightarrow> traffic_protocol \<Rightarrow> conn_info_s \<Rightarrow> bool" where
  "protocol_port_check_2 env proto c =
     (if ver_5_2_plus env then protocol_port_check env proto c L7_PROTO_INFER_PROG_1
      else protocol_port_check env proto c L7_PROTO_INFER_PROG_2)"

lemma port_check_disabled [simp]:
  "\<not> is_protocol_enabled env p \<Longrightarrow> \<not> protocol_port_check_1 env p c"
  "\<not> is_protocol_enabled env p \<Longrightarrow> \<not> protocol_port_check_2 env p c"
  by (simp_all add: protocol_port_check_1_def protocol_port_check_2_def protocol_port_check_def)

lemma port_checks_agree: "protocol_port_check_2 env p c = protocol_port_check_1 env p c"
  by (simp add: protocol_port_check_1_def protocol_port_check_2_def protocol_port_check_def
      is_set_bitmap_iff is_set_ports_bitmap_iff split: option.split)

section \<open>Bytes kept for the next segment\<close>

definition upd_sock :: "(socket_info_s \<Rightarrow> socket_info_s) \<Rightarrow> conn_info_s \<Rightarrow> conn_info_s" where
  "upd_sock f c = c\<lparr>ci_socket_info_ptr := map_option f (ci_socket_info_ptr c)\<rparr>"

definition save_prev_data_from_kern :: "buf \<Rightarrow> conn_info_s \<Rightarrow> nat \<Rightarrow> conn_info_s" where
  "save_prev_data_from_kern b c count =
     (if is_socket_info_valid (ci_socket_info_ptr c) then
        upd_sock (\<lambda>s. s\<lparr>si_prev_data := memcpy_buf (si_prev_data s) b count,
                         si_prev_data_len := of_nat count,
                         si_pre_direction := si_direction s,
                         si_direction := ci_direction c\<rparr>) c
      else c\<lparr>ci_prev_buf := memcpy_buf (ci_prev_buf c) b count,
             ci_prev_count := of_nat count\<rparr>)"

definition check_and_fetch_prev_data :: "conn_info_s \<Rightarrow> u32 \<times> conn_info_s" where
  "check_and_fetch_prev_data c =
     (let c' =
        (case ci_socket_info_ptr c of
           None \<Rightarrow> c
         | Some s \<Rightarrow>
             if 0 < si_prev_data_len s then
               (let c1 =
                  (if ci_direction c = si_direction s then
                     upd_sock (\<lambda>s. s\<lparr>si_direction := si_pre_direction s\<rparr>)
                       (c\<lparr>ci_prev_buf := memcpy_buf (ci_prev_buf c) (si_prev_data s) EBPF_CACHE_SIZE,
                          ci_prev_count := si_prev_data_len s\<rparr>)
                   else c)
                in upd_sock (\<lambda>s. s\<lparr>si_prev_data_len := 0\<rparr>) c1)
             else c)
      in (ci_prev_count c', c'))"

definition check_and_set_data_reassembly :: "bpf_env \<Rightarrow> conn_info_s \<Rightarrow> conn_info_s" where
  "check_and_set_data_reassembly env c =
     (if is_infer_socket_valid (ci_socket_info_ptr c) then
        (let s = the (ci_socket_info_ptr c);
             c1 = c\<lparr>ci_prev_direction := si_direction s\<rparr>
         in if si_finish_reasm s then c1
            else if si_allow_reassembly s then
              (if ci_prev_direction c1 = ci_direction c1 then
                 (let c2 = c1\<lparr>ci_enable_reasm := True\<rparr>
                  in case tracer_ctx env of
                       None \<Rightarrow> c2
                     | Some t \<Rightarrow>
                         if tc_data_limit_max t \<le> si_reasm_bytes s \<or> 0 < ci_prev_count c2
                         then c2\<lparr>ci_enable_reasm := False\<rparr> else c2)
               else c1\<lparr>ci_enable_reasm := False\<rparr>)
            else c1)
      else c)"

section \<open>What classification may change\<close>

text \<open>
  The classifiers write a few fields only. \<open>infer_core\<close> erases exactly those: two states with
  the same core agree on the address tuple, the socket type, the direction, the file
  descriptor, the lengths, the socket's identity and its recorded protocol. \<open>cache_ok\<close> says
  the two caches of kept bytes are never said to be longer than they are.
\<close>

definition sock_core :: "socket_info_s \<Rightarrow> socket_info_s" where
  "sock_core s = s\<lparr>si_force_reasm := False, si_prev_data := (\<lambda>_. 0), si_direction := T_EGRESS,
     si_pre_direction := T_EGRESS, si_tls_end := False, si_prev_data_len := 0\<rparr>"

definition infer_core :: "conn_info_s \<Rightarrow> conn_info_s" where
  "infer_core c = c\<lparr>ci_need_reconfirm := False, ci_keep_trace := False, ci_role := ROLE_UNKNOWN,
     ci_dns_q_type := 0, ci_no_trace := False, ci_correlation_id := 0, ci_prev_count := 0,
     ci_prev_buf := (\<lambda>_. 0),
     ci_socket_info_ptr := map_option sock_core (ci_socket_info_ptr c)\<rparr>"

definition cache_ok :: "conn_info_s \<Rightarrow> bool" where
  "cache_ok c \<longleftrightarrow> unat (ci_prev_count c) \<le> EBPF_CACHE_SIZE \<and>
     (case ci_socket_info_ptr c of None \<Rightarrow> True
      | Some s \<Rightarrow> unat (si_prev_data_len s) \<le> EBPF_CACHE_SIZE)"

lemma infer_core_upd [simp]:
  "infer_core (c\<lparr>ci_need_reconfirm := b\<rparr>) = infer_core c"
  "infer_core (c\<lparr>ci_keep_trace := b\<rparr>) = infer_core c"
  "infer_core (c\<lparr>ci_role := r\<rparr>) = infer_core c"
  "infer_core (c\<lparr>ci_dns_q_type := q\<rparr>) = infer_core c"
  "infer_core (c\<lparr>ci_no_trace := b\<rparr>) = infer_core c"
  "infer_core (c\<lparr>ci_correlation_id := w\<rparr>) = infer_core c"
  "infer_core (c\<lparr>ci_prev_count := n\<rparr>) = infer_core c"
  "infer_core (c\<lparr>ci_prev_buf := p\<rparr>) = infer_core c"
  by (simp_all add: infer_core_def)

lemma infer_core_upd_sock [simp]:
  "(\<And>s. sock_core (f s) = sock_core s) \<Longrightarrow> infer_core (upd_sock f c) = infer_core c"
  by (simp add: infer_core_def upd_sock_def option.map_comp comp_def)

lemma sock_core_upd [simp]:
  "sock_core (s\<lparr>si_force_reasm := b\<rparr>) = sock_core s"
  "sock_core (s\<lparr>si_prev_data := p\<rparr>) = sock_core s"
  "sock_core (s\<lparr>si_direction := d\<rparr>) = sock_core s"
  "sock_core (s\<lparr>si_pre_direction := d\<rparr>) = sock_core s"
  "sock_core (s\<lparr>si_tls_end := b\<rparr>) = sock_core s"
  "sock_core (s\<lparr>si_prev_data_len := n\<rparr>) = sock_core s"
  by (simp_all add: sock_core_def)

lemma infer_core_save_prev [simp]: "infer_core (save_prev_data_from_kern b c n) = infer_core c"
  by (simp add: save_prev_data_from_kern_def)

lemma infer_core_fetch_prev [simp]: "infer_core (snd (check_and_fetch_prev_data c)) = infer_core c"
  by (simp add: check_and_fetch_prev_data_def Let_def split: option.split)

lemma sock_core_eqD:
  assumes "sock_core s = sock_core s'"
  shows "si_uid s = si_uid s'" "si_l7_proto s = si_l7_proto s'" "si_trace_id s = si_trace_id s'"
    "si_seq s = si_seq s'" "si_sk s = si_sk s'" "si_data_source s = si_data_source s'"
  using arg_cong [OF assms, of si_uid] arg_cong [OF assms, of si_l7_proto]
    arg_cong [OF assms, of si_trace_id] arg_cong [OF assms, of si_seq]
    arg_cong [OF assms, of si_sk] arg_cong [OF assms, of si_data_source]
  by (simp_all add: sock_core_def)

lemma infer_core_eqD:
  assumes "infer_core c = infer_core c'"
  shows "ci_tuple c = ci_tuple c'" "ci_sk_type c = ci_sk_type c'" "ci_direction c = ci_direction c'"
    "ci_fd c = ci_fd c'" "ci_sk c = ci_sk c'" "ci_syscall_infer_len c = ci_syscall_infer_len c'"
    "ci_syscall_infer_addr c = ci_syscall_infer_addr c'" "ci_count c = ci_count c'"
    "ci_enable_reasm c = ci_enable_reasm c'" "ci_protocol c = ci_protocol c'"
    "map_option sock_core (ci_socket_info_ptr c) = map_option sock_core (ci_socket_info_ptr c')"
  using arg_cong [OF assms, of ci_tuple] arg_cong [OF assms, of ci_sk_type]
    arg_cong [OF assms, of ci_direction] arg_cong [OF assms, of ci_fd]
    arg_cong [OF assms, of ci_sk] arg_cong [OF assms, of ci_syscall_infer_len]
    arg_cong [OF assms, of ci_syscall_infer_addr] arg_cong [OF assms, of ci_count]
    arg_cong [OF assms, of ci_enable_reasm] arg_cong [OF assms, of ci_protocol]
    arg_cong [OF assms, of ci_socket_info_ptr]
  by (simp_all add: infer_core_def)

lemma infer_core_sock:
  assumes "infer_core c = infer_core c'"
  shows "is_infer_socket_valid (ci_socket_info_ptr c) = is_infer_socket_valid (ci_socket_info_ptr c')"
    and "is_socket_info_valid (ci_socket_info_ptr c) = is_socket_info_valid (ci_socket_info_ptr c')"
    and "sock_l7_proto c = sock_l7_proto c'"
    and "(ci_socket_info_ptr c = None) = (ci_socket_info_ptr c' = None)"
  using infer_core_eqD(11) [OF assms]
  by (cases "ci_socket_info_ptr c"; cases "ci_socket_info_ptr c'";
      auto simp: is_infer_socket_valid_def is_socket_info_valid_def sock_l7_proto_def
        dest: sock_core_eqD)+

lemma cache_ok_upd [simp]:
  "cache_ok (c\<lparr>ci_need_reconfirm := b\<rparr>) = cache_ok c"
  "cache_ok (c\<lparr>ci_keep_trace := b\<rparr>) = cache_ok c"
  "cache_ok (c\<lparr>ci_role := r\<rparr>) = cache_ok c"
  "cache_ok (c\<lparr>ci_dns_q_type := q\<rparr>) = cache_ok c"
  "cache_ok (c\<lparr>ci_no_trace := b\<rparr>) = cache_ok c"
  "cache_ok (c\<lparr>ci_correlation_id := w\<rparr>) = cache_ok c"
  by (simp_all add: cache_ok_def)

lemma cache_ok_prev_count: "cache_ok c \<Longrightarrow> unat n \<le> EBPF_CACHE_SIZE \<Longrightarrow> cache_ok (c\<lparr>ci_prev_count := n\<rparr>)"
  by (simp add: cache_ok_def)

lemma cache_ok_upd_sock [simp]:
  "(\<And>s. si_prev_data_len (f s) = si_prev_data_len s) \<Longrightarrow> cache_ok (upd_sock f c) = cache_ok c"
  by (simp add: cache_ok_def upd_sock_def split: option.split)

lemma cache_ok_save_prev [simp]:
  "cache_ok c \<Longrightarrow> n \<le> EBPF_CACHE_SIZE \<Longrightarrow> cache_ok (save_prev_data_from_kern b c n)"
  by (auto simp: cache_ok_def save_prev_data_from_kern_def upd_sock_def EBPF_CACHE_SIZE_def
      unat_of_nat_small split: option.splits)

lemma cache_ok_fetch_prev [simp]: "cache_ok c \<Longrightarrow> cache_ok (snd (check_and_fetch_prev_data c))"
  by (auto simp: cache_ok_def check_and_fetch_prev_data_def upd_sock_def Let_def
      split: option.splits)

section \<open>A concrete state\<close>

text \<open>A concrete environment and connection, on which the properties below are instantiated: every
  protocol is enabled on every port and user memory holds \<open>mem\<close> from address 0 on.\<close>

definition example_env :: "bool \<Rightarrow> u8 list \<Rightarrow> bpf_env" where
  "example_env v mem =
     \<lparr>ver_5_2_plus = v,
      probe_read_user = (\<lambda>a n. (0, \<lambda>i. buf_of mem (unat a + i))),
      probe_read_user_str = (\<lambda>a n. (1, \<lambda>i. 0)),
      current_comm = (0, \<lambda>_. 0),
      current_pid_tgid = 0,
      protocol_filter = (\<lambda>_. Some 1),
      proto_ports_bitmap = (\<lambda>_. Some (\<lambda>_. 255)),
      tracer_ctx = None,
      proto_infer_cache_map = (\<lambda>_. Some (\<lambda>_. PROTO_UNKNOWN)),
      proc_info_map = (\<lambda>_. None),
      tcp_read_seq = (\<lambda>_. 0), http2_seq_full = False, http2_seq_evicted = (\<lambda>_. False)\<rparr>"

definition example_sock :: "traffic_protocol \<Rightarrow> socket_info_s" where
  "example_sock p =
     \<lparr>si_sk = 1, si_socket = 1, si_l7_proto = p, si_allow_reassembly = False, si_finish_reasm = False,
      si_udp_pre_set_addr = False, si_force_reasm = False, si_no_trace = False,
      si_data_source = DATA_SOURCE_SYSCALL, si_reasm_bytes = 0, si_seq = 1, si_prev_data = (\<lambda>_. 0),
      si_direction = T_EGRESS, si_pre_direction = T_EGRESS, si_role = ROLE_UNKNOWN, si_is_tls = False,
      si_tls_end = False, si_need_reconfirm = False, si_correlation_id = 0, si_peer_fd = 0,
      si_update_time = 0, si_prev_data_len = 0, si_trace_id = 0, si_uid = 7\<rparr>"

definition example_conn :: "traffic_direction \<Rightarrow> socket_info_s option \<Rightarrow> conn_info_s" where
  "example_conn d s =
     \<lparr>ci_tuple = \<lparr>tp_daddr = [], tp_rcv_saddr = [], tp_addr_len = 4, tp_l4_protocol = IPPROTO_TCP,
                  tp_dport = 80, tp_num = 4000\<rparr>,
      ci_skc_family = 2, ci_sk_type = SOCK_STREAM, ci_skc_ipv6only = False, ci_enable_reasm = False,
      ci_need_reconfirm = False, ci_keep_trace = False, ci_direction = d, ci_prev_direction = T_EGRESS,
      ci_role = ROLE_UNKNOWN, ci_skc_state = 1, ci_skip_proto = PROTO_UNKNOWN, ci_dns_q_type = 0,
      ci_fd = 5, ci_protocol = PROTO_UNKNOWN, ci_message_type = MSG_UNKNOWN, ci_is_reasm_seg = False,
      ci_no_trace = False, ci_correlation_id = 0xFFFFFFFF, ci_prev_count = 0, ci_syscall_infer_len = 0,
      ci_count = 0, ci_prev_buf = (\<lambda>_. 0), ci_syscall_infer_addr = 0, ci_sk = 1,
      ci_socket_info_ptr = s\<rparr>"

lemma example_simps:
  "ci_socket_info_ptr (example_conn d p) = p" "ci_direction (example_conn d p) = d"
  "ci_enable_reasm (example_conn d p) = False" "ci_protocol (example_conn d p) = PROTO_UNKNOWN"
  "ci_prev_count (example_conn d p) = 0" "ci_sk (example_conn d p) = 1"
  "si_uid (example_sock l7) = 7" "si_l7_proto (example_sock l7) = l7" "si_prev_data_len (example_sock l7) = 0"
  by (simp_all add: example_conn_def example_sock_def)

section \<open>Properties\<close>

text \<open>C21: Kept bytes. The first \<open>n\<close> bytes saved on a valid socket are what the next segment in the
  same direction gets back: the count and the bytes are those saved, the socket's cache is empty
  afterwards, and the socket's direction is again the one from before the saved segment.\<close>

theorem prev_data_roundtrip:
  assumes "ci_socket_info_ptr c = Some s" "si_uid s \<noteq> 0"
    and "0 < n" "n \<le> EBPF_CACHE_SIZE"
    and "ci_socket_info_ptr c' = ci_socket_info_ptr (save_prev_data_from_kern b c n)"
      "ci_direction c' = ci_direction c"
    and "check_and_fetch_prev_data c' = (k, c'')"
  shows "unat k = n \<and> ci_prev_count c'' = k \<and> agree_on n (ci_prev_buf c'') b \<and>
    map_option si_direction (ci_socket_info_ptr c'') = Some (si_direction s) \<and>
    map_option si_prev_data_len (ci_socket_info_ptr c'') = Some 0"
proof -
  have pos: "0 < (of_nat n :: u32)" "unat (of_nat n :: u32) = n"
    using assms(3,4) by (simp_all add: EBPF_CACHE_SIZE_def unat_of_nat_small word_less_nat_alt)
  show ?thesis
    using assms pos
    by (auto simp: check_and_fetch_prev_data_def save_prev_data_from_kern_def upd_sock_def
        is_socket_info_valid_def agree_on_def memcpy_buf_def)
qed

theorem prev_data_roundtrip_witness:
  "fst (check_and_fetch_prev_data (save_prev_data_from_kern (buf_of [33, 0, 0, 0])
     (example_conn T_INGRESS (Some (example_sock PROTO_MYSQL))) 4)) = 4"
proof -
  let ?c = "example_conn T_INGRESS (Some (example_sock PROTO_MYSQL))"
  let ?c' = "save_prev_data_from_kern (buf_of [33, 0, 0, 0]) ?c 4"
  obtain k c'' where f: "check_and_fetch_prev_data ?c' = (k, c'')" by (metis surj_pair)
  have "unat k = 4"
    using prev_data_roundtrip [of ?c "example_sock PROTO_MYSQL" 4 ?c' "buf_of [33, 0, 0, 0]" k c'',
        OF _ _ _ _ _ _ f]
    by (simp add: example_conn_def example_sock_def EBPF_CACHE_SIZE_def
        save_prev_data_from_kern_def upd_sock_def)
  then have "k = 4" by (simp add: word_unat_eq_iff)
  then show ?thesis by (simp add: f)
qed

text \<open>C24: Ports. A bitmap filled by a sequence of \<^verbatim>\<open>set_bitmap\<close> from the empty one holds exactly the
  ports inserted, read through either of the two lookups.\<close>

theorem ports_bitmap_holds_inserted:
  "is_set_bitmap (foldl set_bitmap (\<lambda>_. 0) ps) p = (p \<in> set ps) \<and>
   is_set_ports_bitmap (foldl set_bitmap (\<lambda>_. 0) ps) p = (p \<in> set ps)"
proof -
  have "\<not> is_set_bitmap (\<lambda>_. 0) p" by (simp add: is_set_bitmap_iff)
  then have "is_set_bitmap (foldl set_bitmap (\<lambda>_. 0) ps) p = (p \<in> set ps)"
    by (simp add: ports.member_insert_all)
  then show ?thesis by (simp add: is_set_bitmap_iff is_set_ports_bitmap_iff)
qed

text \<open>C25: The two bitmap lookups that the first and the later programs are compiled with give the
  same verdict on every port check.\<close>

theorem port_checks_same_verdict:
  "protocol_port_check env p c L7_PROTO_INFER_PROG_2 = protocol_port_check env p c L7_PROTO_INFER_PROG_1"
  by (simp add: protocol_port_check_def L7_PROTO_INFER_PROG_1_def L7_PROTO_INFER_PROG_2_def
      is_set_bitmap_iff is_set_ports_bitmap_iff split: option.split)

end
