(* ===== verification/Infer_Contract.thy ===== *)
theory Infer_Contract
  imports Conn_Info
begin

text \<open>
  The contract every L7 classifier \<^verbatim>\<open>infer_*_message\<close> keeps, and the one combinator from which
  the dispatchers \<^verbatim>\<open>infer_protocol_1/2/3\<close> are built: an arm of their \<^verbatim>\<open>if ... else if\<close> chains.

  A classifier runs in an environment, on the 64-byte inference buffer and the length of the
  system call, and may update the connection state. One of them (HTTP/2) also writes the map
  \<^verbatim>\<open>http2_tcp_seq_map\<close>, so the state is the pair of the two.
\<close>

type_synonym http2_seq_map = "(u32 \<times> u32 \<times> u32) \<Rightarrow> u32 option"
type_synonym infer_st = "conn_info_s \<times> http2_seq_map"
type_synonym classifier = "bpf_env \<Rightarrow> buf \<Rightarrow> u64 \<Rightarrow> infer_st \<Rightarrow> message_type \<times> infer_st"

text \<open>An update of a \<^verbatim>\<open>BPF_MAP_TYPE_LRU_HASH\<close>. The kernel takes a free element first, for which it may evict
  entries, and fails if there is none; with \<^verbatim>\<open>BPF_NOEXIST\<close> an entry already present is kept.\<close>

definition lru_update :: "bool \<Rightarrow> ('k \<Rightarrow> bool) \<Rightarrow> bool \<Rightarrow> ('k \<Rightarrow> 'v option) \<Rightarrow> 'k \<Rightarrow> 'v \<Rightarrow> 'k \<Rightarrow> 'v option" where
  "lru_update full evicted noexist m k v =
     (let m1 = (\<lambda>x. if evicted x then None else m x)
      in if full \<or> (noexist \<and> m1 k \<noteq> None) then m1 else m1(k \<mapsto> v))"

text \<open>Classifiers that only read the connection, and those that update nothing else.\<close>

definition pure_cls ::
    "(bpf_env \<Rightarrow> buf \<Rightarrow> u64 \<Rightarrow> conn_info_s \<Rightarrow> message_type) \<Rightarrow> classifier" where
  "pure_cls g env b n s = (g env b n (fst s), s)"

definition conn_cls ::
    "(bpf_env \<Rightarrow> buf \<Rightarrow> u64 \<Rightarrow> conn_info_s \<Rightarrow> message_type \<times> conn_info_s) \<Rightarrow> classifier" where
  "conn_cls g env b n s = (case g env b n (fst s) of (t, c') \<Rightarrow> (t, (c', snd s)))"

text \<open>The guard most classifiers open with: a socket already known to speak another protocol.\<close>

definition other_proto :: "traffic_protocol \<Rightarrow> conn_info_s \<Rightarrow> bool" where
  "other_proto p c \<longleftrightarrow> is_infer_socket_valid (ci_socket_info_ptr c) \<and> sock_l7_proto c \<noteq> p"

definition inferred :: "traffic_protocol \<Rightarrow> message_type \<Rightarrow> protocol_message_t" where
  "inferred p t = \<lparr>pm_protocol = p, pm_type = t\<rparr>"

text \<open>
  One arm of a chain, with the rest of the chain as the \<^verbatim>\<open>else\<close> branch. On kernels from 5.2 on
  the protocol the fast path has already tried is not tried again; for Kafka, MySQL and
  FastCGI a \<^verbatim>\<open>MSG_PRESTORE\<close> is returned before the protocol is assigned.
\<close>

definition try_infer ::
    "bpf_env \<Rightarrow> traffic_protocol \<Rightarrow> traffic_protocol \<Rightarrow> bool \<Rightarrow> (infer_st \<Rightarrow> message_type \<times> infer_st)
      \<Rightarrow> (infer_st \<Rightarrow> protocol_message_t \<times> infer_st) \<Rightarrow> infer_st \<Rightarrow> protocol_message_t \<times> infer_st"
  where
  "try_infer env skip_proto proto prestore_first f else_branch s =
     (if \<not> ver_5_2_plus env \<or> skip_proto \<noteq> proto then
        (case f s of (t, s') \<Rightarrow>
           if t \<noteq> MSG_UNKNOWN then
             (if prestore_first \<and> t = MSG_PRESTORE then (inferred PROTO_UNKNOWN t, s')
              else (inferred proto t, s'))
           else else_branch s')
      else else_branch s)"

text \<open>Conditionals pushed outwards: a classifier is a chain of early returns, and what it does to
  the state is the same on every one of them.\<close>

lemmas if_push = if_distrib [of fst] if_distrib [of snd] if_distrib [of infer_core] if_distrib [of cache_ok]

lemma port_check_core:
  assumes "infer_core c = infer_core c'"
  shows "protocol_port_check_1 env p c = protocol_port_check_1 env p c'"
    "protocol_port_check_2 env p c = protocol_port_check_2 env p c'"
    "other_proto p c = other_proto p c'"
  using infer_core_eqD [OF assms] infer_core_sock [OF assms]
  by (simp_all add: protocol_port_check_1_def protocol_port_check_2_def protocol_port_check_def other_proto_def split: option.split)

section \<open>The bytes of the inference buffer\<close>

text \<open>Two buffers that agree on the inference window are interchangeable in every load below 64 bytes.\<close>

lemma agree_bytes:
  assumes "agree_on INFER_DATA_SZ b b'"
  shows "b 0 = b' 0" "b (Suc 0) = b' (Suc 0)" "b 2 = b' 2" "b 3 = b' 3" "b 4 = b' 4" "b 5 = b' 5"
    "b 6 = b' 6" "b 7 = b' 7" "b 8 = b' 8" "b 9 = b' 9" "b 10 = b' 10" "b 11 = b' 11"
    "b 12 = b' 12" "b 13 = b' 13" "b 14 = b' 14" "b 15 = b' 15" "b 16 = b' 16" "b 17 = b' 17"
    "b 18 = b' 18" "b 19 = b' 19" "b 20 = b' 20" "b 21 = b' 21" "b 22 = b' 22" "b 23 = b' 23"
    "b 24 = b' 24" "b 25 = b' 25" "b 26 = b' 26" "b 27 = b' 27" "b 28 = b' 28" "b 29 = b' 29"
    "b 30 = b' 30" "b 31 = b' 31"
  using assms by (simp_all add: agree_on_def INFER_DATA_SZ_def)

lemma agree_loads:
  assumes "agree_on INFER_DATA_SZ b b'"
  shows "i + 2 \<le> 64 \<Longrightarrow> ld_u16 b i = ld_u16 b' i" "i + 4 \<le> 64 \<Longrightarrow> ld_u32 b i = ld_u32 b' i"
    "i + 8 \<le> 64 \<Longrightarrow> ld_u64 b i = ld_u64 b' i"
    "i + length str \<le> 64 \<Longrightarrow> str_at b i str = str_at b' i str"
    "k \<le> 64 \<Longrightarrow> memcpy_buf d b k = memcpy_buf d b' k"
  using assms str_at_agree [OF assms, of i str]
  by (auto simp: agree_on_def INFER_DATA_SZ_def ld_u16_def ld_u32_def ld_u64_def memcpy_buf_def)

lemma save_prev_local:
  "agree_on INFER_DATA_SZ b b' \<Longrightarrow> k \<le> 64 \<Longrightarrow>
     save_prev_data_from_kern b c k = save_prev_data_from_kern b' c k"
  by (simp add: save_prev_data_from_kern_def agree_loads(5))

section \<open>The contract\<close>

text \<open>
  \<open>cls_disabled\<close>: a protocol switched off in \<^verbatim>\<open>protocol_filter\<close> is never recognised.
  \<open>cls_sticky\<close>: on a socket known to speak another protocol at most bytes are kept.
  \<open>cls_core\<close>, \<open>cls_cache\<close>: only the fields erased by \<open>infer_core\<close> change, and the caches of
  kept bytes stay within their 16 bytes.
  \<open>cls_local\<close>: the verdict depends on the 64 bytes of the inference buffer only: no read past its end.
\<close>

locale l7_classifier =
  fixes proto :: traffic_protocol
    and f :: classifier
  assumes cls_named: "proto \<noteq> PROTO_UNKNOWN"
    and cls_disabled: "\<not> is_protocol_enabled env proto \<Longrightarrow> fst (f env b n s) = MSG_UNKNOWN"
    and cls_sticky: "other_proto proto (fst s) \<Longrightarrow> fst (f env b n s) \<in> {MSG_UNKNOWN, MSG_PRESTORE}"
    and cls_core: "infer_core (fst (snd (f env b n s))) = infer_core (fst s)"
    and cls_cache: "cache_ok (fst s) \<Longrightarrow> cache_ok (fst (snd (f env b n s)))"
    and cls_local: "agree_on INFER_DATA_SZ b b' \<Longrightarrow> f env b n s = f env b' n s"

locale pure_classifier =
  fixes proto :: traffic_protocol
    and g :: "bpf_env \<Rightarrow> buf \<Rightarrow> u64 \<Rightarrow> conn_info_s \<Rightarrow> message_type"
  assumes pure_named: "proto \<noteq> PROTO_UNKNOWN"
    and pure_disabled: "\<not> is_protocol_enabled env proto \<Longrightarrow> g env b n c = MSG_UNKNOWN"
    and pure_sticky: "other_proto proto c \<Longrightarrow> g env b n c \<in> {MSG_UNKNOWN, MSG_PRESTORE}"
    and pure_local: "agree_on INFER_DATA_SZ b b' \<Longrightarrow> g env b n c = g env b' n c"

sublocale pure_classifier \<subseteq> l7_classifier proto "pure_cls g"
proof unfold_locales
  show "proto \<noteq> PROTO_UNKNOWN" by (rule pure_named)
  fix env b b' n s
  show "\<not> is_protocol_enabled env proto \<Longrightarrow> fst (pure_cls g env b n s) = MSG_UNKNOWN"
    by (simp add: pure_cls_def pure_disabled)
  show "other_proto proto (fst s) \<Longrightarrow> fst (pure_cls g env b n s) \<in> {MSG_UNKNOWN, MSG_PRESTORE}"
    using pure_sticky [of "fst s"] by (simp add: pure_cls_def)
  show "agree_on INFER_DATA_SZ b b' \<Longrightarrow> pure_cls g env b n s = pure_cls g env b' n s"
    using pure_local [of b b'] by (simp add: pure_cls_def)
qed (simp_all add: pure_cls_def)

locale conn_classifier =
  fixes proto :: traffic_protocol
    and g :: "bpf_env \<Rightarrow> buf \<Rightarrow> u64 \<Rightarrow> conn_info_s \<Rightarrow> message_type \<times> conn_info_s"
  assumes conn_named: "proto \<noteq> PROTO_UNKNOWN"
    and conn_disabled: "\<not> is_protocol_enabled env proto \<Longrightarrow> fst (g env b n c) = MSG_UNKNOWN"
    and conn_sticky: "other_proto proto c \<Longrightarrow> fst (g env b n c) \<in> {MSG_UNKNOWN, MSG_PRESTORE}"
    and conn_core: "infer_core (snd (g env b n c)) = infer_core c"
    and conn_cache: "cache_ok c \<Longrightarrow> cache_ok (snd (g env b n c))"
    and conn_local: "agree_on INFER_DATA_SZ b b' \<Longrightarrow> g env b n c = g env b' n c"

sublocale conn_classifier \<subseteq> l7_classifier proto "conn_cls g"
proof unfold_locales
  show "proto \<noteq> PROTO_UNKNOWN" by (rule conn_named)
  fix env b b' n s
  show "\<not> is_protocol_enabled env proto \<Longrightarrow> fst (conn_cls g env b n s) = MSG_UNKNOWN"
    by (simp add: conn_cls_def conn_disabled split_beta)
  show "other_proto proto (fst s) \<Longrightarrow> fst (conn_cls g env b n s) \<in> {MSG_UNKNOWN, MSG_PRESTORE}"
    using conn_sticky [of "fst s"] by (simp add: conn_cls_def split_beta)
  show "infer_core (fst (snd (conn_cls g env b n s))) = infer_core (fst s)"
    by (simp add: conn_cls_def conn_core split_beta)
  show "cache_ok (fst s) \<Longrightarrow> cache_ok (fst (snd (conn_cls g env b n s)))"
    by (simp add: conn_cls_def conn_cache split_beta)
  show "agree_on INFER_DATA_SZ b b' \<Longrightarrow> conn_cls g env b n s = conn_cls g env b' n s"
    using conn_local [of b b'] by (simp add: conn_cls_def)
qed

section \<open>What a chain of arms gives\<close>

text \<open>
  A whole dispatch may in addition mark the segment and the socket as reassembled and note the
  protocol the fast path tried. \<open>infer_ok env s r\<close> says what a dispatch from state \<open>s\<close> with
  outcome \<open>r\<close> guarantees.
\<close>

definition reasm_core :: "conn_info_s \<Rightarrow> conn_info_s" where
  "reasm_core c =
     (let d = infer_core c
      in d\<lparr>ci_is_reasm_seg := False, ci_skip_proto := PROTO_UNKNOWN,
           ci_socket_info_ptr :=
             map_option (\<lambda>s. s\<lparr>si_finish_reasm := False\<rparr>) (ci_socket_info_ptr d)\<rparr>)"

definition infer_ok :: "bpf_env \<Rightarrow> infer_st \<Rightarrow> protocol_message_t \<times> infer_st \<Rightarrow> bool" where
  "infer_ok env s r \<longleftrightarrow>
     reasm_core (fst (snd r)) = reasm_core (fst s) \<and>
     (cache_ok (fst s) \<longrightarrow> cache_ok (fst (snd r))) \<and>
     (pm_protocol (fst r) \<noteq> PROTO_UNKNOWN \<longrightarrow>
        is_protocol_enabled env (pm_protocol (fst r)) \<or>
        (ci_enable_reasm (fst s) \<and> pm_protocol (fst r) = sock_l7_proto (fst s))) \<and>
     (pm_type (fst r) = MSG_UNKNOWN \<longrightarrow> pm_protocol (fst r) = PROTO_UNKNOWN) \<and>
     (pm_protocol (fst r) = PROTO_UNKNOWN \<and>
        (ci_enable_reasm (fst s) \<longrightarrow> is_infer_socket_valid (ci_socket_info_ptr (fst s))) \<longrightarrow>
        pm_type (fst r) \<in> {MSG_UNKNOWN, MSG_PRESTORE}) \<and>
     (is_infer_socket_valid (ci_socket_info_ptr (fst s)) \<and>
        pm_type (fst r) \<notin> {MSG_UNKNOWN, MSG_PRESTORE} \<longrightarrow>
        pm_protocol (fst r) = sock_l7_proto (fst s))"

lemma reasm_core_infer_core: "infer_core c = infer_core c' \<Longrightarrow> reasm_core c = reasm_core c'"
  by (simp add: reasm_core_def)

lemma reasm_core_upd [simp]:
  "reasm_core (c\<lparr>ci_is_reasm_seg := x\<rparr>) = reasm_core c"
  "reasm_core (c\<lparr>ci_skip_proto := p\<rparr>) = reasm_core c"
  by (simp_all add: reasm_core_def infer_core_def)

lemma reasm_core_finish [simp]:
  "reasm_core (upd_sock (\<lambda>s. s\<lparr>si_finish_reasm := x\<rparr>) c) = reasm_core c"
  by (cases "ci_socket_info_ptr c")
    (simp_all add: reasm_core_def infer_core_def upd_sock_def sock_core_def)

lemma reasm_core_eqD:
  assumes "reasm_core c = reasm_core c'"
  shows "ci_tuple c = ci_tuple c'" "ci_sk_type c = ci_sk_type c'" "ci_direction c = ci_direction c'"
    "ci_fd c = ci_fd c'" "ci_sk c = ci_sk c'" "ci_enable_reasm c = ci_enable_reasm c'"
    "map_option (\<lambda>s. (sock_core s)\<lparr>si_finish_reasm := False\<rparr>) (ci_socket_info_ptr c) =
     map_option (\<lambda>s. (sock_core s)\<lparr>si_finish_reasm := False\<rparr>) (ci_socket_info_ptr c')"
  using arg_cong [OF assms, of ci_tuple] arg_cong [OF assms, of ci_sk_type]
    arg_cong [OF assms, of ci_direction] arg_cong [OF assms, of ci_fd]
    arg_cong [OF assms, of ci_sk] arg_cong [OF assms, of ci_enable_reasm]
    arg_cong [OF assms, of ci_socket_info_ptr]
  by (simp_all add: reasm_core_def infer_core_def option.map_comp comp_def)

lemma reasm_core_sock:
  assumes "reasm_core c = reasm_core c'"
  shows "map_option si_uid (ci_socket_info_ptr c) = map_option si_uid (ci_socket_info_ptr c')"
    and "map_option si_l7_proto (ci_socket_info_ptr c) = map_option si_l7_proto (ci_socket_info_ptr c')"
  using arg_cong [OF reasm_core_eqD(7) [OF assms], of "map_option si_uid"]
    arg_cong [OF reasm_core_eqD(7) [OF assms], of "map_option si_l7_proto"]
  by (simp_all add: option.map_comp comp_def sock_core_def)

lemma sock_valid_ident:
  assumes "map_option si_uid p = map_option si_uid p'"
    and "map_option si_l7_proto p = map_option si_l7_proto p'"
  shows "is_infer_socket_valid p = is_infer_socket_valid p'"
    and "is_socket_info_valid p = is_socket_info_valid p'"
  using assms by (cases p; cases p'; auto simp: is_infer_socket_valid_def is_socket_info_valid_def)+

lemma sock_l7_proto_ident:
  "map_option si_l7_proto (ci_socket_info_ptr c) = map_option si_l7_proto (ci_socket_info_ptr c') \<Longrightarrow>
   sock_l7_proto c = sock_l7_proto c'"
  by (cases "ci_socket_info_ptr c"; cases "ci_socket_info_ptr c'"; auto simp: sock_l7_proto_def)

lemma infer_ok_unknown [simp]: "infer_ok env s (inferred PROTO_UNKNOWN MSG_UNKNOWN, s)"
  by (simp add: infer_ok_def inferred_def)

text \<open>The predicate only looks at the core of the state a chain starts from.\<close>

lemma infer_ok_trans:
  assumes "reasm_core (fst s') = reasm_core (fst s)" "cache_ok (fst s) \<longrightarrow> cache_ok (fst s')"
    and "infer_ok env s' r"
  shows "infer_ok env s r"
  using assms reasm_core_eqD(6) [OF assms(1)] sock_valid_ident(1) [OF reasm_core_sock [OF assms(1)]]
    sock_l7_proto_ident [OF reasm_core_sock(2) [OF assms(1)]]
  unfolding infer_ok_def by simp

context l7_classifier
begin

lemma result_ok:
  assumes "f env b n s = (t, s')" "t \<noteq> MSG_UNKNOWN"
  shows "infer_ok env s (inferred proto t, s')"
  using assms reasm_core_infer_core [OF cls_core [of env b n s]] cls_cache [of s env b n]
    cls_disabled [of env b n s] cls_sticky [of s env b n] cls_named
  by (auto simp: infer_ok_def inferred_def other_proto_def)

lemma prestore_ok:
  assumes "f env b n s = (MSG_PRESTORE, s')"
  shows "infer_ok env s (inferred PROTO_UNKNOWN MSG_PRESTORE, s')"
  using assms reasm_core_infer_core [OF cls_core [of env b n s]] cls_cache [of s env b n]
  by (auto simp: infer_ok_def inferred_def)

lemma try_infer_ok:
  assumes "\<And>s. infer_ok env s (k s)"
  shows "infer_ok env s (try_infer env skip proto pf (f env b n) k s)"
proof -
  obtain t s' where Pair: "f env b n s = (t, s')" by (metis surj_pair)
  have "t = MSG_UNKNOWN \<Longrightarrow> infer_ok env s (k s')"
    using reasm_core_infer_core [OF cls_core [of env b n s]] cls_cache [of s env b n] Pair assms
    by (intro infer_ok_trans [of s' s]) auto
  then show ?thesis
    using assms result_ok [OF Pair] prestore_ok [of env b n s s'] Pair
    by (auto simp: try_infer_def)
qed

lemma try_infer_local:
  assumes "agree_on INFER_DATA_SZ b b'" and "\<And>s. k s = k' s"
  shows "try_infer env skip proto pf (f env b n) k s = try_infer env skip proto pf (f env b' n) k' s"
  using assms(2) cls_local [OF assms(1)] by (simp add: try_infer_def split_beta)

end

end
