(* ===== verification/Infer_Web.thy ===== *)
theory Infer_Web
  imports Infer_Contract
begin

text \<open>
  The classifiers of \<^verbatim>\<open>protocol_inference.h\<close> for HTTP/1, HTTP/2, DNS and TLS.
\<close>

section \<open>HTTP/1\<close>

definition is_http_response :: "buf \<Rightarrow> bool" where
  "is_http_response data \<longleftrightarrow>
     data 0 = byte CHR ''H'' \<and> data 1 = byte CHR ''T'' \<and> data 2 = byte CHR ''T'' \<and>
     data 3 = byte CHR ''P'' \<and> data 4 = byte CHR ''/'' \<and> data 5 = byte CHR ''1'' \<and>
     data 6 = byte CHR ''.'' \<and> data 8 = byte CHR '' '' \<and> data 9 \<noteq> byte CHR ''1''"

text \<open>\<^verbatim>\<open>data_len\<close> is an \<^verbatim>\<open>int\<close>: the length is truncated to 32 bits and read as signed.\<close>

definition is_http_request ::
    "bpf_env \<Rightarrow> buf \<Rightarrow> u32 \<Rightarrow> conn_info_s \<Rightarrow> bool \<times> conn_info_s" where
  "is_http_request env data data_len c =
     (if data 0 = byte CHR ''D'' then
        (if data 1 \<noteq> byte CHR ''E'' \<or> data 2 \<noteq> byte CHR ''L'' \<or> data 3 \<noteq> byte CHR ''E'' \<or>
            data 4 \<noteq> byte CHR ''T'' \<or> data 5 \<noteq> byte CHR ''E'' \<or> data 6 \<noteq> byte CHR '' ''
         then (False, c) else (True, c))
      else if data 0 = byte CHR ''G'' then
        (if data 1 \<noteq> byte CHR ''E'' \<or> data 2 \<noteq> byte CHR ''T'' \<or> data 3 \<noteq> byte CHR '' ''
         then (False, c) else (True, c))
      else if data 0 = byte CHR ''H'' then
        (if data 1 \<noteq> byte CHR ''E'' \<or> data 2 \<noteq> byte CHR ''A'' \<or> data 3 \<noteq> byte CHR ''D'' \<or>
            data 4 \<noteq> byte CHR '' ''
         then (False, c)
         else if is_nginx_process env then (True, c\<lparr>ci_no_trace := True\<rparr>)
         else (True, c))
      else if data 0 = byte CHR ''O'' then
        (if sint data_len < 8 \<or> data 1 \<noteq> byte CHR ''P'' \<or> data 2 \<noteq> byte CHR ''T'' \<or>
            data 3 \<noteq> byte CHR ''I'' \<or> data 4 \<noteq> byte CHR ''O'' \<or> data 5 \<noteq> byte CHR ''N'' \<or>
            data 6 \<noteq> byte CHR ''S'' \<or> data 7 \<noteq> byte CHR '' ''
         then (False, c) else (True, c))
      else if data 0 = byte CHR ''P'' then
        (if data 1 = byte CHR ''A'' then
           (if data 2 \<noteq> byte CHR ''T'' \<or> data 3 \<noteq> byte CHR ''C'' \<or> data 4 \<noteq> byte CHR ''H'' \<or>
               data 5 \<noteq> byte CHR '' ''
            then (False, c) else (True, c))
         else if data 1 = byte CHR ''O'' then
           (if data 2 \<noteq> byte CHR ''S'' \<or> data 3 \<noteq> byte CHR ''T'' \<or> data 4 \<noteq> byte CHR '' ''
            then (False, c) else (True, c))
         else if data 1 = byte CHR ''U'' then
           (if data 2 \<noteq> byte CHR ''T'' \<or> data 3 \<noteq> byte CHR '' '' then (False, c) else (True, c))
         else (False, c))
      else (False, c))"

definition infer_http_message ::
    "bpf_env \<Rightarrow> buf \<Rightarrow> u64 \<Rightarrow> conn_info_s \<Rightarrow> message_type \<times> conn_info_s" where
  "infer_http_message env b count c =
     (if count < 14 then (MSG_UNKNOWN, c)
      else if \<not> protocol_port_check_1 env PROTO_HTTP1 c then (MSG_UNKNOWN, c)
      else if other_proto PROTO_HTTP1 c then (MSG_UNKNOWN, c)
      else if is_http_response b then (MSG_RESPONSE, c)
      else case is_http_request env b (ucast count) c of
        (r, c') \<Rightarrow> if r then (MSG_REQUEST, c') else (MSG_UNKNOWN, c'))"

section \<open>HTTP/2\<close>

definition HTTPV2_FRAME_PROTO_SZ :: nat where "HTTPV2_FRAME_PROTO_SZ = 9"
definition HTTPV2_FRAME_READ_SZ :: nat where "HTTPV2_FRAME_READ_SZ = 21"
definition HTTPV2_STATIC_TABLE_IDX_MAX :: u8 where "HTTPV2_STATIC_TABLE_IDX_MAX = 61"

definition HTTPV2_LOOP_MAX :: "bpf_env \<Rightarrow> nat" where
  "HTTPV2_LOOP_MAX env = (if ver_5_2_plus env then 8 else 5)"

definition get_block_fragment_offset :: "u8 \<Rightarrow> u8 \<Rightarrow> u8 \<Rightarrow> u8" where
  "get_block_fragment_offset fix_sz flags_padding flags_priority =
     (let offset = fix_sz;
          offset = (if flags_padding \<noteq> 0 then offset + 1 else offset);
          offset = (if flags_priority \<noteq> 0 then offset + 5 else offset)
      in offset)"

text \<open>The macro \<^verbatim>\<open>try_find__static_table_idx\<close> on the pair of index and offset.\<close>

definition try_find_static_table_idx :: "buf \<Rightarrow> u8 \<Rightarrow> u8 \<times> u8 \<Rightarrow> u8 \<times> u8" where
  "try_find_static_table_idx b max_idx s =
     (case s of (table_idx, offset) \<Rightarrow>
        if table_idx > max_idx \<or> table_idx = 0
        then (b (unat (offset + 1)) AND 0x7f, offset + 1) else (table_idx, offset))"

definition find_idx_from_block_fragment :: "buf \<Rightarrow> u8 \<Rightarrow> u8 \<Rightarrow> u8" where
  "find_idx_from_block_fragment b offset max_idx =
     fst (try_find_static_table_idx b max_idx (try_find_static_table_idx b max_idx
       (try_find_static_table_idx b max_idx (try_find_static_table_idx b max_idx
         (try_find_static_table_idx b max_idx (b (unat offset) AND 0x7f, offset))))))"

definition is_http2_magic :: "bpf_env \<Rightarrow> u64 \<Rightarrow> bool" where
  "is_http2_magic env buf_src =
     (let magic = buf_of (map byte ''PRI * HTTP/2'');
          buffer = read_user env (\<lambda>_. 0) 12 buf_src
      in list_all (\<lambda>idx. magic idx = buffer idx) [0..<13])"

text \<open>
  The frame loop of \<^verbatim>\<open>parse_http2_headers_frame\<close>, \<open>i\<close> iterations left. A \<^verbatim>\<open>return\<close> inside the
  loop never carries \<^verbatim>\<open>MSG_PRESTORE\<close>, so both ways out of it are the message type found.
\<close>

fun http2_frame_loop ::
    "nat \<Rightarrow> bpf_env \<Rightarrow> u64 \<Rightarrow> u64 \<Rightarrow> u64 \<Rightarrow> bool \<Rightarrow> u32 \<Rightarrow> conn_info_s \<Rightarrow> message_type \<times> conn_info_s"
  where
  "http2_frame_loop 0 env syscall_len buf_src count is_first offset c = (MSG_UNKNOWN, c)"
| "http2_frame_loop (Suc i) env syscall_len buf_src count is_first offset c =
     (if count \<le> ucast offset then (MSG_UNKNOWN, c)
      else
        (let b = read_user env (\<lambda>_. 0) HTTPV2_FRAME_READ_SZ (buf_src + ucast offset);
             offset' = offset + (drop_bit 8 (bpf_ntohl (ld_u32 b 0)) + of_nat HTTPV2_FRAME_PROTO_SZ);
             type = b 3
         in if type = 0 \<and> \<not> is_first then (MSG_REQUEST, c)
            else if type \<noteq> 1 then
              http2_frame_loop i env syscall_len buf_src count is_first offset' c
            else
              (let flags_unset = b 4 AND 0xd2;
                   flags_padding = b 4 AND 0x08;
                   flags_priority = b 4 AND 0x20;
                   reserve = b 5 AND 0x01
               in if flags_unset \<noteq> 0 \<or> reserve \<noteq> 0 then (MSG_UNKNOWN, c)
                  else if syscall_len = of_nat HTTPV2_FRAME_PROTO_SZ then (MSG_PRESTORE, c)
                  else if \<not> is_first then (MSG_REQUEST, c)
                  else
                    (let block_fragment_offset =
                           get_block_fragment_offset (of_nat HTTPV2_FRAME_PROTO_SZ)
                             flags_padding flags_priority;
                         static_table_idx =
                           find_idx_from_block_fragment b block_fragment_offset
                             HTTPV2_STATIC_TABLE_IDX_MAX
                     in if static_table_idx > HTTPV2_STATIC_TABLE_IDX_MAX \<and> static_table_idx = 0
                        then http2_frame_loop i env syscall_len buf_src count is_first offset' c
                        else if 1 \<le> static_table_idx \<and> static_table_idx \<le> 7 then
                          (MSG_REQUEST,
                           c\<lparr>ci_role := if ci_direction c = T_INGRESS then ROLE_SERVER
                                         else ROLE_CLIENT\<rparr>)
                        else if 8 \<le> static_table_idx \<and> static_table_idx \<le> 14 then
                          (MSG_RESPONSE,
                           c\<lparr>ci_role := if ci_direction c = T_EGRESS then ROLE_SERVER
                                         else ROLE_CLIENT\<rparr>)
                        else (MSG_UNKNOWN, c)))))"

definition parse_http2_headers_frame ::
    "bpf_env \<Rightarrow> buf \<Rightarrow> u64 \<Rightarrow> u64 \<Rightarrow> u64 \<Rightarrow> conn_info_s \<Rightarrow> bool \<Rightarrow> message_type \<times> conn_info_s" where
  "parse_http2_headers_frame env buf_kern syscall_len buf_src count c is_first =
     (if ci_prev_count c = of_nat HTTPV2_FRAME_PROTO_SZ then (MSG_REQUEST, c)
      else if count < of_nat HTTPV2_FRAME_PROTO_SZ then (MSG_UNKNOWN, c)
      else
        (let magic = is_first \<and> is_http2_magic env buf_src;
             offset = (if magic then 24 else 0 :: u32)
         in if \<not> magic \<and>
               ucast (drop_bit 8 (bpf_ntohl (ld_u32 buf_kern 0))) >
                 syscall_len - of_nat HTTPV2_FRAME_PROTO_SZ
            then (MSG_UNKNOWN, c)
            else if \<not> magic \<and> signed_drop_bit 7 (buf_kern 5) \<noteq> 0 then (MSG_UNKNOWN, c)
            else
              (case http2_frame_loop (HTTPV2_LOOP_MAX env) env syscall_len buf_src count is_first
                      offset c
               of (msg_type, c') \<Rightarrow>
                 if msg_type = MSG_PRESTORE
                 then (msg_type, save_prev_data_from_kern buf_kern c' HTTPV2_FRAME_PROTO_SZ)
                 else (msg_type, c'))))"

definition infer_http2_message ::
    "bpf_env \<Rightarrow> buf \<Rightarrow> u64 \<Rightarrow> u64 \<Rightarrow> u64 \<Rightarrow> infer_st \<Rightarrow> message_type \<times> infer_st" where
  "infer_http2_message env buf_kern syscall_len buf_src count s =
     (case s of (c, m) \<Rightarrow>
      if \<not> protocol_port_check_1 env PROTO_HTTP2 c then (MSG_UNKNOWN, (c, m))
      else if skip_http2_kprobe env then
        (if ci_direction c = T_INGRESS \<and> tp_l4_protocol (ci_tuple c) = IPPROTO_TCP then
           (let tcp_seq_end = tcp_read_seq env (ci_fd c);
                tcp_seq_key = (ucast (drop_bit 32 (current_pid_tgid env)), ci_fd c, tcp_seq_end);
                tcp_seq = tcp_seq_end - ucast count
            in (MSG_UNKNOWN,
                (c, lru_update (http2_seq_full env) (http2_seq_evicted env) True m tcp_seq_key tcp_seq)))
         else (MSG_UNKNOWN, (c, m)))
      else if other_proto PROTO_HTTP2 c then (MSG_UNKNOWN, (c, m))
      else
        (let is_first = \<not> is_infer_socket_valid (ci_socket_info_ptr c)
         in case parse_http2_headers_frame env buf_kern syscall_len buf_src count c is_first of
              (ret, c') \<Rightarrow> (ret, (c', m))))"

section \<open>DNS\<close>

text \<open>The bytes of \<^verbatim>\<open>struct dns_header\<close> with the header starting at offset \<open>d\<close>: the bit fields
  are allocated from the low end of bytes 2 and 3.\<close>

definition dns_qr :: "buf \<Rightarrow> nat \<Rightarrow> bool" where "dns_qr b d = bit (b (d + 2)) 7"
definition dns_opcode :: "buf \<Rightarrow> nat \<Rightarrow> u8" where "dns_opcode b d = drop_bit 3 (b (d + 2)) AND 0xF"
definition dns_z :: "buf \<Rightarrow> nat \<Rightarrow> u8" where "dns_z b d = drop_bit 6 (b (d + 3)) AND 1"
definition dns_q_count :: "buf \<Rightarrow> nat \<Rightarrow> u16" where "dns_q_count b d = bpf_ntohs (ld_u16 b (d + 4))"
definition dns_ans_count :: "buf \<Rightarrow> nat \<Rightarrow> u16" where "dns_ans_count b d = bpf_ntohs (ld_u16 b (d + 6))"
definition dns_auth_count :: "buf \<Rightarrow> nat \<Rightarrow> u16" where "dns_auth_count b d = bpf_ntohs (ld_u16 b (d + 8))"
definition dns_add_count :: "buf \<Rightarrow> nat \<Rightarrow> u16" where "dns_add_count b d = bpf_ntohs (ld_u16 b (d + 10))"

text \<open>The loop that skips the query name, 31 bytes at a time; \<open>i\<close> iterations left.\<close>

fun dns_query_type :: "nat \<Rightarrow> bpf_env \<Rightarrow> u64 \<Rightarrow> u16" where
  "dns_query_type 0 env queries_start = 0"
| "dns_query_type (Suc i) env queries_start =
     (let tmp = sint (word_of_int (fst (probe_read_user_str env queries_start 32)) :: u16);
          tmp_buf = snd (probe_read_user_str env queries_start 32)
      in if tmp < 0 then 0
         else if tmp \<noteq> 32 then
           bpf_ntohs (ld_u16 (read_user env tmp_buf 2 (queries_start + word_of_int tmp)) 0)
         else dns_query_type i env (queries_start + word_of_int (tmp - 1)))"

definition infer_dns_message ::
    "bpf_env \<Rightarrow> buf \<Rightarrow> u64 \<Rightarrow> u64 \<Rightarrow> u32 \<Rightarrow> conn_info_s \<Rightarrow> message_type \<times> conn_info_s" where
  "infer_dns_message env b count ptr infer_len c =
     (if count < 12 \<or> count > 512 then (MSG_UNKNOWN, c)
      else if \<not> protocol_port_check_1 env PROTO_DNS c then (MSG_UNKNOWN, c)
      else if other_proto PROTO_DNS c then (MSG_UNKNOWN, c)
      else
        (let tcp = (tp_l4_protocol (ci_tuple c) = IPPROTO_TCP);
             len_prefix = (ucast (bpf_ntohs (ld_u16 b 0)) + 2 = count);
             dns = (if tcp \<and> (len_prefix \<or> ci_direction c = T_EGRESS) then 2 else 0 :: nat);
             update_tcp_dns_prev_count = (tcp \<and> \<not> len_prefix \<and> ci_direction c \<noteq> T_EGRESS);
             num_questions = dns_q_count b dns;
             num_rr = (ucast num_questions + ucast (dns_ans_count b dns) +
                       ucast (dns_auth_count b dns) + ucast (dns_add_count b dns) :: u32)
         in if dns_z b dns \<noteq> 0 then (MSG_UNKNOWN, c)
            else if dns_opcode b dns \<noteq> 0 then (MSG_UNKNOWN, c)
            else if num_questions = 0 \<or> num_questions > 10 then (MSG_UNKNOWN, c)
            else if num_rr > 25 then (MSG_UNKNOWN, c)
            else
              (let c1 = c\<lparr>ci_dns_q_type := dns_query_type 4 env (ptr + of_nat (dns + 12))\<rparr>;
                   c2 = (if update_tcp_dns_prev_count then c1\<lparr>ci_prev_count := 2\<rparr> else c1)
               in (if \<not> dns_qr b dns then MSG_REQUEST else MSG_RESPONSE, c2))))"

section \<open>TLS\<close>

record tls_handshake_t =
  hs_content_type :: u8
  hs_version :: u16
  hs_handshake_type :: u8

text \<open>The part of \<^verbatim>\<open>infer_tls_message\<close> after the label \<^verbatim>\<open>check\<close>.\<close>

definition tls_check ::
    "buf \<Rightarrow> u64 \<Rightarrow> tls_handshake_t \<Rightarrow> conn_info_s \<Rightarrow> message_type \<times> conn_info_s" where
  "tls_check b count h c =
     (if \<not> (hs_content_type h = 0x16 \<or> hs_content_type h = 0x14 \<or> hs_content_type h = 0x15)
      then (MSG_UNKNOWN, c)
      else if \<not> (0x301 \<le> hs_version h \<and> hs_version h \<le> 0x304) then (MSG_UNKNOWN, c)
      else if count = 5 then (MSG_PRESTORE, save_prev_data_from_kern b c 5)
      else if is_socket_info_valid (ci_socket_info_ptr c) \<and> hs_content_type h \<noteq> 0x15 \<and>
              si_tls_end (the (ci_socket_info_ptr c))
      then (MSG_UNKNOWN, c)
      else if hs_content_type h = 0x16 \<and>
              (hs_handshake_type h = 0xb \<or> hs_handshake_type h = 0xc \<or> hs_handshake_type h = 0xe)
      then (MSG_UNKNOWN, c)
      else
        (let c1 = (if hs_content_type h = 0x14 \<and> is_socket_info_valid (ci_socket_info_ptr c)
                   then upd_sock (\<lambda>s. s\<lparr>si_tls_end := True\<rparr>) c else c);
             c2 = (if hs_content_type h = 0x15 then c1\<lparr>ci_keep_trace := True\<rparr> else c1)
         in (if hs_handshake_type h = 0x1 \<or> hs_handshake_type h = 0x10
             then MSG_REQUEST else MSG_RESPONSE, c2)))"

definition infer_tls_message ::
    "buf \<Rightarrow> u64 \<Rightarrow> conn_info_s \<Rightarrow> message_type \<times> conn_info_s" where
  "infer_tls_message b count0 c =
     (let count = (if ci_prev_count c = 5 then count0 + 5 else count0)
      in if count = 5 then
           tls_check b count \<lparr>hs_content_type = b 0, hs_version = bpf_ntohs (ld_u16 b 1),
                              hs_handshake_type = 0\<rparr> c
         else if count < 6 then (MSG_UNKNOWN, c)
         else if ci_prev_count c = 5 then
           tls_check b count \<lparr>hs_content_type = ci_prev_buf c 0,
                              hs_version = bpf_ntohs (ld_u16 (ci_prev_buf c) 1),
                              hs_handshake_type = b 0\<rparr> c
         else
           tls_check b count \<lparr>hs_content_type = b 0, hs_version = bpf_ntohs (ld_u16 b 1),
                              hs_handshake_type = b 5\<rparr> c)"

section \<open>The contract\<close>

text \<open>The calls as the dispatchers make them: \<^verbatim>\<open>syscall_infer_addr\<close> and \<^verbatim>\<open>syscall_infer_len\<close> are
  the fields of the connection state of the same name.\<close>

definition dns_call :: "bpf_env \<Rightarrow> buf \<Rightarrow> u64 \<Rightarrow> conn_info_s \<Rightarrow> message_type \<times> conn_info_s" where
  "dns_call env b n c =
     infer_dns_message env b n (ci_syscall_infer_addr c) (ci_syscall_infer_len c) c"

definition http2_call :: classifier where
  "http2_call env b n s =
     infer_http2_message env b n (ci_syscall_infer_addr (fst s))
       (ucast (ci_syscall_infer_len (fst s))) s"

lemma is_http_response_local:
  "agree_on INFER_DATA_SZ b b' \<Longrightarrow> is_http_response b = is_http_response b'"
  by (simp add: is_http_response_def agree_bytes)

lemma is_http_request_local:
  "agree_on INFER_DATA_SZ b b' \<Longrightarrow> is_http_request env b n c = is_http_request env b' n c"
  by (simp add: is_http_request_def agree_bytes del: if_split)

lemma is_http_request_frame [simp]:
  "infer_core (snd (is_http_request env b n c)) = infer_core c"
  "cache_ok (snd (is_http_request env b n c)) = cache_ok c"
  by (simp_all add: is_http_request_def if_push del: if_split cong: if_cong)

interpretation http1: conn_classifier PROTO_HTTP1 infer_http_message
proof unfold_locales
  fix env b b' n c
  show "agree_on INFER_DATA_SZ b b' \<Longrightarrow> infer_http_message env b n c = infer_http_message env b' n c"
    using is_http_response_local [of b b'] is_http_request_local [of b b']
    by (simp add: infer_http_message_def)
qed (simp_all add: infer_http_message_def split_beta)

lemma http2_frame_loop_core [simp]:
  "infer_core (snd (http2_frame_loop i env sl src n first off c)) = infer_core c"
  by (induction i arbitrary: off) (simp_all add: Let_def if_push cong: if_cong del: if_split)

lemma http2_frame_loop_cache [simp]:
  "cache_ok (snd (http2_frame_loop i env sl src n first off c)) = cache_ok c"
  by (induction i arbitrary: off) (simp_all add: Let_def if_push cong: if_cong del: if_split)

lemma parse_http2_core [simp]:
  "infer_core (snd (parse_http2_headers_frame env b sl src n c first)) = infer_core c"
  by (simp add: parse_http2_headers_frame_def Let_def split_beta)

lemma parse_http2_cache [simp]:
  "cache_ok c \<Longrightarrow> cache_ok (snd (parse_http2_headers_frame env b sl src n c first))"
  by (simp add: parse_http2_headers_frame_def Let_def split_beta HTTPV2_FRAME_PROTO_SZ_def
      EBPF_CACHE_SIZE_def)

lemma parse_http2_local:
  "agree_on INFER_DATA_SZ b b' \<Longrightarrow>
   parse_http2_headers_frame env b sl src n c first = parse_http2_headers_frame env b' sl src n c first"
  by (simp add: parse_http2_headers_frame_def Let_def split_beta agree_bytes agree_loads(2)
      save_prev_local HTTPV2_FRAME_PROTO_SZ_def)

interpretation http2: l7_classifier PROTO_HTTP2 http2_call
proof unfold_locales
  fix env b b' n and s :: infer_st
  show "infer_core (fst (snd (http2_call env b n s))) = infer_core (fst s)"
    by (simp add: http2_call_def infer_http2_message_def split_beta Let_def)
  show "cache_ok (fst s) \<Longrightarrow> cache_ok (fst (snd (http2_call env b n s)))"
    by (simp add: http2_call_def infer_http2_message_def split_beta Let_def)
  show "agree_on INFER_DATA_SZ b b' \<Longrightarrow> http2_call env b n s = http2_call env b' n s"
    using parse_http2_local [of b b'] by (simp add: http2_call_def infer_http2_message_def split_beta)
qed (simp_all add: http2_call_def infer_http2_message_def split_beta Let_def)

lemma dns_fields_local:
  assumes "agree_on INFER_DATA_SZ b b'" "d \<le> 2"
  shows "dns_qr b d = dns_qr b' d" "dns_opcode b d = dns_opcode b' d" "dns_z b d = dns_z b' d"
    "dns_q_count b d = dns_q_count b' d" "dns_ans_count b d = dns_ans_count b' d"
    "dns_auth_count b d = dns_auth_count b' d" "dns_add_count b d = dns_add_count b' d"
  using assms agree_onD [OF assms(1), of "d + 2"] agree_onD [OF assms(1), of "d + 3"]
  by (simp_all add: dns_qr_def dns_opcode_def dns_z_def dns_q_count_def dns_ans_count_def
      dns_auth_count_def dns_add_count_def agree_loads(1) INFER_DATA_SZ_def)

lemma dns_local:
  assumes "agree_on INFER_DATA_SZ b b'"
  shows "infer_dns_message env b n p l c = infer_dns_message env b' n p l c"
proof -
  have "(if P then 2 else 0) \<le> (2::nat)" for P by simp
  note fields = dns_fields_local [OF assms this]
  show ?thesis
    by (simp add: infer_dns_message_def Let_def fields agree_loads(1) [OF assms] del: if_split cong: if_cong)
qed

interpretation dns: conn_classifier PROTO_DNS dns_call
proof unfold_locales
  fix env b b' n c
  show "infer_core (snd (dns_call env b n c)) = infer_core c"
    by (simp add: dns_call_def infer_dns_message_def Let_def if_push del: if_split cong: if_cong)
  show "cache_ok c \<Longrightarrow> cache_ok (snd (dns_call env b n c))"
    by (simp add: dns_call_def infer_dns_message_def Let_def cache_ok_prev_count EBPF_CACHE_SIZE_def if_push
        del: if_split cong: if_cong)
  show "agree_on INFER_DATA_SZ b b' \<Longrightarrow> dns_call env b n c = dns_call env b' n c"
    by (simp add: dns_call_def dns_local)
qed (simp_all add: dns_call_def infer_dns_message_def)

text \<open>TLS is not recognised on the strength of the socket's protocol; the remaining laws hold.\<close>

lemma infer_tls_core [simp]: "infer_core (snd (infer_tls_message b n c)) = infer_core c"
  by (simp add: infer_tls_message_def tls_check_def Let_def if_push del: if_split cong: if_cong)

lemma infer_tls_cache [simp]: "cache_ok c \<Longrightarrow> cache_ok (snd (infer_tls_message b n c))"
  by (simp add: infer_tls_message_def tls_check_def Let_def EBPF_CACHE_SIZE_def if_push
      del: if_split cong: if_cong)

lemma infer_tls_local:
  "agree_on INFER_DATA_SZ b b' \<Longrightarrow> infer_tls_message b n c = infer_tls_message b' n c"
  by (simp add: infer_tls_message_def tls_check_def agree_bytes agree_loads(1) save_prev_local
      del: if_split cong: if_cong)

section \<open>Properties\<close>


definition http_methods :: "string list" where
  "http_methods = [''DELETE '', ''GET '', ''HEAD '', ''OPTIONS '', ''PATCH '', ''POST '', ''PUT '']"

text \<open>C26: HTTP/1 requests. The byte switch accepts exactly the buffers that start with one of the seven
  method names and a blank, \<^verbatim>\<open>OPTIONS\<close> only if the length is at least eight.\<close>

theorem is_http_request_iff:
  "fst (is_http_request env b n c) \<longleftrightarrow>
     (\<exists>m\<in>set http_methods. str_at b 0 m \<and> (m = ''OPTIONS '' \<longrightarrow> 8 \<le> sint n))"
proof -
  consider "b 0 = 68" | "b 0 = 71" | "b 0 = 72" | "b 0 = 79" | "b 0 = 80" "b 1 = 65" |
    "b 0 = 80" "b 1 = 79" | "b 0 = 80" "b 1 = 85" | "b 0 = 80" "b 1 \<notin> {65, 79, 85}" |
    "b 0 \<notin> {68, 71, 72, 79, 80}" by blast
  then show ?thesis
    by cases (simp_all add: is_http_request_def http_methods_def byte_def if_distrib [of fst] not_less not_le
        numeral_2_eq_2 [symmetric], blast)
qed

theorem is_http_request_iff_witness:
  "fst (is_http_request (example_env True []) (buf_of (map byte ''GET / HTTP/1.1'')) 14
     (example_conn T_EGRESS None))"
  unfolding is_http_request_iff by (rule bexI [of _ "''GET ''"]) code_simp+

lemma find_idx_spec:
  assumes "unat offset \<le> 15"
  shows "find_idx_from_block_fragment b offset max_idx =
    (let cand = map (\<lambda>k. b (unat offset + k) AND 0x7f) [0..<6]
     in case find (\<lambda>x. 1 \<le> x \<and> x \<le> max_idx) cand of Some x \<Rightarrow> x | None \<Rightarrow> last cand)"
proof -
  have u: "unat (offset + of_nat k) = unat offset + k" if "k \<le> 5" for k
  proof -
    have "take_bit 8 k = k" using that by (simp add: take_bit_nat_eq_self_iff)
    then show ?thesis using assms that by (simp add: unat_word_ariths unsigned_of_nat)
  qed
  have idx: "unat (offset + 1) = unat offset + 1" "unat (offset + 2) = unat offset + 2"
    "unat (offset + 3) = unat offset + 3" "unat (offset + 4) = unat offset + 4"
    "unat (offset + 5) = unat offset + 5"
    using u [of 1] u [of 2] u [of 3] u [of 4] u [of 5] by simp_all
  have step: "try_find_static_table_idx b max_idx (x, off) =
      (if 1 \<le> x \<and> x \<le> max_idx then (x, off) else (b (unat (off + 1)) AND 0x7f, off + 1))" for x off
  proof -
    have "1 \<le> x \<longleftrightarrow> x \<noteq> 0" by (simp add: word_le_nat_alt word_unat_eq_iff Suc_le_eq)
    then show ?thesis by (auto simp: try_find_static_table_idx_def not_le)
  qed
  have l: "[0..<6] = [0, 1, 2, 3, 4, 5::nat]" by (simp add: upt_rec)
  show ?thesis
    unfolding find_idx_from_block_fragment_def step l
    by (simp add: idx add.assoc step del: One_nat_def)
qed

text \<open>C27: HTTP/2 header blocks. The unrolled search returns the first of six consecutive bytes, read
  modulo 128, that is an index of the static table, and the sixth byte if there is none.\<close>

theorem find_idx_first_static:
  assumes "unat offset \<le> 15"
  shows "find_idx_from_block_fragment b offset max_idx =
    (let cand = map (\<lambda>k. b (unat offset + k) AND 0x7f) [0..<6]
     in case find (\<lambda>x. 1 \<le> x \<and> x \<le> max_idx) cand of Some x \<Rightarrow> x | None \<Rightarrow> last cand)"
  using assms by (rule find_idx_spec)

theorem find_idx_first_static_witness:
  "find_idx_from_block_fragment (buf_of [0xdd, 0xda, 0x83, 0x86]) 0 61 = 3"
  using find_idx_first_static [of 0 "buf_of [0xdd, 0xda, 0x83, 0x86]" 61] by code_simp

lemma block_fragment_offset_le: "unat (get_block_fragment_offset 9 p q) \<le> 15"
  by (simp add: get_block_fragment_offset_def Let_def)

text \<open>C28: HTTP/2 frame buffer. The index search behind the header of a HEADERS frame reads inside the
  21 bytes that were copied, whatever the flags are.\<close>

theorem find_idx_within_frame:
  assumes "agree_on HTTPV2_FRAME_READ_SZ b b'"
  shows "find_idx_from_block_fragment b (get_block_fragment_offset 9 p q) m =
         find_idx_from_block_fragment b' (get_block_fragment_offset 9 p q) m"
proof -
  let ?o = "get_block_fragment_offset 9 p q"
  have "b (unat ?o + k) = b' (unat ?o + k)" if "k < 6" for k
    using block_fragment_offset_le [of p q] that
    by (intro agree_onD [OF assms]) (simp add: HTTPV2_FRAME_READ_SZ_def)
  then have "map (\<lambda>k. b (unat ?o + k) AND 0x7f) [0..<6] = map (\<lambda>k. b' (unat ?o + k) AND 0x7f) [0..<6]"
    by simp
  then show ?thesis
    by (simp only: find_idx_spec [OF block_fragment_offset_le])
qed

theorem find_idx_within_frame_witness:
  "find_idx_from_block_fragment (buf_of [1]) (get_block_fragment_offset 9 0 0) 61 =
   find_idx_from_block_fragment ((buf_of [1])(21 := 7)) (get_block_fragment_offset 9 0 0) 61"
  by (rule find_idx_within_frame) (simp add: agree_on_def HTTPV2_FRAME_READ_SZ_def)



lemma http2_loop_role:
  assumes "http2_frame_loop i env sl src count True off c = (t, c')"
    and "t = MSG_REQUEST \<or> t = MSG_RESPONSE"
  shows "ci_role c' = (if (t = MSG_REQUEST) = (ci_direction c = T_INGRESS) then ROLE_SERVER else ROLE_CLIENT)"
  using assms(1)
proof (induction i arbitrary: off)
  case 0
  then show ?case using assms(2) by simp
next
  case (Suc i)
  have d: "ci_direction c \<noteq> T_EGRESS \<longleftrightarrow> ci_direction c = T_INGRESS"
    by (cases "ci_direction c") simp_all
  show ?case
    using Suc.prems Suc.IH assms(2) d by (auto simp: Let_def split: if_splits)
qed

text \<open>C30: HTTP/2 roles. When a message on a socket whose protocol is not known yet is taken for an HTTP/2
  request or response, a request seen on the way in (and a response seen on the way out) makes this end the server,
  otherwise the client. The one exception is a message whose nine byte frame header was kept from the previous read: it is
  always taken for a request, and the connection, its role included, is left as it was.\<close>

theorem http2_first_role:
  assumes "infer_http2_message env b sl src count (c, m) = (t, (c', m'))"
    and "t = MSG_REQUEST \<or> t = MSG_RESPONSE" "\<not> is_infer_socket_valid (ci_socket_info_ptr c)"
  shows "if ci_prev_count c = 9 then t = MSG_REQUEST \<and> c' = c
    else ci_role c' = (if (t = MSG_REQUEST) = (ci_direction c = T_INGRESS) then ROLE_SERVER else ROLE_CLIENT)"
proof -
  have p: "parse_http2_headers_frame env b sl src count c True = (t, c')"
    using assms by (auto simp: infer_http2_message_def Let_def split: if_splits prod.splits)
  show ?thesis
  proof (cases "ci_prev_count c = 9")
    case True
    then show ?thesis using p by (simp add: parse_http2_headers_frame_def HTTPV2_FRAME_PROTO_SZ_def)
  next
    case False
    then obtain i off where "http2_frame_loop i env sl src count True off c = (t, c')"
      using p assms(2)
      by (auto simp: parse_http2_headers_frame_def HTTPV2_FRAME_PROTO_SZ_def Let_def split: if_splits prod.splits)
    from http2_loop_role [OF this assms(2)] False show ?thesis by simp
  qed
qed

definition example_headers_frame :: "u8 list" where
  "example_headers_frame = [0, 0, 7, 1, 0, 0, 0, 0, 1, 0x82]"

theorem http2_first_role_witness:
  "ci_role (fst (snd (infer_http2_message (example_env True example_headers_frame) (buf_of example_headers_frame) 16 0 16
     (example_conn T_INGRESS None, \<lambda>_. None)))) = ROLE_SERVER"
proof -
  let ?r = "infer_http2_message (example_env True example_headers_frame) (buf_of example_headers_frame) 16 0 16
     (example_conn T_INGRESS None, \<lambda>_. None)"
  obtain c' m' where r: "?r = (fst ?r, (c', m'))" by (metis prod.collapse)
  have t: "fst ?r = MSG_REQUEST" by code_simp
  then show ?thesis
    using http2_first_role [OF r] by (simp add: example_simps is_infer_socket_valid_def snd_conv [of "fst ?r" "(c', m')", folded r])
qed

text \<open>The content type of the record at hand and the number of its bytes read so far. A header of five bytes may have
  been read before and be kept with the connection.\<close>

definition tls_record_type :: "buf \<Rightarrow> conn_info_s \<Rightarrow> u8" where
  "tls_record_type b c = (if ci_prev_count c = 5 then ci_prev_buf c 0 else b 0)"

definition tls_record_bytes :: "u64 \<Rightarrow> conn_info_s \<Rightarrow> u64" where
  "tls_record_bytes n c = (if ci_prev_count c = 5 then n + 5 else n)"



text \<open>Where the DNS header starts: behind a two byte length over TCP, if the length is that of the call or the message is
  on its way out; at the start otherwise.\<close>

definition dns_offset :: "buf \<Rightarrow> u64 \<Rightarrow> conn_info_s \<Rightarrow> nat" where
  "dns_offset b count c =
     (if tp_l4_protocol (ci_tuple c) = IPPROTO_TCP \<and>
         (unat (bpf_ntohs (ld_u16 b 0)) + 2 = unat count \<or> ci_direction c = T_EGRESS) then 2 else 0)"

lemma dns_count_sum:
  "unat (ucast w + ucast x + ucast y + ucast z :: u32) = unat w + unat x + unat y + unat z" for w x y z :: u16
proof -
  have "unat w + unat x + unat y + unat z < 4294967296"
    using unat_u16_less [of w] unat_u16_less [of x] unat_u16_less [of y] unat_u16_less [of z] by linarith
  then show ?thesis by (simp add: unat_word_ariths mod_add_left_eq)
qed

lemma dns_prefix: "(ucast w + 2 = n) = (unat w + 2 = unat n)" for w :: u16 and n :: u64
proof -
  have l: "unat w < 18446744073709551616" "unat w + 2 < 18446744073709551616" using unat_u16_less [of w] by linarith+
  have "unat (ucast w :: u64) = unat w" using l(1) by (simp add: unsigned_ucast_eq take_bit_nat_eq_self_iff)
  with l(2) have "unat (ucast w + 2 :: u64) = unat w + 2" by (simp add: unat_word_ariths)
  then show ?thesis by (metis word_unat_eq_iff)
qed

text \<open>C33: DNS. On a connection that may be DNS, a message is taken for DNS if and only if its length is between 12 and 512
  and its header is that of a standard query, with one to ten questions and at most 25 records in all, counted
  without wrap-around. The header is the one two bytes into the data exactly when the connection is TCP and either
  the first two bytes give the length of the rest or the message is on its way out; otherwise it is the one at the start.\<close>

theorem dns_accepts_only_plausible:
  assumes "protocol_port_check_1 env PROTO_DNS c" "\<not> other_proto PROTO_DNS c" "d = dns_offset b count c"
  shows "fst (infer_dns_message env b count ptr l c) \<noteq> MSG_UNKNOWN \<longleftrightarrow>
    12 \<le> unat count \<and> unat count \<le> 512 \<and> dns_opcode b d = 0 \<and> dns_z b d = 0 \<and>
    1 \<le> unat (dns_q_count b d) \<and> unat (dns_q_count b d) \<le> 10 \<and>
    unat (dns_q_count b d) + unat (dns_ans_count b d) + unat (dns_auth_count b d) + unat (dns_add_count b d) \<le> 25"
proof -
  have d: "(if tp_l4_protocol (ci_tuple c) = IPPROTO_TCP \<and>
      (ucast (bpf_ntohs (ld_u16 b 0)) + 2 = count \<or> ci_direction c = T_EGRESS) then 2 else 0) = d"
    by (simp add: assms(3) dns_offset_def dns_prefix)
  have q: "x = 0 \<longleftrightarrow> \<not> 1 \<le> unat x" for x :: u16 by (simp add: word_unat_eq_iff Suc_le_eq)
  show ?thesis
    using assms(1,2)
    by (simp add: infer_dns_message_def Let_def d q word_less_nat_alt word_le_nat_alt dns_count_sum not_less not_le)
qed

theorem dns_accepts_only_plausible_witness:
  "dns_offset (buf_of [0, 12, 0x12, 0x34, 1, 0, 0, 1, 0, 0, 0, 0, 0, 0]) 14 (example_conn T_INGRESS None) = 2 \<and>
   fst (infer_dns_message (example_env True []) (buf_of [0, 12, 0x12, 0x34, 1, 0, 0, 1, 0, 0, 0, 0, 0, 0]) 14 0 14
     (example_conn T_INGRESS None)) \<noteq> MSG_UNKNOWN"
proof -
  let ?b = "buf_of [0, 12, 0x12, 0x34, 1, 0, 0, 1, 0, 0, 0, 0, 0, 0]"
  have g: "protocol_port_check_1 (example_env True []) PROTO_DNS (example_conn T_INGRESS None)"
    "\<not> other_proto PROTO_DNS (example_conn T_INGRESS None)" by code_simp+
  have d: "dns_offset ?b 14 (example_conn T_INGRESS None) = 2" by code_simp
  have "12 \<le> unat (14 :: u64) \<and> unat (14 :: u64) \<le> 512 \<and> dns_opcode ?b 2 = 0 \<and> dns_z ?b 2 = 0 \<and>
      1 \<le> unat (dns_q_count ?b 2) \<and> unat (dns_q_count ?b 2) \<le> 10 \<and>
      unat (dns_q_count ?b 2) + unat (dns_ans_count ?b 2) + unat (dns_auth_count ?b 2) + unat (dns_add_count ?b 2) \<le> 25"
    by code_simp
  then show ?thesis using dns_accepts_only_plausible [OF g d [symmetric]] d by blast
qed

end
