(* ===== verification/Infer_Sql.thy ===== *)
theory Infer_Sql
  imports Infer_Contract
begin

text \<open>
  The classifiers of \<^verbatim>\<open>protocol_inference.h\<close> for data stores: MySQL, PostgreSQL, Oracle TNS,
  ISO 8583, Memcached, Redis and MongoDB. Comparisons of a \<^verbatim>\<open>char\<close> by order are signed
  (\<open>sint\<close>), comparisons for equality with a constant are on the byte.
\<close>

section \<open>MySQL\<close>

definition kComQuery :: u8 where "kComQuery = 0x03"
definition kComConnect :: u8 where "kComConnect = 0x0b"
definition kComStmtPrepare :: u8 where "kComStmtPrepare = 0x16"
definition kComStmtExecute :: u8 where "kComStmtExecute = 0x17"
definition kComStmtClose :: u8 where "kComStmtClose = 0x19"
definition kComStmtQuit :: u8 where "kComStmtQuit = 0x01"

definition comm_mysqld :: buf where "comm_mysqld = buf_of (map byte ''mysqld'')"

text \<open>The part after the label \<^verbatim>\<open>out\<close>.\<close>

definition mysql_out :: "bool \<Rightarrow> u8 \<Rightarrow> conn_info_s \<Rightarrow> message_type \<times> conn_info_s" where
  "mysql_out is_mysqld com c =
     (let c' = (if com = kComStmtClose \<or> com = kComStmtQuit then c\<lparr>ci_keep_trace := True\<rparr> else c)
      in if is_mysqld
         then (if ci_direction c' = T_INGRESS then MSG_REQUEST else MSG_RESPONSE, c')
         else (if ci_direction c' = T_INGRESS then MSG_RESPONSE else MSG_REQUEST, c'))"

text \<open>The decision on the packet once length, sequence number and command have been read.\<close>

definition mysql_verdict ::
    "u64 \<Rightarrow> u32 \<Rightarrow> u8 \<Rightarrow> u8 \<Rightarrow> u8 \<Rightarrow> u8 \<Rightarrow> bool \<Rightarrow> conn_info_s \<Rightarrow> message_type \<times> conn_info_s" where
  "mysql_verdict count len seq com point_1 point_2 is_mysqld c =
     (if count < 5 \<or> len = 0 then (MSG_UNKNOWN, c)
      else if is_socket_info_valid (ci_socket_info_ptr c) then
        (if seq \<le> 1 \<or> (seq = 2 \<and> (com = 0x0 \<or> com = 0xFF \<or> com = 0xFE))
         then mysql_out is_mysqld com c else (MSG_UNKNOWN, c))
      else if is_mysqld then (if ci_direction c = T_INGRESS then MSG_REQUEST else MSG_RESPONSE, c)
      else if count \<noteq> ucast (len + 4) then (MSG_UNKNOWN, c)
      else if seq \<noteq> 0 then (MSG_UNKNOWN, c)
      else if len > 10000 then (MSG_UNKNOWN, c)
      else if com = 0x0A \<and> point_1 = 0x2e \<and> point_2 = 0x2e then (MSG_REQUEST, c)
      else if com \<noteq> kComConnect \<and> com \<noteq> kComQuery \<and> com \<noteq> kComStmtPrepare \<and>
              com \<noteq> kComStmtExecute \<and> com \<noteq> kComStmtClose \<and> com \<noteq> kComStmtQuit
      then (MSG_UNKNOWN, c)
      else mysql_out is_mysqld com c)"

definition infer_mysql_message ::
    "bpf_env \<Rightarrow> buf \<Rightarrow> u64 \<Rightarrow> conn_info_s \<Rightarrow> message_type \<times> conn_info_s" where
  "infer_mysql_message env b count c =
     (if \<not> protocol_port_check_1 env PROTO_MYSQL c then (MSG_UNKNOWN, c)
      else if count = 4 then (MSG_PRESTORE, save_prev_data_from_kern b c 4)
      else if other_proto PROTO_MYSQL c then (MSG_UNKNOWN, c)
      else if ci_sk c = 0 then (MSG_UNKNOWN, c)
      else
        (let len = (if ci_prev_count c = 4 then ld_u32 (ci_prev_buf c) 0 AND 0x00ffffff
                    else ld_u32 b 0 AND 0x00ffffff);
             is_mysqld = is_current_comm env comm_mysqld
         in if ci_prev_count c = 4 \<and> ucast len = count
            then mysql_verdict (count + 4) len (ci_prev_buf c 3) (b 0) (b 2) (b 4) is_mysqld c
            else mysql_verdict count len (b 3) (b 4) (b 6) (b 8) is_mysqld c))"

section \<open>PostgreSQL\<close>

definition infer_pgsql_startup_message :: "buf \<Rightarrow> u64 \<Rightarrow> bool" where
  "infer_pgsql_startup_message b count =
     (if count < 12 then False
      else
        (let len = bpf_ntohl (ld_u32 b 0)
         in if len < 12 \<or> len > 10240 then False
            else if \<not> (b 4 = 0 \<and> b 5 = 3 \<and> b 6 = 0 \<and> b 7 = 0) then False
            else if sint (b 8) < 65 \<or> sint (b 9) < 65 \<or> sint (b 10) < 65 \<or> sint (b 11) < 65
            then False else True))"

definition infer_pgsql_query_message :: "bpf_env \<Rightarrow> buf \<Rightarrow> u64 \<Rightarrow> u64 \<Rightarrow> message_type" where
  "infer_pgsql_query_message env b s_buf count =
     (if count < 5 then MSG_UNKNOWN
      else
        (let tag = b 0
         in if sint tag < sint (byte CHR ''B'') \<or> sint tag > sint (byte CHR ''S'') then MSG_UNKNOWN
            else
              (let len = bpf_ntohl (ld_u32 (read_user env (\<lambda>_. 0) 4 (s_buf + 1)) 0)
               in if len < 8 \<or> len > 30000 then MSG_UNKNOWN
                  else
                    (let last_char = read_user env (\<lambda>_. byte CHR '' '') 1 (s_buf + ucast len) 0
                     in if len + 1 \<le> (ucast count :: u32) \<and> last_char = 0 \<and>
                           (tag = byte CHR ''Q'' \<or> tag = byte CHR ''C'')
                        then MSG_REQUEST
                        else
                          (let pos = ucast (len + 1) :: u64
                           in if pos + 5 > count then MSG_UNKNOWN
                              else
                                (let tag' = read_user env (\<lambda>_. tag) 1 (s_buf + pos) 0
                                 in if tag' = byte CHR ''B'' \<or> tag' = byte CHR ''E'' \<or>
                                       tag' = byte CHR ''S''
                                    then MSG_REQUEST else MSG_UNKNOWN))))))"

definition pgsql_request_tags :: "u8 list" where
  "pgsql_request_tags = map byte ''QPBFXfCESDHdc''"

definition infer_postgre_message ::
    "bpf_env \<Rightarrow> u64 \<Rightarrow> u64 \<Rightarrow> conn_info_s \<Rightarrow> message_type" where
  "infer_postgre_message env buf_src count c =
     (if \<not> protocol_port_check_2 env PROTO_POSTGRESQL c then MSG_UNKNOWN
      else if tp_l4_protocol (ci_tuple c) \<noteq> IPPROTO_TCP then MSG_UNKNOWN
      else
        (let infer_buf = read_user env (\<lambda>_. 0) 32 buf_src
         in if is_infer_socket_valid (ci_socket_info_ptr c) then
              (if sock_l7_proto c \<noteq> PROTO_POSTGRESQL then MSG_UNKNOWN
               else if infer_buf 0 \<in> set pgsql_request_tags then MSG_REQUEST
               else MSG_RESPONSE)
            else if infer_pgsql_startup_message infer_buf count then MSG_REQUEST
            else infer_pgsql_query_message env infer_buf buf_src count))"

section \<open>Oracle TNS\<close>

definition TNS_TYPE_CONNECT :: u8 where "TNS_TYPE_CONNECT = 0x01"
definition TNS_TYPE_ACCEPT :: u8 where "TNS_TYPE_ACCEPT = 0x02"
definition TNS_TYPE_REFUSE :: u8 where "TNS_TYPE_REFUSE = 0x04"
definition TNS_TYPE_REDIRECT :: u8 where "TNS_TYPE_REDIRECT = 0x05"
definition TNS_TYPE_DATA :: u8 where "TNS_TYPE_DATA = 0x06"
definition TNS_TYPE_ABORT :: u8 where "TNS_TYPE_ABORT = 0x09"
definition TNS_TYPE_MARKER :: u8 where "TNS_TYPE_MARKER = 0x0c"
definition TNS_TYPE_ATTENTION :: u8 where "TNS_TYPE_ATTENTION = 0x0d"
definition TNS_TYPE_CONTROL :: u8 where "TNS_TYPE_CONTROL = 0x0e"
definition TNS_TYPE_DD :: u8 where "TNS_TYPE_DD = 0x0f"

definition is_tns_packet_type :: "u8 \<Rightarrow> bool" where
  "is_tns_packet_type ty =
     (if ty = 0x08 \<or> ty = 0x0a then False
      else if sint ty \<ge> sint TNS_TYPE_CONNECT \<and> sint ty \<le> sint TNS_TYPE_DD then True
      else False)"

text \<open>The switch on the packet type; \<open>None\<close> is a \<^verbatim>\<open>break\<close>.\<close>

definition tns_switch :: "u8 \<Rightarrow> u32 \<Rightarrow> message_type option" where
  "tns_switch pkt_type len =
     (if pkt_type = TNS_TYPE_CONNECT then Some (if len < 26 then MSG_UNKNOWN else MSG_REQUEST)
      else if pkt_type = TNS_TYPE_ACCEPT then Some (if len < 16 then MSG_UNKNOWN else MSG_RESPONSE)
      else if pkt_type = TNS_TYPE_REFUSE then Some (if len < 4 then MSG_UNKNOWN else MSG_RESPONSE)
      else if pkt_type = TNS_TYPE_REDIRECT then Some (if len < 2 then MSG_UNKNOWN else MSG_RESPONSE)
      else if pkt_type = TNS_TYPE_ABORT then (if len < 2 then Some MSG_UNKNOWN else None)
      else if pkt_type = TNS_TYPE_MARKER then (if len < 3 then Some MSG_UNKNOWN else None)
      else if pkt_type = TNS_TYPE_ATTENTION then Some (if len < 3 then MSG_UNKNOWN else MSG_REQUEST)
      else if pkt_type = TNS_TYPE_CONTROL then Some (if len < 2 then MSG_UNKNOWN else MSG_REQUEST)
      else None)"

definition infer_oracle_tns_message ::
    "bpf_env \<Rightarrow> buf \<Rightarrow> u64 \<Rightarrow> conn_info_s \<Rightarrow> message_type" where
  "infer_oracle_tns_message env b count c =
     (if \<not> protocol_port_check_2 env PROTO_ORACLE c then MSG_UNKNOWN
      else if tp_l4_protocol (ci_tuple c) \<noteq> IPPROTO_TCP \<or> count < 12 then MSG_UNKNOWN
      else if other_proto PROTO_ORACLE c then MSG_UNKNOWN
      else if \<not> is_tns_packet_type (b 4) then MSG_UNKNOWN
      else
        (let checksum = bpf_ntohs (ld_u16 b 2);
             len = (if checksum = 0 \<or> checksum = 4 then ucast (bpf_ntohs (ld_u16 b 0))
                    else bpf_ntohl (ld_u32 b 0));
             next = probe_read_user env (ci_syscall_infer_addr c + ucast len + 4) 1
         in if count > ucast (len + 4) \<and> fst next = 0 \<and> \<not> is_tns_packet_type (snd next 0)
            then MSG_UNKNOWN
            else case tns_switch (b 4) len of
              Some t \<Rightarrow> t
            | None \<Rightarrow>
                if b 4 \<noteq> TNS_TYPE_DATA then MSG_REQUEST
                else if b 10 = 0x04 \<or> b 10 = 0x08 \<or> b 10 = 0x10 then MSG_RESPONSE
                else if (b 10 = 0x11 \<and> b 11 = 0x69) \<or> (b 10 = 0x11 \<and> b 11 = 0x6e) \<or>
                        (b 10 = 0x3 \<and> b 11 = 0x5e)
                then MSG_REQUEST else MSG_REQUEST))"

section \<open>ISO 8583\<close>

definition infer_iso8583_message ::
    "bpf_env \<Rightarrow> buf \<Rightarrow> u64 \<Rightarrow> u64 \<Rightarrow> u32 \<Rightarrow> conn_info_s \<Rightarrow> message_type" where
  "infer_iso8583_message env b count ptr infer_len c =
     (if \<not> protocol_port_check_2 env PROTO_ISO8583 c then MSG_UNKNOWN
      else if tp_l4_protocol (ci_tuple c) \<noteq> IPPROTO_TCP \<or> count < 58 \<or> infer_len < 53
      then MSG_UNKNOWN
      else if other_proto PROTO_ISO8583 c then MSG_UNKNOWN
      else if \<not> (b 0 = 0x2e \<and> (b 1 = 0x02 \<or> b 1 = 0x82)) \<and>
              \<not> (b 4 = 0x2e \<and> (b 5 = 0x02 \<or> b 5 = 0x82))
      then MSG_UNKNOWN
      else
        (let buffer = (if b 0 = 0x2e \<and> (b 1 = 0x02 \<or> b 1 = 0x82)
                       then read_user env (\<lambda>_. 0) 8 (ptr + 41)
                       else read_user env (\<lambda>_. 0) 8 (ptr + 45))
         in if buffer 0 \<noteq> byte CHR ''0'' \<or> buffer 1 \<noteq> byte CHR ''0'' \<or> buffer 2 \<noteq> byte CHR ''0'' \<or>
               buffer 3 \<noteq> byte CHR ''0'' \<or> buffer 4 \<noteq> byte CHR ''0''
            then MSG_UNKNOWN
            else if c_rem (sint (buffer 7)) 2 = 1 then MSG_RESPONSE
            else MSG_REQUEST))"

section \<open>Memcached\<close>

text \<open>The macros \<^verbatim>\<open>CSTR_MASK\<close>, \<^verbatim>\<open>CSTR_AS_U64\<close> and \<^verbatim>\<open>CSTR_EQ\<close>: up to eight characters compared as
  one masked 64-bit word.\<close>

definition CSTR_MASK :: "string \<Rightarrow> u64" where
  "CSTR_MASK str = drop_bit (64 - length str * 8) (NOT 0)"

definition CSTR_AS_U64 :: "string \<Rightarrow> u64" where
  "CSTR_AS_U64 str = ld_u64 (buf_of (map byte str)) 0 AND CSTR_MASK str"

definition CSTR_EQ :: "u64 \<Rightarrow> string \<Rightarrow> bool" where
  "CSTR_EQ key str \<longleftrightarrow> key AND CSTR_MASK str = CSTR_AS_U64 str"

definition crlf :: string where "crlf = [CHR 0x0D, CHR 0x0A]"

definition memcached_requests :: "string list" where
  "memcached_requests =
     [''set '', ''add '', ''replace '', ''append '', ''prepend '', ''cas '', ''get '', ''gets '',
      ''gat '', ''gats '', ''delete '', ''incr '', ''decr '', ''touch '']"

text \<open>The replies: what the first eight bytes and what the next eight are compared with.\<close>

definition memcached_responses :: "(string \<times> string) list" where
  "memcached_responses =
     [(''ERROR'' @ crlf, []), (''STORED'' @ crlf, []), (''NOT_STOR'', ''ED'' @ crlf),
      (''EXISTS'' @ crlf, []), (''NOT_FOUN'', ''D'' @ crlf), (''END'' @ crlf, []),
      (''DELETED'' @ [CHR 0x0D], [CHR 0x0A]), (''TOUCHED'' @ [CHR 0x0D], [CHR 0x0A]),
      (''ERROR '', []), (''CLIENT_E'', ''RROR ''), (''SERVER_E'', ''RROR ''), (''VALUE '', [])]"

definition memcached_key :: "buf \<Rightarrow> u64 \<Rightarrow> buf" where
  "memcached_key b count = (\<lambda>i. if i < 16 then (if of_nat i < count then b i else 0) else 0)"

definition infer_memcached_message ::
    "bpf_env \<Rightarrow> buf \<Rightarrow> u64 \<Rightarrow> conn_info_s \<Rightarrow> message_type" where
  "infer_memcached_message env b count c =
     (if count < 5 then MSG_UNKNOWN
      else if \<not> protocol_port_check_2 env PROTO_MEMCACHED c then MSG_UNKNOWN
      else if other_proto PROTO_MEMCACHED c then MSG_UNKNOWN
      else
        (let key = memcached_key b count;
             ukey = ld_u64 key 0;
             ukey2 = ld_u64 key 8
         in if list_ex (CSTR_EQ ukey) memcached_requests then MSG_REQUEST
            else if list_ex (\<lambda>(s1, s2). CSTR_EQ ukey s1 \<and> (s2 = [] \<or> CSTR_EQ ukey2 s2))
                      memcached_responses
            then MSG_RESPONSE
            else MSG_UNKNOWN))"

section \<open>Redis\<close>

text \<open>The loop of \<^verbatim>\<open>is_include_crlf\<close> over the indices \<open>20 - n, \<dots>, 19\<close>: where it stops.\<close>

fun find_cr :: "nat \<Rightarrow> buf \<Rightarrow> nat" where
  "find_cr 0 b = 20"
| "find_cr (Suc n) b = (if b (20 - Suc n) = 0x0D then 20 - Suc n else find_cr n b)"

definition is_include_crlf :: "buf \<Rightarrow> bool" where
  "is_include_crlf b =
     (let i = find_cr 19 b
      in if i = 20 then False
         else if b (i + 1) \<noteq> 0x0A then False
         else True)"

definition redis_first_bytes :: "u8 list" where
  "redis_first_bytes = map byte ''+-:$*_#,(!=%~>''"

definition infer_redis_message :: "bpf_env \<Rightarrow> buf \<Rightarrow> u64 \<Rightarrow> conn_info_s \<Rightarrow> message_type" where
  "infer_redis_message env b count c =
     (if count < 4 then MSG_UNKNOWN
      else if \<not> protocol_port_check_1 env PROTO_REDIS c then MSG_UNKNOWN
      else if other_proto PROTO_REDIS c then MSG_UNKNOWN
      else
        (let first_byte = b 0
         in if first_byte \<notin> set redis_first_bytes then MSG_UNKNOWN
            else if first_byte \<noteq> byte CHR ''-'' \<and> \<not> is_include_crlf b then MSG_UNKNOWN
            else if first_byte = byte CHR ''-'' \<and>
                    ((b 1 \<noteq> byte CHR ''E'' \<and> b 1 \<noteq> byte CHR ''W'') \<or> b 2 \<noteq> byte CHR ''R'')
            then MSG_UNKNOWN
            else MSG_REQUEST))"

section \<open>MongoDB\<close>

definition mongo_message_length :: "buf \<Rightarrow> u32" where "mongo_message_length h = ld_u32 h 0"
definition mongo_request_id :: "buf \<Rightarrow> u32" where "mongo_request_id h = ld_u32 h 4"
definition mongo_op_code :: "buf \<Rightarrow> u32" where "mongo_op_code h = ld_u32 h 12"

definition infer_mongo_message ::
    "bpf_env \<Rightarrow> buf \<Rightarrow> u64 \<Rightarrow> conn_info_s \<Rightarrow> message_type \<times> conn_info_s" where
  "infer_mongo_message env b count0 c =
     (if \<not> protocol_port_check_2 env PROTO_MONGO c then (MSG_UNKNOWN, c)
      else
        (let count = (if ci_prev_count c = 16 then count0 + 16 else count0);
             header = (if ci_prev_count c = 16 then ci_prev_buf c else b);
             op_code = sint (mongo_op_code header)
         in if count < 16 then (MSG_UNKNOWN, c)
            else if count = 16 \<and> ci_direction c = T_INGRESS
            then (MSG_PRESTORE, save_prev_data_from_kern b c 16)
            else if is_infer_socket_valid (ci_socket_info_ptr c) then
              (if sock_l7_proto c \<noteq> PROTO_MONGO then (MSG_UNKNOWN, c)
               else if op_code = 1 then (MSG_RESPONSE, c) else (MSG_REQUEST, c))
            else if scast (mongo_message_length header) \<noteq> count then (MSG_UNKNOWN, c)
            else if sint (mongo_request_id header) < 0 then (MSG_UNKNOWN, c)
            else if op_code = 1 then (MSG_RESPONSE, c)
            else if op_code < 2001 then (MSG_UNKNOWN, c)
            else if op_code > 2007 \<and> op_code < 2012 then (MSG_UNKNOWN, c)
            else if op_code > 2013 then (MSG_UNKNOWN, c)
            else (MSG_REQUEST, c)))"

section \<open>The contract\<close>

definition postgre_call :: "bpf_env \<Rightarrow> buf \<Rightarrow> u64 \<Rightarrow> conn_info_s \<Rightarrow> message_type" where
  "postgre_call env b n c =
     infer_postgre_message env (ci_syscall_infer_addr c) (ucast (ci_syscall_infer_len c)) c"

definition iso8583_call :: "bpf_env \<Rightarrow> buf \<Rightarrow> u64 \<Rightarrow> conn_info_s \<Rightarrow> message_type" where
  "iso8583_call env b n c =
     infer_iso8583_message env b n (ci_syscall_infer_addr c) (ci_syscall_infer_len c) c"

lemma mysql_out_frame [simp]:
  "infer_core (snd (mysql_out m com c)) = infer_core c"
  "cache_ok (snd (mysql_out m com c)) = cache_ok c"
  by (simp_all add: mysql_out_def Let_def if_push del: if_split cong: if_cong)

lemma mysql_verdict_frame [simp]:
  "infer_core (snd (mysql_verdict n len seq com p1 p2 m c)) = infer_core c"
  "cache_ok (snd (mysql_verdict n len seq com p1 p2 m c)) = cache_ok c"
  by (simp_all add: mysql_verdict_def if_push del: if_split cong: if_cong)

interpretation mysql: conn_classifier PROTO_MYSQL infer_mysql_message
proof unfold_locales
  fix env b b' n c
  show "infer_core (snd (infer_mysql_message env b n c)) = infer_core c"
    by (simp add: infer_mysql_message_def Let_def if_push del: if_split cong: if_cong)
  show "cache_ok c \<Longrightarrow> cache_ok (snd (infer_mysql_message env b n c))"
    by (simp add: infer_mysql_message_def Let_def if_push EBPF_CACHE_SIZE_def del: if_split cong: if_cong)
  show "agree_on INFER_DATA_SZ b b' \<Longrightarrow> infer_mysql_message env b n c = infer_mysql_message env b' n c"
    by (simp add: infer_mysql_message_def Let_def agree_bytes agree_loads(2) save_prev_local
        del: if_split cong: if_cong)
qed (simp_all add: infer_mysql_message_def)

interpretation postgre: pure_classifier PROTO_POSTGRESQL postgre_call
  by unfold_locales (simp_all add: postgre_call_def infer_postgre_message_def other_proto_def Let_def)

interpretation tns: pure_classifier PROTO_ORACLE infer_oracle_tns_message
proof unfold_locales
  fix env b b' n c
  show "agree_on INFER_DATA_SZ b b' \<Longrightarrow>
      infer_oracle_tns_message env b n c = infer_oracle_tns_message env b' n c"
    by (simp add: infer_oracle_tns_message_def Let_def agree_bytes agree_loads(1,2)
        del: if_split cong: if_cong)
qed (simp_all add: infer_oracle_tns_message_def)

interpretation iso8583: pure_classifier PROTO_ISO8583 iso8583_call
proof unfold_locales
  fix env b b' n c
  show "agree_on INFER_DATA_SZ b b' \<Longrightarrow> iso8583_call env b n c = iso8583_call env b' n c"
    by (simp add: iso8583_call_def infer_iso8583_message_def Let_def agree_bytes
        del: if_split cong: if_cong)
qed (simp_all add: iso8583_call_def infer_iso8583_message_def)

lemma memcached_key_local:
  "agree_on INFER_DATA_SZ b b' \<Longrightarrow> memcached_key b n = memcached_key b' n"
  by (auto simp: memcached_key_def agree_on_def INFER_DATA_SZ_def)

interpretation memcached: pure_classifier PROTO_MEMCACHED infer_memcached_message
proof unfold_locales
  fix env b b' n c
  show "agree_on INFER_DATA_SZ b b' \<Longrightarrow>
      infer_memcached_message env b n c = infer_memcached_message env b' n c"
    using memcached_key_local [of b b' n] by (simp add: infer_memcached_message_def)
qed (simp_all add: infer_memcached_message_def)

lemma find_cr_local: "agree_on INFER_DATA_SZ b b' \<Longrightarrow> find_cr n b = find_cr n b'"
  by (induction n) (auto simp: agree_on_def INFER_DATA_SZ_def)

lemma find_cr_le: "find_cr n b \<le> 20"
  by (induction n) auto

lemma is_include_crlf_local:
  assumes "agree_on INFER_DATA_SZ b b'"
  shows "is_include_crlf b = is_include_crlf b'"
  using find_cr_local [OF assms, of 19] agree_onD [OF assms, of "find_cr 19 b + 1"] find_cr_le [of 19 b]
  by (simp add: is_include_crlf_def Let_def INFER_DATA_SZ_def)

interpretation redis: pure_classifier PROTO_REDIS infer_redis_message
proof unfold_locales
  fix env b b' n c
  show "agree_on INFER_DATA_SZ b b' \<Longrightarrow>
      infer_redis_message env b n c = infer_redis_message env b' n c"
    using is_include_crlf_local [of b b'] by (simp add: infer_redis_message_def Let_def agree_bytes)
qed (simp_all add: infer_redis_message_def)

interpretation mongo: conn_classifier PROTO_MONGO infer_mongo_message
proof unfold_locales
  fix env b b' n c
  show "infer_core (snd (infer_mongo_message env b n c)) = infer_core c"
    by (simp add: infer_mongo_message_def Let_def if_push del: if_split cong: if_cong)
  show "cache_ok c \<Longrightarrow> cache_ok (snd (infer_mongo_message env b n c))"
    by (simp add: infer_mongo_message_def Let_def if_push EBPF_CACHE_SIZE_def del: if_split cong: if_cong)
  show "agree_on INFER_DATA_SZ b b' \<Longrightarrow> infer_mongo_message env b n c = infer_mongo_message env b' n c"
    by (simp add: infer_mongo_message_def Let_def mongo_message_length_def mongo_request_id_def
        mongo_op_code_def agree_loads(2) save_prev_local if_distrib [of "\<lambda>x. ld_u32 x _"]
        del: if_split cong: if_cong)
  show "other_proto PROTO_MONGO c \<Longrightarrow> fst (infer_mongo_message env b n c) \<in> {MSG_UNKNOWN, MSG_PRESTORE}"
    by (simp add: infer_mongo_message_def Let_def other_proto_def)
qed (simp_all add: infer_mongo_message_def)

section \<open>Recognition\<close>

lemma bit_CSTR_MASK: "length str \<le> 8 \<Longrightarrow> bit (CSTR_MASK str) n \<longleftrightarrow> n < 8 * length str"
  by (auto simp: CSTR_MASK_def bit_simps)

lemma CSTR_EQ_iff:
  assumes "length str \<le> 8"
  shows "CSTR_EQ (ld_u64 key j) str \<longleftrightarrow> str_at key j str"
proof -
  have lt: "n < 64" if "n < 8 * length str" for n using assms that by linarith
  have "CSTR_EQ (ld_u64 key j) str \<longleftrightarrow>
      (\<forall>n<8 * length str. bit (ld_u64 key j) n = bit (ld_u64 (buf_of (map byte str)) 0) n)"
    using lt unfolding CSTR_EQ_def CSTR_AS_U64_def bit_eq_iff bit_and_iff bit_CSTR_MASK [OF assms]
    by (auto simp del: le_eq_less_or_eq)
  also have "\<dots> \<longleftrightarrow> (\<forall>k<length str. \<forall>r<8. bit (ld_u64 key j) (8 * k + r) =
      bit (ld_u64 (buf_of (map byte str)) 0) (8 * k + r))"
  proof (rule iffI; intro allI impI)
    fix n assume *: "\<forall>k<length str. \<forall>r<8. bit (ld_u64 key j) (8 * k + r) =
        bit (ld_u64 (buf_of (map byte str)) 0) (8 * k + r)" and n: "n < 8 * length str"
    have "n div 8 < length str" "n mod 8 < 8" "n = 8 * (n div 8) + n mod 8"
      using n by (simp_all add: less_mult_imp_div_less mult.commute)
    with * show "bit (ld_u64 key j) n = bit (ld_u64 (buf_of (map byte str)) 0) n" by metis
  qed auto
  also have "\<dots> \<longleftrightarrow> (\<forall>k<length str. \<forall>r<8. bit (key (j + k)) r = bit (byte (str ! k)) r)"
    using assms by (simp add: bit_ld_u64 buf_of_def)
  also have "\<dots> \<longleftrightarrow> (\<forall>k<length str. key (j + k) = byte (str ! k))"
    by (auto simp: bit_eq_iff)
  finally show ?thesis by (simp add: str_at_nth byte_def)
qed


text \<open>A recognised word lies inside the message: behind its end the key is zero.\<close>

lemma str_at_memcached_key:
  assumes "j + length str \<le> 16" "\<forall>a\<in>set str. (of_char a :: u8) \<noteq> 0"
  shows "str_at (memcached_key b n) j str \<longleftrightarrow> (str = [] \<or> j + length str \<le> unat n) \<and> str_at b j str"
  using assms
proof (induction str arbitrary: j)
  case (Cons a str)
  have n: "(of_nat j < n) = (j < unat n)"
  proof -
    have "j < 2 ^ 64" using Cons.prems(1) by simp
    then have "take_bit 64 j = j" by (simp add: take_bit_nat_eq_self_iff)
    then show ?thesis by (simp add: word_less_nat_alt unsigned_of_nat)
  qed
  show ?case
    using Cons.IH [of "Suc j"] Cons.prems n
    by (cases str) (auto simp: memcached_key_def)
qed simp

lemma find_cr_first:
  assumes "m \<le> 20" "find_cr m b < 20"
  shows "20 - m \<le> find_cr m b" "b (find_cr m b) = 0x0D"
    and "\<And>j. 20 - m \<le> j \<Longrightarrow> j < find_cr m b \<Longrightarrow> b j \<noteq> 0x0D"
  using assms
proof (induction m)
  case (Suc m)
  { case 1 with Suc show ?case by (auto split: if_splits) }
  { case 2 with Suc show ?case by (auto split: if_splits) }
  { case (3 j)
    with Suc(3) [of j] show ?case
      by (cases "j = 20 - Suc m") (auto split: if_splits) }
qed simp_all

lemma find_cr_found: "m \<le> 20 \<Longrightarrow> 20 - m \<le> i \<Longrightarrow> i < 20 \<Longrightarrow> b i = 0x0D \<Longrightarrow> find_cr m b \<le> i"
proof (induction m)
  case (Suc m)
  then show ?case by (cases "i = 20 - Suc m") auto
qed simp

lemma is_include_crlf_iff:
  "is_include_crlf b \<longleftrightarrow>
     (\<exists>i. 1 \<le> i \<and> i < 20 \<and> b i = 0x0D \<and> (\<forall>j. 1 \<le> j \<and> j < i \<longrightarrow> b j \<noteq> 0x0D) \<and> b (i + 1) = 0x0A)"
proof
  assume "is_include_crlf b"
  then have "find_cr 19 b < 20" "b (find_cr 19 b + 1) = 0x0A"
    using find_cr_le [of 19 b] by (auto simp: is_include_crlf_def Let_def split: if_splits)
  then show "\<exists>i. 1 \<le> i \<and> i < 20 \<and> b i = 0x0D \<and> (\<forall>j. 1 \<le> j \<and> j < i \<longrightarrow> b j \<noteq> 0x0D) \<and> b (i + 1) = 0x0A"
    using find_cr_first(1,2) [of 19 b] find_cr_first(3) [of 19 b]
    by (intro exI [of _ "find_cr 19 b"]) simp
next
  assume "\<exists>i. 1 \<le> i \<and> i < 20 \<and> b i = 0x0D \<and> (\<forall>j. 1 \<le> j \<and> j < i \<longrightarrow> b j \<noteq> 0x0D) \<and> b (i + 1) = 0x0A"
  then obtain i where i: "1 \<le> i" "i < 20" "b i = 0x0D" "\<And>j. 1 \<le> j \<Longrightarrow> j < i \<Longrightarrow> b j \<noteq> 0x0D"
      "b (i + 1) = 0x0A"
    by auto
  then have "find_cr 19 b \<le> i" using find_cr_found [of 19 i b] by simp
  moreover have "\<not> find_cr 19 b < i"
  proof
    assume lt: "find_cr 19 b < i"
    then have "find_cr 19 b < 20" using i(2) by simp
    from find_cr_first(1,2) [OF _ this] have "1 \<le> find_cr 19 b" "b (find_cr 19 b) = 0x0D" by simp_all
    with i(4) lt show False by blast
  qed
  ultimately have "find_cr 19 b = i" by simp
  then show "is_include_crlf b" using i by (simp add: is_include_crlf_def)
qed

lemma memcached_words:
  "list_all (\<lambda>w. w \<noteq> [] \<and> length w \<le> 8 \<and> list_all (\<lambda>a. (of_char a :: u8) \<noteq> 0) w) memcached_requests"
  by (simp add: memcached_requests_def)

text \<open>C34: Memcached. On a connection that may be Memcached and a message of at least five bytes, the
  masked 64-bit comparisons recognise exactly the messages that start with one of the request
  verbs and its blank, and the verb always lies inside the message.\<close>

theorem memcached_request_iff:
  assumes "5 \<le> count" "protocol_port_check_2 env PROTO_MEMCACHED c" "\<not> other_proto PROTO_MEMCACHED c"
  shows "infer_memcached_message env b count c = MSG_REQUEST \<longleftrightarrow>
    (\<exists>w\<in>set memcached_requests. length w \<le> unat count \<and> str_at b 0 w)"
proof -
  have "CSTR_EQ (ld_u64 (memcached_key b count) 0) w \<longleftrightarrow> length w \<le> unat count \<and> str_at b 0 w"
    if "w \<in> set memcached_requests" for w
    using that memcached_words str_at_memcached_key [of 0 w b count]
    by (auto simp: list_all_iff CSTR_EQ_iff)
  then show ?thesis
    using assms by (auto simp: infer_memcached_message_def Let_def list_ex_iff not_less)
qed

theorem memcached_request_iff_witness:
  "infer_memcached_message (example_env True []) (buf_of (map byte ''get key'')) 9
     (example_conn T_INGRESS None) = MSG_REQUEST"
proof -
  have g: "(5::u64) \<le> 9" "protocol_port_check_2 (example_env True []) PROTO_MEMCACHED (example_conn T_INGRESS None)"
    "\<not> other_proto PROTO_MEMCACHED (example_conn T_INGRESS None)"
    by code_simp+
  show ?thesis
    unfolding memcached_request_iff [OF g] by (rule bexI [of _ "''get ''"]) code_simp+
qed

text \<open>C38: Redis. On a connection that may be Redis, a message that is not an error reply is taken if and
  only if it has at least four bytes, starts with one of the type bytes and the first carriage return among bytes 1 to
  19 is followed by a line feed.\<close>

theorem redis_accepts_iff:
  assumes "protocol_port_check_1 env PROTO_REDIS c" "\<not> other_proto PROTO_REDIS c"
    and "b 0 \<noteq> byte CHR ''-''"
  shows "infer_redis_message env b count c = MSG_REQUEST \<longleftrightarrow>
    4 \<le> unat count \<and> b 0 \<in> set redis_first_bytes \<and>
    (\<exists>i. 1 \<le> i \<and> i < 20 \<and> b i = 0x0D \<and> (\<forall>j. 1 \<le> j \<and> j < i \<longrightarrow> b j \<noteq> 0x0D) \<and> b (i + 1) = 0x0A)"
  unfolding is_include_crlf_iff [symmetric]
  using assms by (auto simp: infer_redis_message_def Let_def word_less_nat_alt)

theorem redis_accepts_iff_witness:
  "\<exists>i. 1 \<le> i \<and> i < 20 \<and> buf_of (map byte ''+OK'' @ [13, 10]) i = 0x0D"
proof -
  have g: "protocol_port_check_1 (example_env True []) PROTO_REDIS (example_conn T_INGRESS None)"
    "\<not> other_proto PROTO_REDIS (example_conn T_INGRESS None)"
    "buf_of (map byte ''+OK'' @ [13, 10]) 0 \<noteq> byte CHR ''-''"
    by code_simp+
  have "infer_redis_message (example_env True []) (buf_of (map byte ''+OK'' @ [13, 10])) 5
      (example_conn T_INGRESS None) = MSG_REQUEST" by code_simp
  then show ?thesis
    using redis_accepts_iff [OF g(1,2), of "buf_of (map byte ''+OK'' @ [13, 10])" 5] g(3) by blast
qed

lemma pgsql_startup_bounds:
  "infer_pgsql_startup_message b n \<Longrightarrow> 12 \<le> bpf_ntohl (ld_u32 b 0) \<and> bpf_ntohl (ld_u32 b 0) \<le> 10240"
  unfolding infer_pgsql_startup_message_def Let_def by (meson not_less)

lemma pgsql_query_bounds:
  assumes "infer_pgsql_query_message env b src n \<noteq> MSG_UNKNOWN"
  defines "l \<equiv> bpf_ntohl (ld_u32 (read_user env (\<lambda>_. 0) 4 (src + 1)) 0)"
  shows "infer_pgsql_query_message env b src n = MSG_REQUEST"
    "66 \<le> sint (b 0)" "sint (b 0) \<le> 83" "8 \<le> l" "l \<le> 30000"
proof -
  have B: "sint (byte CHR ''B'') = 66" "sint (byte CHR ''S'') = 83" by (simp_all add: byte_def)
  show "66 \<le> sint (b 0)" "sint (b 0) \<le> 83" "8 \<le> l" "l \<le> 30000"
    using assms(1) unfolding infer_pgsql_query_message_def Let_def B l_def
    by (meson not_less)+
  show "infer_pgsql_query_message env b src n = MSG_REQUEST"
    using assms(1) unfolding infer_pgsql_query_message_def Let_def
    by (simp only: not_False_eq_True simp_thms split: if_split_asm) (simp_all only: if_True if_False simp_thms)
qed

text \<open>C39: PostgreSQL. A first message is taken only as a start-up message whose length field lies between
  12 and 10240 or behind a tag byte between \<^verbatim>\<open>B\<close> and \<^verbatim>\<open>S\<close> with a length field between 8 and 30000,
  and then always as a request.\<close>

theorem postgre_first_message:
  assumes "\<not> is_infer_socket_valid (ci_socket_info_ptr c)"
    and "infer_postgre_message env src count c \<noteq> MSG_UNKNOWN"
  shows "infer_postgre_message env src count c = MSG_REQUEST \<and>
    (let b = read_user env (\<lambda>_. 0) 32 src; l = ld_u32 (read_user env (\<lambda>_. 0) 4 (src + 1)) 0
     in (12 \<le> bpf_ntohl (ld_u32 b 0) \<and> bpf_ntohl (ld_u32 b 0) \<le> 10240) \<or>
        (66 \<le> sint (b 0) \<and> sint (b 0) \<le> 83 \<and> 8 \<le> bpf_ntohl l \<and> bpf_ntohl l \<le> 30000))"
proof -
  let ?b = "read_user env (\<lambda>_. 0) 32 src"
  have e: "infer_postgre_message env src count c =
      (if infer_pgsql_startup_message ?b count then MSG_REQUEST
       else infer_pgsql_query_message env ?b src count)"
    using assms by (simp add: infer_postgre_message_def Let_def split: if_splits)
  show ?thesis
    using assms(2) pgsql_startup_bounds [of ?b count] pgsql_query_bounds [of env ?b src count]
    unfolding e Let_def by (cases "infer_pgsql_startup_message ?b count") auto
qed

theorem postgre_first_message_witness:
  "infer_postgre_message (example_env True ([0, 0, 0, 20, 0, 3, 0, 0] @ map byte ''user'')) 0 20
     (example_conn T_EGRESS None) = MSG_REQUEST"
proof -
  have "infer_postgre_message (example_env True ([0, 0, 0, 20, 0, 3, 0, 0] @ map byte ''user'')) 0 20
     (example_conn T_EGRESS None) \<noteq> MSG_UNKNOWN" by code_simp
  moreover have "\<not> is_infer_socket_valid (ci_socket_info_ptr (example_conn T_EGRESS None))" by code_simp
  ultimately show ?thesis using postgre_first_message by blast
qed

end
