(* ===== verification/Infer_Rpc.thy ===== *)
theory Infer_Rpc
  imports Infer_Contract
begin

text \<open>
  The classifiers of \<^verbatim>\<open>protocol_inference.h\<close> for RPC protocols: SofaRPC (Bolt), bRPC, TARS,
  Dubbo, SOME/IP and FastCGI.
\<close>

section \<open>SofaRPC\<close>

definition sofarpc_check_character :: "u8 \<Rightarrow> bool" where
  "sofarpc_check_character val =
     (if (48 \<le> val \<and> val \<le> 57) \<or> (65 \<le> val \<and> val \<le> 90) \<or> (97 \<le> val \<and> val \<le> 122) \<or>
         val = byte CHR ''.'' \<or> val = byte CHR ''_'' \<or> val = byte CHR ''-'' \<or> val = byte CHR ''*''
      then True else False)"

text \<open>The checks of a first message, from \<^verbatim>\<open>cmdcode\<close> to the label \<^verbatim>\<open>out\<close>: \<open>False\<close> is
  \<^verbatim>\<open>return MSG_UNKNOWN\<close>.\<close>

definition sofarpc_first_request_ok :: "buf \<Rightarrow> u64 \<Rightarrow> bool" where
  "sofarpc_first_request_ok b count =
     (let class_len = sint (bpf_ntohs (ld_u16 b 14));
          header_len = sint (bpf_ntohs (ld_u16 b 16));
          content_len = sint (bpf_ntohl (ld_u32 b 18))
      in if class_len < 0 \<or> header_len < 0 \<or> content_len < 0 \<or> 22 > count then False
         else if count \<ge> 23 \<and> class_len \<ge> 1 \<and> \<not> sofarpc_check_character (b 22) then False
         else True)"

definition sofarpc_resp_status :: "buf \<Rightarrow> u16" where
  "sofarpc_resp_status b = ucast (bpf_ntohl (ucast (ld_u16 b 10)))"

definition sofarpc_first_response_ok :: "buf \<Rightarrow> u64 \<Rightarrow> bool" where
  "sofarpc_first_response_ok b count =
     (let resp_status = sofarpc_resp_status b;
          class_len = sint (bpf_ntohs (ld_u16 b 12));
          header_len = sint (bpf_ntohs (ld_u16 b 14));
          content_len = sint (bpf_ntohl (ld_u32 b 16))
      in if \<not> (resp_status \<le> 9 \<or> (16 \<le> resp_status \<and> resp_status \<le> 18)) then False
         else if class_len < 0 \<or> header_len < 0 \<or> content_len < 0 then False
         else if count \<ge> 21 \<and> class_len \<ge> 1 \<and> \<not> sofarpc_check_character (b 20) then False
         else True)"

definition sofarpc_first_ok :: "buf \<Rightarrow> u64 \<Rightarrow> bool" where
  "sofarpc_first_ok b count =
     (let proto = b 0; type = b 1; cmdcode = bpf_ntohs (ld_u16 b 2); ver2 = b 4; codec = b 9
      in if ver2 \<noteq> 1 then False
         else if codec \<noteq> 1 then False
         else if \<not> (proto = 0x01 \<and> (type = 0x01 \<or> type = 0x0) \<and>
                     (cmdcode = 0x01 \<or> cmdcode = 0x02 \<or> cmdcode = 0x0))
         then False
         else if type = 0x01 \<and> \<not> sofarpc_first_request_ok b count then False
         else if cmdcode = 0x02 \<and> \<not> sofarpc_first_response_ok b count then False
         else True)"

definition infer_sofarpc_message ::
    "bpf_env \<Rightarrow> buf \<Rightarrow> u64 \<Rightarrow> conn_info_s \<Rightarrow> message_type \<times> conn_info_s" where
  "infer_sofarpc_message env b count c =
     (if count < 20 then (MSG_UNKNOWN, c)
      else if \<not> protocol_port_check_1 env PROTO_SOFARPC c then (MSG_UNKNOWN, c)
      else
        (let out = (if b 1 = 0x01 then MSG_REQUEST else MSG_RESPONSE)
         in if is_infer_socket_valid (ci_socket_info_ptr c) then
              (if sock_l7_proto c \<noteq> PROTO_SOFARPC then (MSG_UNKNOWN, c)
               else if si_allow_reassembly (the (ci_socket_info_ptr c)) \<and> ci_direction c = T_INGRESS
               then
                 (if ci_prev_direction c = ci_direction c \<and>
                     si_force_reasm (the (ci_socket_info_ptr c))
                  then (MSG_UNKNOWN, c)
                  else if count = 64 then (out, upd_sock (\<lambda>s. s\<lparr>si_force_reasm := True\<rparr>) c)
                  else (out, upd_sock (\<lambda>s. s\<lparr>si_force_reasm := False\<rparr>) c))
               else (out, c))
            else if \<not> sofarpc_first_ok b count then (MSG_UNKNOWN, c)
            else (out, c)))"

section \<open>bRPC\<close>

definition infer_brpc_message :: "bpf_env \<Rightarrow> buf \<Rightarrow> u64 \<Rightarrow> conn_info_s \<Rightarrow> message_type" where
  "infer_brpc_message env b count c =
     (if count < 12 then MSG_UNKNOWN
      else if \<not> protocol_port_check_2 env PROTO_BRPC c then MSG_UNKNOWN
      else if other_proto PROTO_BRPC c then MSG_UNKNOWN
      else if b 0 \<noteq> byte CHR ''P'' \<or> b 1 \<noteq> byte CHR ''R'' \<or> b 2 \<noteq> byte CHR ''P'' \<or>
              b 3 \<noteq> byte CHR ''C''
      then MSG_UNKNOWN
      else
        (let body_size = bpf_ntohl (ld_u32 b 4);
             meta_size = bpf_ntohl (ld_u32 b 8)
         in if ucast (body_size + 12) > count then MSG_UNKNOWN
            else if meta_size > body_size then MSG_UNKNOWN
            else MSG_REQUEST))"

section \<open>TARS\<close>

definition TARS_MAX_CHECK_FIELDS_NUM :: nat where "TARS_MAX_CHECK_FIELDS_NUM = 5"
definition TARS_FIELD_TYPE_INT1 :: u8 where "TARS_FIELD_TYPE_INT1 = 0"
definition TARS_FIELD_TYPE_INT4 :: u8 where "TARS_FIELD_TYPE_INT4 = 2"
definition TARS_FIELD_TYPE_INT8 :: u8 where "TARS_FIELD_TYPE_INT8 = 3"
definition TARS_FIELD_TYPE_STRING1 :: u8 where "TARS_FIELD_TYPE_STRING1 = 6"
definition TARS_FIELD_TYPE_STRING4 :: u8 where "TARS_FIELD_TYPE_STRING4 = 7"
definition TARS_FIELD_TYPE_ZERO :: u8 where "TARS_FIELD_TYPE_ZERO = 12"

text \<open>The field loop with \<open>i\<close> iterations left; \<^verbatim>\<open>buf[0] >> 4\<close> is a shift of a signed \<^verbatim>\<open>char\<close>. The
  reads are of the program's own inference buffer and do not fail.\<close>

fun tars_loop :: "nat \<Rightarrow> buf \<Rightarrow> u64 \<Rightarrow> bool \<Rightarrow> message_type \<Rightarrow> u32 \<Rightarrow> message_type" where
  "tars_loop 0 infer_buf count has_version msg_type offset =
     (if \<not> has_version then MSG_UNKNOWN else msg_type)"
| "tars_loop (Suc i) infer_buf count has_version msg_type offset =
     (if ucast (offset + 1) \<ge> count then MSG_UNKNOWN
      else
        (let b0 = infer_buf (unat offset);
             b1 = infer_buf (unat offset + 1);
             field_type = b0 AND 0x0F;
             field_tag = signed_drop_bit 4 b0
         in if field_tag = 5 then
              (if field_type = TARS_FIELD_TYPE_STRING1 \<or> field_type = TARS_FIELD_TYPE_STRING4 then
                 (if has_version then MSG_REQUEST
                  else tars_loop i infer_buf count has_version MSG_REQUEST offset)
               else if field_type = TARS_FIELD_TYPE_INT4 \<or> field_type = TARS_FIELD_TYPE_ZERO then
                 (if has_version then MSG_RESPONSE
                  else tars_loop i infer_buf count has_version MSG_RESPONSE offset)
               else MSG_UNKNOWN)
            else if field_tag = 1 then
              (if field_type \<noteq> TARS_FIELD_TYPE_INT1 \<or> (b1 \<noteq> 1 \<and> b1 \<noteq> 3) then MSG_UNKNOWN
               else tars_loop i infer_buf count True msg_type (offset + 2))
            else if field_type = TARS_FIELD_TYPE_ZERO then
              tars_loop i infer_buf count has_version msg_type (offset + 1)
            else if field_type \<ge> TARS_FIELD_TYPE_INT1 \<and> field_type \<le> TARS_FIELD_TYPE_INT8 then
              tars_loop i infer_buf count has_version msg_type
                (offset + (1 + push_bit (unat field_type) 1))
            else MSG_UNKNOWN))"

definition infer_tars_message :: "bpf_env \<Rightarrow> buf \<Rightarrow> u64 \<Rightarrow> conn_info_s \<Rightarrow> message_type" where
  "infer_tars_message env infer_buf count c =
     (if count < 4 then MSG_UNKNOWN
      else if \<not> protocol_port_check_2 env PROTO_TARS c then MSG_UNKNOWN
      else if other_proto PROTO_TARS c then MSG_UNKNOWN
      else if ucast (bpf_ntohl (ld_u32 infer_buf 0)) \<noteq> count then MSG_UNKNOWN
      else tars_loop TARS_MAX_CHECK_FIELDS_NUM infer_buf count False MSG_UNKNOWN 4)"

section \<open>Dubbo\<close>

text \<open>The fields of \<^verbatim>\<open>struct dubbo_header\<close>; the bit fields of byte 2 from the low end.\<close>

definition dubbo_magic :: "buf \<Rightarrow> u16" where "dubbo_magic b = ld_u16 b 0"
definition dubbo_serial_id :: "buf \<Rightarrow> u8" where "dubbo_serial_id b = b 2 AND 0x1F"
definition dubbo_event :: "buf \<Rightarrow> bool" where "dubbo_event b = bit (b 2) 5"
definition dubbo_is_req :: "buf \<Rightarrow> bool" where "dubbo_is_req b = bit (b 2) 7"
definition dubbo_data_len :: "buf \<Rightarrow> u32" where "dubbo_data_len b = ld_u32 b 12"

definition infer_dubbo_message :: "bpf_env \<Rightarrow> buf \<Rightarrow> u64 \<Rightarrow> conn_info_s \<Rightarrow> message_type" where
  "infer_dubbo_message env b count c =
     (if count < 16 then MSG_UNKNOWN
      else if \<not> protocol_port_check_2 env PROTO_DUBBO c then MSG_UNKNOWN
      else if other_proto PROTO_DUBBO c then MSG_UNKNOWN
      else if dubbo_magic b \<noteq> 0xbbda then MSG_UNKNOWN
      else if dubbo_serial_id b < 2 \<or> dubbo_serial_id b = 5 \<or>
              (dubbo_serial_id b > 12 \<and> dubbo_serial_id b < 16)
      then MSG_UNKNOWN
      else if dubbo_event b \<and> bpf_ntohl (dubbo_data_len b) \<noteq> 1 then MSG_UNKNOWN
      else if dubbo_is_req b then MSG_REQUEST
      else MSG_RESPONSE)"

section \<open>SOME/IP\<close>

definition MESSAGE_TYPE_REQUEST :: u8 where "MESSAGE_TYPE_REQUEST = 0"
definition MESSAGE_TYPE_REQUEST_NO_RETURN :: u8 where "MESSAGE_TYPE_REQUEST_NO_RETURN = 1"
definition MESSAGE_TYPE_TP_REQUEST :: u8 where "MESSAGE_TYPE_TP_REQUEST = 0x20"
definition MESSAGE_TYPE_TP_REQUEST_NO_RETURN :: u8 where "MESSAGE_TYPE_TP_REQUEST_NO_RETURN = 0x21"

definition infer_some_ip_request ::
    "buf \<Rightarrow> u64 \<Rightarrow> conn_info_s \<Rightarrow> message_type \<times> conn_info_s" where
  "infer_some_ip_request b count c =
     (let len = bpf_ntohl (ld_u32 b 4); message_type = b 14; return_code = b 15
      in if message_type \<noteq> MESSAGE_TYPE_REQUEST \<and> message_type \<noteq> MESSAGE_TYPE_REQUEST \<and>
            message_type \<noteq> MESSAGE_TYPE_TP_REQUEST \<and>
            message_type \<noteq> MESSAGE_TYPE_TP_REQUEST_NO_RETURN
         then (MSG_UNKNOWN, c)
         else if return_code = 0 \<and> scast len = count - 8 then
           (MSG_REQUEST,
            c\<lparr>ci_role := if ci_direction c = T_INGRESS then ROLE_SERVER else ROLE_CLIENT\<rparr>)
         else (MSG_UNKNOWN, c))"

definition infer_some_ip_message ::
    "bpf_env \<Rightarrow> buf \<Rightarrow> u64 \<Rightarrow> conn_info_s \<Rightarrow> message_type \<times> conn_info_s" where
  "infer_some_ip_message env b count c =
     (if \<not> protocol_port_check_2 env PROTO_SOME_IP c then (MSG_UNKNOWN, c)
      else if count < 16 then (MSG_UNKNOWN, c)
      else if is_infer_socket_valid (ci_socket_info_ptr c) then
        (if sock_l7_proto c \<noteq> PROTO_SOME_IP then (MSG_UNKNOWN, c)
         else
           (let c' = c\<lparr>ci_role := si_role (the (ci_socket_info_ptr c))\<rparr>
            in if (ci_role c' = ROLE_CLIENT \<and> ci_direction c' = T_EGRESS) \<or>
                  (ci_role c' = ROLE_SERVER \<and> ci_direction c' = T_INGRESS)
               then (MSG_REQUEST, c') else (MSG_RESPONSE, c')))
      else case infer_some_ip_request b count c of
        (msg_type, c') \<Rightarrow>
          if msg_type = MSG_REQUEST then (MSG_REQUEST, c') else (MSG_UNKNOWN, c'))"

section \<open>FastCGI\<close>

definition fcgi_version :: "buf \<Rightarrow> u8" where "fcgi_version h = h 0"
definition fcgi_type :: "buf \<Rightarrow> u8" where "fcgi_type h = h 1"
definition fcgi_content_length :: "buf \<Rightarrow> u16" where "fcgi_content_length h = bpf_ntohs (ld_u16 h 4)"
definition fcgi_padding_length :: "buf \<Rightarrow> u8" where "fcgi_padding_length h = h 6"

definition FCGI_BEGIN_REQUEST :: u8 where "FCGI_BEGIN_REQUEST = 1"
definition FCGI_PARAMS :: u8 where "FCGI_PARAMS = 4"
definition FCGI_STDOUT :: u8 where "FCGI_STDOUT = 6"

definition fastcgi_header_common_check :: "buf \<Rightarrow> bool" where
  "fastcgi_header_common_check h =
     (if fcgi_version h \<noteq> 1 then False
      else if fcgi_padding_length h \<ge> 8 then False
      else if (unat (fcgi_content_length h) + unat (fcgi_padding_length h)) mod 8 \<noteq> 0 then False
      else True)"

text \<open>The last part, on the eight header bytes kept from the previous segment.\<close>

definition fastcgi_kept_header :: "u64 \<Rightarrow> conn_info_s \<Rightarrow> message_type" where
  "fastcgi_kept_header count c =
     (if ci_prev_count c \<noteq> 8 then MSG_UNKNOWN
      else
        (let header = ci_prev_buf c
         in if ucast (fcgi_content_length header) + ucast (fcgi_padding_length header) \<noteq> count
            then MSG_UNKNOWN
            else if fcgi_type header = FCGI_BEGIN_REQUEST \<or> fcgi_type header = FCGI_PARAMS
            then MSG_REQUEST
            else if fcgi_type header = FCGI_STDOUT then MSG_RESPONSE
            else MSG_UNKNOWN))"

definition infer_fastcgi_message ::
    "bpf_env \<Rightarrow> buf \<Rightarrow> u64 \<Rightarrow> conn_info_s \<Rightarrow> message_type \<times> conn_info_s" where
  "infer_fastcgi_message env b count c =
     (if count < 8 then (MSG_UNKNOWN, c)
      else if \<not> protocol_port_check_1 env PROTO_FASTCGI c then (MSG_UNKNOWN, c)
      else if fastcgi_header_common_check b \<and> count = 8 \<and>
              (fcgi_type b = FCGI_BEGIN_REQUEST \<or> fcgi_type b = FCGI_PARAMS \<or>
               fcgi_type b = FCGI_STDOUT) \<and> fcgi_content_length b \<noteq> 0
      then (MSG_PRESTORE, save_prev_data_from_kern b c 8)
      else if is_infer_socket_valid (ci_socket_info_ptr c) then
        (if sock_l7_proto c \<noteq> PROTO_FASTCGI then (MSG_UNKNOWN, c)
         else if fcgi_type b = FCGI_BEGIN_REQUEST \<or> fcgi_type b = FCGI_PARAMS
         then (MSG_REQUEST, c) else (MSG_RESPONSE, c))
      else if fastcgi_header_common_check b \<and> count > 8 \<and> fcgi_content_length b \<noteq> 0 \<and>
              fcgi_type b = FCGI_BEGIN_REQUEST
      then (MSG_REQUEST, c)
      else if fastcgi_header_common_check b \<and> count > 8 \<and> fcgi_content_length b \<noteq> 0 \<and>
              fcgi_type b = FCGI_STDOUT
      then (MSG_RESPONSE, c)
      else (fastcgi_kept_header count c, c))"

section \<open>The contract\<close>

lemma sofarpc_first_ok_local:
  assumes "agree_on INFER_DATA_SZ b b'"
  shows "sofarpc_first_ok b n = sofarpc_first_ok b' n"
  by (simp add: sofarpc_first_ok_def sofarpc_first_request_ok_def sofarpc_first_response_ok_def
      sofarpc_resp_status_def Let_def agree_bytes [OF assms] agree_loads(1,2) [OF assms] del: if_split)

interpretation sofarpc: conn_classifier PROTO_SOFARPC infer_sofarpc_message
proof unfold_locales
  fix env b b' n c
  show "other_proto PROTO_SOFARPC c \<Longrightarrow>
      fst (infer_sofarpc_message env b n c) \<in> {MSG_UNKNOWN, MSG_PRESTORE}"
    by (simp add: infer_sofarpc_message_def Let_def other_proto_def)
  show "infer_core (snd (infer_sofarpc_message env b n c)) = infer_core c"
    by (simp add: infer_sofarpc_message_def Let_def if_push del: if_split cong: if_cong)
  show "cache_ok c \<Longrightarrow> cache_ok (snd (infer_sofarpc_message env b n c))"
    by (simp add: infer_sofarpc_message_def Let_def if_push del: if_split cong: if_cong)
  show "agree_on INFER_DATA_SZ b b' \<Longrightarrow>
      infer_sofarpc_message env b n c = infer_sofarpc_message env b' n c"
    by (simp add: infer_sofarpc_message_def Let_def agree_bytes sofarpc_first_ok_local [of b b']
        del: if_split cong: if_cong)
qed (simp_all add: infer_sofarpc_message_def)

interpretation brpc: pure_classifier PROTO_BRPC infer_brpc_message
proof unfold_locales
  fix env b b' n c
  show "agree_on INFER_DATA_SZ b b' \<Longrightarrow> infer_brpc_message env b n c = infer_brpc_message env b' n c"
    by (simp add: infer_brpc_message_def Let_def agree_bytes agree_loads(2))
qed (simp_all add: infer_brpc_message_def)

lemma tars_int_width: "(ft::u8) \<le> TARS_FIELD_TYPE_INT8 \<Longrightarrow> unat (1 + push_bit (unat ft) 1 :: u32) \<le> 9"
proof -
  assume "ft \<le> TARS_FIELD_TYPE_INT8"
  then have "unat ft \<le> 3" by (simp add: TARS_FIELD_TYPE_INT8_def word_le_nat_alt)
  then have "unat ft = 0 \<or> unat ft = 1 \<or> unat ft = 2 \<or> unat ft = 3" by linarith
  then show ?thesis by (elim disjE) simp_all
qed

text \<open>No field is longer than nine bytes, so with five of them to look at the loop reads at most
  up to byte 41 of the buffer.\<close>

lemma tars_loop_local:
  assumes "agree_on k b b'" "unat off + 9 * i \<le> k + 7"
  shows "tars_loop i b n hv mt off = tars_loop i b' n hv mt off"
  using assms(2)
proof (induction i arbitrary: hv mt off)
  case (Suc i)
  have now: "b (unat off) = b' (unat off)" "b (Suc (unat off)) = b' (Suc (unat off))"
    using Suc.prems agree_onD [OF assms(1)] by simp_all
  have step: "unat (off + d) + 9 * i \<le> k + 7" if "unat d \<le> 9" for d
    using Suc.prems unat_add_le [of off d] that by simp
  have nxt: "tars_loop i b n hv mt (off + d) = tars_loop i b' n hv mt (off + d)"
    if "unat d \<le> 9" for d hv mt
    using step [OF that] by (rule Suc.IH)
  have int: "tars_loop i b n hv mt (off + (1 + push_bit (unat ft) 1)) =
      tars_loop i b' n hv mt (off + (1 + push_bit (unat ft) 1))"
    if "ft \<le> TARS_FIELD_TYPE_INT8" for ft :: u8 and hv mt
    using tars_int_width [OF that] by (rule nxt)
  show ?case
    using nxt [of 0] nxt [of 1] nxt [of 2]
    by (simp add: now Let_def int del: if_split push_bit_of_1 cong: if_cong)
qed simp

interpretation tars: pure_classifier PROTO_TARS infer_tars_message
proof unfold_locales
  fix env b b' n c
  show "agree_on INFER_DATA_SZ b b' \<Longrightarrow> infer_tars_message env b n c = infer_tars_message env b' n c"
    using tars_loop_local [of INFER_DATA_SZ b b' 4 TARS_MAX_CHECK_FIELDS_NUM]
    by (simp add: infer_tars_message_def agree_loads(2) INFER_DATA_SZ_def TARS_MAX_CHECK_FIELDS_NUM_def)
qed (simp_all add: infer_tars_message_def)

interpretation dubbo: pure_classifier PROTO_DUBBO infer_dubbo_message
proof unfold_locales
  fix env b b' n c
  show "agree_on INFER_DATA_SZ b b' \<Longrightarrow> infer_dubbo_message env b n c = infer_dubbo_message env b' n c"
    by (simp add: infer_dubbo_message_def dubbo_magic_def dubbo_serial_id_def dubbo_event_def
        dubbo_is_req_def dubbo_data_len_def agree_bytes agree_loads(1,2))
qed (simp_all add: infer_dubbo_message_def)

interpretation some_ip: conn_classifier PROTO_SOME_IP infer_some_ip_message
proof unfold_locales
  fix env b b' n c
  show "other_proto PROTO_SOME_IP c \<Longrightarrow>
      fst (infer_some_ip_message env b n c) \<in> {MSG_UNKNOWN, MSG_PRESTORE}"
    by (simp add: infer_some_ip_message_def other_proto_def)
  show "infer_core (snd (infer_some_ip_message env b n c)) = infer_core c"
    by (simp add: infer_some_ip_message_def infer_some_ip_request_def Let_def split_beta if_push
        del: if_split cong: if_cong)
  show "cache_ok c \<Longrightarrow> cache_ok (snd (infer_some_ip_message env b n c))"
    by (simp add: infer_some_ip_message_def infer_some_ip_request_def Let_def split_beta if_push
        del: if_split cong: if_cong)
  show "agree_on INFER_DATA_SZ b b' \<Longrightarrow>
      infer_some_ip_message env b n c = infer_some_ip_message env b' n c"
    by (simp add: infer_some_ip_message_def infer_some_ip_request_def Let_def agree_bytes agree_loads(2)
        del: if_split cong: if_cong)
qed (simp_all add: infer_some_ip_message_def)

lemma fastcgi_header_local:
  assumes "agree_on INFER_DATA_SZ b b'"
  shows "fcgi_type b = fcgi_type b'" "fcgi_content_length b = fcgi_content_length b'"
    "fastcgi_header_common_check b = fastcgi_header_common_check b'"
  using agree_bytes [OF assms] agree_loads(1) [OF assms]
  by (simp_all add: fastcgi_header_common_check_def fcgi_version_def fcgi_type_def
      fcgi_content_length_def fcgi_padding_length_def)

interpretation fastcgi: conn_classifier PROTO_FASTCGI infer_fastcgi_message
proof unfold_locales
  fix env b b' n c
  show "other_proto PROTO_FASTCGI c \<Longrightarrow>
      fst (infer_fastcgi_message env b n c) \<in> {MSG_UNKNOWN, MSG_PRESTORE}"
    by (simp add: infer_fastcgi_message_def other_proto_def)
  show "infer_core (snd (infer_fastcgi_message env b n c)) = infer_core c"
    by (simp add: infer_fastcgi_message_def if_push del: if_split cong: if_cong)
  show "cache_ok c \<Longrightarrow> cache_ok (snd (infer_fastcgi_message env b n c))"
    by (simp add: infer_fastcgi_message_def if_push EBPF_CACHE_SIZE_def del: if_split cong: if_cong)
  show "agree_on INFER_DATA_SZ b b' \<Longrightarrow>
      infer_fastcgi_message env b n c = infer_fastcgi_message env b' n c"
    by (simp add: infer_fastcgi_message_def fastcgi_header_local [of b b'] save_prev_local
        del: if_split cong: if_cong)
qed (simp_all add: infer_fastcgi_message_def)

section \<open>Properties\<close>

lemma sofarpc_resp_status_0: "sofarpc_resp_status b = 0"
proof -
  have "ucast (byte_swap_u32 (ucast (x :: u16))) = (0 :: u16)" for x
    unfolding byte_swap_u32_def bpf_mvb_def
    by (rule bit_word_eqI) (auto simp: bit_simps dest: bit_imp_le_length)
  then show ?thesis by (simp add: sofarpc_resp_status_def)
qed

text \<open>SofaRPC. The response status is byte-swapped as a 32-bit number and cut to 16 bits, which is
  always zero, so the range check on it passes whatever bytes 10 and 11 are: they have no influence
  on the verdict.\<close>

lemma sofarpc_status_unchecked:
  "infer_sofarpc_message env (b(10 := x, 11 := y)) n c = infer_sofarpc_message env b n c"
  by (simp add: infer_sofarpc_message_def sofarpc_first_ok_def sofarpc_first_request_ok_def
      sofarpc_first_response_ok_def sofarpc_resp_status_0 ld_u16_def ld_u32_def Let_def
      del: if_split cong: if_cong)

text \<open>bRPC. A packet of at least twelve bytes with the magic word is taken if and only if the two sizes
  of its header are consistent with each other and the packet is long enough, where the comparison
  with the length is made after adding twelve modulo \<open>2^32\<close>.\<close>

lemma brpc_accepts_iff:
  assumes "12 \<le> n" "protocol_port_check_2 env PROTO_BRPC c" "\<not> other_proto PROTO_BRPC c"
  shows "infer_brpc_message env b n c = MSG_REQUEST \<longleftrightarrow>
    str_at b 0 ''PRPC'' \<and> (be32_nat b 4 + 12) mod 2 ^ 32 \<le> unat n \<and> be32_nat b 8 \<le> be32_nat b 4"
  using assms
  by (auto simp: infer_brpc_message_def Let_def byte_def not_less word_le_nat_alt word_less_nat_alt
      unat_word_ariths numeral_2_eq_2 [symmetric])

text \<open>SOME/IP. A request without return value (message type 1) is never taken as the first message of
  a connection: the test for it repeats the one for message type 0.\<close>

lemma some_ip_no_return_rejected:
  assumes "b 14 = MESSAGE_TYPE_REQUEST_NO_RETURN"
  shows "infer_some_ip_request b n c = (MSG_UNKNOWN, c)"
  using assms
  by (simp add: infer_some_ip_request_def Let_def MESSAGE_TYPE_REQUEST_def MESSAGE_TYPE_TP_REQUEST_def
      MESSAGE_TYPE_REQUEST_NO_RETURN_def MESSAGE_TYPE_TP_REQUEST_NO_RETURN_def)

text \<open>TARS. The field loop reads up to byte 41 of the inference buffer, but not beyond.\<close>

lemma tars_reads_42_bytes:
  assumes "agree_on 42 b b'"
  shows "infer_tars_message env b n c = infer_tars_message env b' n c"
proof -
  have "ld_u32 b 0 = ld_u32 b' 0" using assms by (simp add: agree_on_def ld_u32_def)
  then show ?thesis
    using tars_loop_local [OF assms, of 4 5] by (simp add: infer_tars_message_def TARS_MAX_CHECK_FIELDS_NUM_def)
qed

text \<open>FastCGI. A first message is taken at once only if its header is well formed: version 1, less than
  eight bytes of padding, and contents and padding together a nonzero multiple of eight.\<close>

lemma fastcgi_first_header:
  assumes "\<not> is_infer_socket_valid (ci_socket_info_ptr c)" "ci_prev_count c \<noteq> 8"
    and "fst (infer_fastcgi_message env b n c) \<in> {MSG_REQUEST, MSG_RESPONSE}"
  shows "8 < n \<and> b 0 = 1 \<and> b 6 < 8 \<and> 0 < be16_nat b 4 \<and> 8 dvd (be16_nat b 4 + unat (b 6))"
proof -
  have "fcgi_content_length b \<noteq> 0 \<longleftrightarrow> 0 < be16_nat b 4"
    by (simp add: fcgi_content_length_def word_unat_eq_iff)
  then show ?thesis
    using assms
    by (auto simp: infer_fastcgi_message_def fastcgi_kept_header_def fastcgi_header_common_check_def
        fcgi_version_def fcgi_padding_length_def fcgi_content_length_def mod_eq_0_iff_dvd not_le
        split: if_splits)
qed

end
