(* ===== verification/Infer_Mq.thy ===== *)
theory Infer_Mq
  imports Infer_Contract
begin

text \<open>
  The classifiers of \<^verbatim>\<open>protocol_inference.h\<close> for message queues: MQTT, AMQP, OpenWire, NATS,
  Pulsar, ZMTP, Kafka, RocketMQ and WebSphere MQ.
\<close>

section \<open>MQTT\<close>

text \<open>The loop of \<^verbatim>\<open>mqtt_decoding_length\<close>, \<open>i\<close> iterations left, on the bytes after the first. The
  accumulators are 32-bit; the result is the pair of \<^verbatim>\<open>*length\<close> and \<^verbatim>\<open>*lensize\<close>, or \<open>None\<close>
  where the function returns false.\<close>

fun mqtt_length_loop :: "nat \<Rightarrow> buf \<Rightarrow> u32 \<Rightarrow> u32 \<Rightarrow> nat \<Rightarrow> (u32 \<times> nat) option" where
  "mqtt_length_loop 0 buffer multiplier len lensize = None"
| "mqtt_length_loop (Suc i) buffer multiplier len lensize =
     (let digit = buffer lensize;
          lensize' = lensize + 1;
          len' = len + ucast (digit AND 127) * multiplier;
          multiplier' = multiplier * 128
      in if lensize' > 4 then None
         else if digit AND 128 = 0 then Some (len', lensize')
         else mqtt_length_loop i buffer multiplier' len' lensize')"

definition mqtt_decoding_length :: "buf \<Rightarrow> (u32 \<times> nat) option" where
  "mqtt_decoding_length buffer = mqtt_length_loop 32 (shift_buf buffer 1) 1 0 0"

definition mqtt_decoding_message_type :: "buf \<Rightarrow> u8 option" where
  "mqtt_decoding_message_type buffer =
     (let message_type = drop_bit 4 (buffer 0) AND 0x0F
      in if message_type \<noteq> 0 then Some message_type else None)"

definition mqtt_length_fits :: "u8 \<Rightarrow> int \<Rightarrow> bool" where
  "mqtt_length_fits mqtt_type len =
     (if (mqtt_type = 1 \<or> mqtt_type = 3) \<and> len < 4 then False
      else if (mqtt_type = 2 \<or> mqtt_type = 4 \<or> mqtt_type = 5 \<or> mqtt_type = 6 \<or> mqtt_type = 7 \<or>
               mqtt_type = 11) \<and> len \<noteq> 2
      then False
      else if (mqtt_type = 8 \<or> mqtt_type = 9 \<or> mqtt_type = 10) \<and> len < 3 then False
      else if (mqtt_type = 12 \<or> mqtt_type = 13 \<or> mqtt_type = 14) \<and> len \<noteq> 0 then False
      else True)"

definition infer_mqtt_message :: "bpf_env \<Rightarrow> buf \<Rightarrow> u64 \<Rightarrow> conn_info_s \<Rightarrow> message_type" where
  "infer_mqtt_message env b count c =
     (if count < 4 then MSG_UNKNOWN
      else if \<not> protocol_port_check_2 env PROTO_MQTT c then MSG_UNKNOWN
      else if other_proto PROTO_MQTT c then MSG_UNKNOWN
      else case mqtt_decoding_message_type b of
        None \<Rightarrow> MSG_UNKNOWN
      | Some mqtt_type \<Rightarrow>
          (case mqtt_decoding_length b of
             None \<Rightarrow> MSG_UNKNOWN
           | Some (len, lensize) \<Rightarrow>
               if scast (1 + of_nat lensize + len :: u32) \<noteq> count then MSG_UNKNOWN
               else if \<not> mqtt_length_fits mqtt_type (sint len) then MSG_UNKNOWN
               else if mqtt_type = 1 \<or> mqtt_type = 3 \<or> mqtt_type = 8 \<or> mqtt_type = 10 \<or>
                       mqtt_type = 12 \<or> mqtt_type = 14 \<or> mqtt_type = 15
               then MSG_REQUEST
               else MSG_RESPONSE))"

section \<open>AMQP\<close>

text \<open>The methods of each class: the switch on \<^verbatim>\<open>method_id\<close>.\<close>

definition amqp_switch :: "int list \<Rightarrow> int list \<Rightarrow> int \<Rightarrow> message_type" where
  "amqp_switch requests responses method_id =
     (if method_id \<in> set requests then MSG_REQUEST
      else if method_id \<in> set responses then MSG_RESPONSE
      else MSG_UNKNOWN)"

definition amqp_method :: "int \<Rightarrow> int \<Rightarrow> message_type" where
  "amqp_method class_id method_id =
     (if class_id = 10 then
        amqp_switch [10, 20, 30, 40, 50, 70, 60, 61] [11, 21, 31, 41, 51, 71] method_id
      else if class_id = 20 then amqp_switch [10, 20, 40] [11, 21, 41] method_id
      else if class_id = 40 then amqp_switch [10, 20, 30, 40] [11, 21, 31, 51] method_id
      else if class_id = 50 then amqp_switch [10, 20, 30, 40, 50] [11, 21, 31, 41, 51] method_id
      else if class_id = 60 then
        amqp_switch [10, 20, 30, 70, 110, 40, 50, 60, 80, 90, 100, 120] [11, 21, 31, 71, 72, 111]
          method_id
      else if class_id = 90 then amqp_switch [10, 20, 30] [11, 21, 31] method_id
      else if class_id = 85 then amqp_switch [10] [11] method_id
      else MSG_UNKNOWN)"

definition amqp_header :: "u8 list" where
  "amqp_header = map byte ''AMQP'' @ [0x00, 0x00, 0x09, 0x01]"

definition infer_amqp_message :: "bpf_env \<Rightarrow> buf \<Rightarrow> u64 \<Rightarrow> conn_info_s \<Rightarrow> message_type" where
  "infer_amqp_message env b count c =
     (if count < 8 then MSG_UNKNOWN
      else if \<not> protocol_port_check_2 env PROTO_AMQP c then MSG_UNKNOWN
      else if other_proto PROTO_AMQP c then MSG_UNKNOWN
      else if list_all (\<lambda>i. b i = amqp_header ! i) [0..<8] then MSG_REQUEST
      else if \<not> is_infer_socket_valid (ci_socket_info_ptr c) \<or> sock_l7_proto c \<noteq> PROTO_AMQP
      then MSG_UNKNOWN
      else if b 0 = 0x1 then
        (if count < 12 then MSG_UNKNOWN
         else amqp_method (sint (bpf_ntohs (ld_u16 b 7))) (sint (bpf_ntohs (ld_u16 b 9))))
      else if b 0 = 0x2 then MSG_REQUEST
      else if b 0 = 0x3 then MSG_REQUEST
      else if b 0 = 0x8 then MSG_REQUEST
      else MSG_UNKNOWN)"

section \<open>OpenWire\<close>

definition OPENWIRE_LOOSE_ENCODING :: u8 where "OPENWIRE_LOOSE_ENCODING = 0x00"
definition OPENWIRE_TIGHT_ENCODING :: u8 where "OPENWIRE_TIGHT_ENCODING = 0x01"
definition ACTIVEMQ_MAGIC_1 :: u32 where "ACTIVEMQ_MAGIC_1 = 0x41637469"
definition ACTIVEMQ_MAGIC_2 :: u32 where "ACTIVEMQ_MAGIC_2 = 0x76654d51"

text \<open>The classification by command type that ends \<^verbatim>\<open>decode_openwire\<close>.\<close>

definition openwire_command :: "u8 \<Rightarrow> message_type" where
  "openwire_command cmd_type =
     (if cmd_type = 0 then MSG_UNKNOWN
      else if cmd_type \<le> 0x0c \<or> (0x0e \<le> cmd_type \<and> cmd_type \<le> 0x1d) \<or> cmd_type = 0x28 \<or>
              cmd_type = 0x37 \<or> cmd_type = 0x3c \<or> cmd_type = 0x3d \<or> cmd_type = 0x41 \<or>
              cmd_type = 0x5a
      then MSG_REQUEST
      else if 0x1e \<le> cmd_type \<and> cmd_type \<le> 0x22 then MSG_RESPONSE
      else MSG_UNKNOWN)"

text \<open>The strict checks after the command type, \<open>p\<close> being the offset of \<^verbatim>\<open>cur_buf\<close>: \<open>False\<close> is
  \<^verbatim>\<open>return MSG_UNKNOWN\<close>.\<close>

definition openwire_tight_ok :: "buf \<Rightarrow> nat \<Rightarrow> bool \<Rightarrow> u32 \<Rightarrow> bool" where
  "openwire_tight_ok b p is_size_prefix_disabled command_length =
     (let s0 = ucast (b p) :: u16;
          stream_size = (if s0 = 0xC0 then ucast (b (p + 1))
                         else if s0 = 0x80 then ld_u16 b (p + 1) else s0);
          p' = (if s0 = 0xC0 then p + 2 else if s0 = 0x80 then p + 3 else p + 1)
      in if stream_size = 0 then False
         else if \<not> is_size_prefix_disabled \<and> p' + unat stream_size > unat (4 + command_length)
         then False else True)"

definition decode_openwire :: "buf \<Rightarrow> u64 \<Rightarrow> bool \<Rightarrow> bool \<Rightarrow> bool \<Rightarrow> message_type" where
  "decode_openwire b count is_size_prefix_disabled is_tight_encoding_enabled strict_check =
     (let min_length = 6 + (if is_tight_encoding_enabled then 1 else 0) +
                       (if \<not> is_size_prefix_disabled then 4 else 0) :: u32;
          command_length = (if \<not> is_size_prefix_disabled then bpf_ntohl (ld_u32 b 0) else 0);
          p = (if \<not> is_size_prefix_disabled then 4 else 0 :: nat);
          cmd_type = b p
      in if count < ucast min_length then MSG_UNKNOWN
         else if \<not> is_size_prefix_disabled \<and> strict_check \<and>
                 (command_length < min_length - 4 \<or> ucast (command_length + 4) \<noteq> count)
         then MSG_UNKNOWN
         else if cmd_type = 1 then
           (if count < 13 then MSG_UNKNOWN
            else if bpf_ntohl (ld_u32 b (p + 1)) \<noteq> ACTIVEMQ_MAGIC_1 \<or>
                    bpf_ntohl (ld_u32 b (p + 5)) \<noteq> ACTIVEMQ_MAGIC_2
            then MSG_UNKNOWN else MSG_REQUEST)
         else if strict_check \<and> is_tight_encoding_enabled \<and>
                 \<not> openwire_tight_ok b (p + 1) is_size_prefix_disabled command_length
         then MSG_UNKNOWN
         else if strict_check \<and> \<not> is_tight_encoding_enabled \<and> b (p + 5) \<noteq> 0x00 \<and> b (p + 5) \<noteq> 0x01
         then MSG_UNKNOWN
         else openwire_command cmd_type)"

definition infer_openwire_message ::
    "bpf_env \<Rightarrow> buf \<Rightarrow> u64 \<Rightarrow> conn_info_s \<Rightarrow> message_type \<times> conn_info_s" where
  "infer_openwire_message env b count c =
     (if count < 4 then (MSG_UNKNOWN, c)
      else if \<not> protocol_port_check_2 env PROTO_OPENWIRE c then (MSG_UNKNOWN, c)
      else if other_proto PROTO_OPENWIRE c then (MSG_UNKNOWN, c)
      else
        (let c1 = (if is_infer_socket_valid (ci_socket_info_ptr c)
                   then c\<lparr>ci_correlation_id :=
                            set_encoding_type
                              (encoding_type (si_correlation_id (the (ci_socket_info_ptr c))))
                              (ci_correlation_id c)\<rparr>
                   else c);
             enc = encoding_type (ci_correlation_id c1)
         in if enc \<noteq> OPENWIRE_LOOSE_ENCODING \<and> enc \<noteq> OPENWIRE_TIGHT_ENCODING then
              (let loose = decode_openwire b count False False True;
                   tight = decode_openwire b count False True True
               in if loose \<noteq> MSG_UNKNOWN then
                    (loose, c1\<lparr>ci_correlation_id :=
                       set_encoding_type OPENWIRE_LOOSE_ENCODING (ci_correlation_id c1)\<rparr>)
                  else if tight \<noteq> MSG_UNKNOWN then
                    (tight, c1\<lparr>ci_correlation_id :=
                       set_encoding_type OPENWIRE_TIGHT_ENCODING (ci_correlation_id c1)\<rparr>)
                  else (MSG_UNKNOWN, c1))
            else
              (let t = decode_openwire b count False (enc \<noteq> 0) False
               in if t \<noteq> MSG_UNKNOWN then (t, c1) else (MSG_CLEAR, c1))))"

section \<open>NATS\<close>

text \<open>A byte equal to a letter in upper or lower case, and a blank or tab.\<close>

definition ci_eq :: "u8 \<Rightarrow> char \<Rightarrow> char \<Rightarrow> bool" where
  "ci_eq x u l \<longleftrightarrow> x = byte u \<or> x = byte l"

definition is_blank :: "u8 \<Rightarrow> bool" where
  "is_blank x \<longleftrightarrow> x = byte CHR '' '' \<or> x = byte CHR 0x09"

text \<open>The loop over the positions \<open>20 - n, \<dots>, 19\<close> behind the keyword.\<close>

fun nats_brace_loop :: "nat \<Rightarrow> buf \<Rightarrow> bool" where
  "nats_brace_loop 0 b = False"
| "nats_brace_loop (Suc n) b =
     (let p = 20 - Suc n
      in if b p = byte CHR ''{'' then True
         else if \<not> is_blank (b p) then False
         else nats_brace_loop n b)"

definition nats_check_info :: "buf \<Rightarrow> u64 \<Rightarrow> bool" where
  "nats_check_info b count =
     (if count < 6 then False
      else if \<not> ci_eq (b 0) CHR ''I'' CHR ''i'' then False
      else if \<not> ci_eq (b 1) CHR ''N'' CHR ''n'' then False
      else if \<not> ci_eq (b 2) CHR ''F'' CHR ''f'' then False
      else if \<not> ci_eq (b 3) CHR ''O'' CHR ''o'' then False
      else if \<not> is_blank (b 4) then False
      else nats_brace_loop 15 b)"

definition nats_check_connect :: "buf \<Rightarrow> u64 \<Rightarrow> bool" where
  "nats_check_connect b count =
     (if count < 8 then False
      else if \<not> ci_eq (b 0) CHR ''C'' CHR ''c'' then False
      else if \<not> ci_eq (b 1) CHR ''O'' CHR ''o'' then False
      else if \<not> ci_eq (b 2) CHR ''N'' CHR ''n'' then False
      else if \<not> ci_eq (b 3) CHR ''N'' CHR ''n'' then False
      else if \<not> ci_eq (b 4) CHR ''E'' CHR ''e'' then False
      else if \<not> ci_eq (b 5) CHR ''C'' CHR ''c'' then False
      else if \<not> ci_eq (b 6) CHR ''T'' CHR ''t'' then False
      else if \<not> is_blank (b 7) then False
      else nats_brace_loop 12 b)"

text \<open>The remaining keywords, in the order of the code.\<close>

definition nats_keyword :: "buf \<Rightarrow> u64 \<Rightarrow> message_type" where
  "nats_keyword b count =
     (if ci_eq (b 0) CHR ''P'' CHR ''p'' \<and> ci_eq (b 1) CHR ''U'' CHR ''u'' \<and>
         ci_eq (b 2) CHR ''B'' CHR ''b'' \<and> is_blank (b 3) then MSG_REQUEST
      else if ci_eq (b 0) CHR ''H'' CHR ''h'' \<and> ci_eq (b 1) CHR ''P'' CHR ''p'' \<and>
         ci_eq (b 2) CHR ''U'' CHR ''u'' \<and> ci_eq (b 3) CHR ''B'' CHR ''b'' \<and> is_blank (b 4)
      then MSG_REQUEST
      else if ci_eq (b 0) CHR ''S'' CHR ''s'' \<and> ci_eq (b 1) CHR ''U'' CHR ''u'' \<and>
         ci_eq (b 2) CHR ''B'' CHR ''b'' \<and> is_blank (b 3) then MSG_REQUEST
      else if ci_eq (b 0) CHR ''M'' CHR ''m'' \<and> ci_eq (b 1) CHR ''S'' CHR ''s'' \<and>
         ci_eq (b 2) CHR ''G'' CHR ''g'' \<and> is_blank (b 3) then MSG_REQUEST
      else if ci_eq (b 0) CHR ''H'' CHR ''h'' \<and> ci_eq (b 1) CHR ''M'' CHR ''m'' \<and>
         ci_eq (b 2) CHR ''S'' CHR ''s'' \<and> ci_eq (b 3) CHR ''G'' CHR ''g'' \<and> is_blank (b 4)
      then MSG_REQUEST
      else if ci_eq (b 0) CHR ''P'' CHR ''p'' \<and> ci_eq (b 1) CHR ''I'' CHR ''i'' \<and>
         ci_eq (b 2) CHR ''N'' CHR ''n'' \<and> ci_eq (b 3) CHR ''G'' CHR ''g'' then MSG_REQUEST
      else if ci_eq (b 0) CHR ''P'' CHR ''p'' \<and> ci_eq (b 1) CHR ''O'' CHR ''o'' \<and>
         ci_eq (b 2) CHR ''N'' CHR ''n'' \<and> ci_eq (b 3) CHR ''G'' CHR ''g'' then MSG_RESPONSE
      else if b 0 = byte CHR ''+'' \<and> ci_eq (b 1) CHR ''O'' CHR ''o'' \<and>
         ci_eq (b 2) CHR ''K'' CHR ''k'' then MSG_REQUEST
      else if b 0 = byte CHR ''-'' \<and> ci_eq (b 1) CHR ''E'' CHR ''e'' \<and>
         ci_eq (b 2) CHR ''R'' CHR ''r'' \<and> ci_eq (b 3) CHR ''R'' CHR ''r'' \<and> is_blank (b 4)
      then MSG_REQUEST
      else if count < 6 then MSG_UNKNOWN
      else if ci_eq (b 0) CHR ''U'' CHR ''u'' \<and> ci_eq (b 1) CHR ''N'' CHR ''n'' \<and>
         ci_eq (b 2) CHR ''S'' CHR ''s'' \<and> ci_eq (b 3) CHR ''U'' CHR ''u'' \<and>
         ci_eq (b 4) CHR ''B'' CHR ''b'' \<and> is_blank (b 5) then MSG_REQUEST
      else MSG_UNKNOWN)"

definition infer_nats_message ::
    "bpf_env \<Rightarrow> buf \<Rightarrow> u64 \<Rightarrow> u64 \<Rightarrow> u32 \<Rightarrow> conn_info_s \<Rightarrow> message_type" where
  "infer_nats_message env b count ptr infer_len c =
     (if count < 5 then MSG_UNKNOWN
      else if \<not> protocol_port_check_2 env PROTO_NATS c then MSG_UNKNOWN
      else if other_proto PROTO_NATS c then MSG_UNKNOWN
      else
        (let buffer = read_user env (\<lambda>_. 0) 2 (ptr + ucast infer_len - 2)
         in if \<not> is_infer_socket_valid (ci_socket_info_ptr c) \<and>
               (buffer 0 \<noteq> 0x0D \<or> buffer 1 \<noteq> 0x0A)
            then MSG_UNKNOWN
            else if nats_check_info b count then MSG_REQUEST
            else if nats_check_connect b count then MSG_RESPONSE
            else nats_keyword b count))"

section \<open>Pulsar\<close>

text \<open>Assignment to a \<^verbatim>\<open>short\<close>, and one byte read from user memory.\<close>

definition s16 :: "int \<Rightarrow> int" where "s16 x = sint (word_of_int x :: u16)"

definition user_byte :: "bpf_env \<Rightarrow> u64 \<Rightarrow> u8" where
  "user_byte env a = read_user env (\<lambda>_. 0) 1 a 0"

text \<open>The field \<^verbatim>\<open>type = 1\<close> of a \<^verbatim>\<open>BaseCommand\<close>: a one or two byte varint behind the tag. \<open>None\<close> is
  \<^verbatim>\<open>return false\<close>; otherwise the new position and \<^verbatim>\<open>type_v\<close>.\<close>

definition pulsar_type_field :: "bpf_env \<Rightarrow> u64 \<Rightarrow> u64 \<Rightarrow> u8 \<Rightarrow> (u64 \<times> int) option" where
  "pulsar_type_field env target p wire_type =
     (if wire_type \<noteq> 0 then None
      else if p = target then None
      else
        (let tmp = user_byte env p; type_v = uint tmp
         in if tmp AND 0x80 \<noteq> 0 then
              (if p + 1 = target then None
               else
                 (let tmp' = user_byte env (p + 1)
                  in if tmp' AND 0x80 \<noteq> 0 then None
                     else Some (p + 2, s16 (type_v OR push_bit 7 (uint tmp')))))
            else Some (p + 1, type_v)))"

text \<open>Any other field: the tag, continued in a second byte if the top bit is set, and the length
  of its contents, which are skipped.\<close>

definition pulsar_skip_field :: "bpf_env \<Rightarrow> u64 \<Rightarrow> u64 \<Rightarrow> int \<Rightarrow> (u64 \<times> int) option" where
  "pulsar_skip_field env target p tag =
     (if p = target then None
      else
        (let tmp = user_byte env p; len = uint (tmp AND 0x7f)
         in if tmp AND 0x80 \<noteq> 0 then
              (if p + 1 = target then None
               else
                 (let tmp' = user_byte env (p + 1)
                  in if tmp' AND 0x80 \<noteq> 0 then None
                     else Some (p + 2 + word_of_int (s16 (len OR push_bit 7 (uint tmp'))), tag)))
            else Some (p + 1 + word_of_int len, tag)))"

definition pulsar_command_field ::
    "bpf_env \<Rightarrow> u64 \<Rightarrow> u64 \<Rightarrow> u8 \<Rightarrow> int \<Rightarrow> u8 \<Rightarrow> (u64 \<times> int) option" where
  "pulsar_command_field env target p tmp tag wire_type =
     (let two = (tmp AND 0x80 \<noteq> 0);
          tmp' = user_byte env p;
          tag' = (if two then s16 (tag OR push_bit 4 (uint tmp')) else tag);
          p' = (if two then p + 1 else p)
      in if two \<and> p = target then None
         else if two \<and> tmp' AND 0x80 \<noteq> 0 then None
         else if tag' < 2 \<or> tag' > 68 then None
         else if wire_type \<noteq> 2 then None
         else pulsar_skip_field env target p' tag')"

fun pulsar_field_loop :: "nat \<Rightarrow> bpf_env \<Rightarrow> u64 \<Rightarrow> u64 \<Rightarrow> int \<Rightarrow> int \<Rightarrow> bool" where
  "pulsar_field_loop 0 env target p type_v command_tag =
     (if type_v = -1 \<or> command_tag = -1 then False
      else if p \<noteq> target then False
      else type_v = command_tag)"
| "pulsar_field_loop (Suc i) env target p type_v command_tag =
     (if p = target then False
      else
        (let tmp = user_byte env p; tag = uint (drop_bit 3 tmp); wire_type = tmp AND 0x07
         in if tag = 1 then
              (case pulsar_type_field env target (p + 1) wire_type of
                 None \<Rightarrow> False
               | Some (p', t) \<Rightarrow> pulsar_field_loop i env target p' t command_tag)
            else
              (case pulsar_command_field env target (p + 1) tmp tag wire_type of
                 None \<Rightarrow> False
               | Some (p', t) \<Rightarrow> pulsar_field_loop i env target p' type_v t)))"

definition pulsar_check_basecommand :: "bpf_env \<Rightarrow> u64 \<Rightarrow> u64 \<Rightarrow> bool" where
  "pulsar_check_basecommand env buf_src count =
     (if count = 0 then False
      else pulsar_field_loop 2 env (buf_src + count) buf_src (-1) (-1))"

definition user_be32_s16 :: "bpf_env \<Rightarrow> u64 \<Rightarrow> int" where
  "user_be32_s16 env a = s16 (uint (bpf_ntohl (ld_u32 (read_user env (\<lambda>_. 0) 4 a) 0)))"

text \<open>From the optional broker entry to the end: \<open>offset\<close> has been moved past the two magic
  bytes at \<open>offset - 2\<close>.\<close>

definition pulsar_metadata :: "bpf_env \<Rightarrow> u64 \<Rightarrow> int \<Rightarrow> int \<Rightarrow> int \<Rightarrow> u8 \<Rightarrow> u8 \<Rightarrow> message_type" where
  "pulsar_metadata env ptr total_size limit offset m0 m1 =
     (if m0 \<noteq> 0x0e \<or> m1 \<noteq> 0x01 then MSG_UNKNOWN
      else
        (let offset1 = s16 (offset + 4)
         in if offset1 + 4 > limit then MSG_UNKNOWN
            else
              (let metadata_size = user_be32_s16 env (ptr + word_of_int offset1);
                   offset2 = s16 (offset1 + 4)
               in if offset2 + metadata_size > total_size + 4 then MSG_UNKNOWN
                  else MSG_REQUEST)))"

definition infer_pulsar_message ::
    "bpf_env \<Rightarrow> u64 \<Rightarrow> u32 \<Rightarrow> u32 \<Rightarrow> conn_info_s \<Rightarrow> message_type" where
  "infer_pulsar_message env ptr infer_len count c =
     (if infer_len < 8 then MSG_UNKNOWN
      else if \<not> protocol_port_check_2 env PROTO_PULSAR c then MSG_UNKNOWN
      else if other_proto PROTO_PULSAR c then MSG_UNKNOWN
      else
        (let total_size = user_be32_s16 env ptr;
             command_size = user_be32_s16 env (ptr + 4)
         in if total_size < command_size + 4 then MSG_UNKNOWN
            else if is_infer_socket_valid (ci_socket_info_ptr c) then
              (if sock_l7_proto c = PROTO_PULSAR then MSG_REQUEST else MSG_UNKNOWN)
            else if count < word_of_int (total_size + 4) then MSG_UNKNOWN
            else
              (let limit = s16 (if word_of_int (total_size + 4) < infer_len then total_size + 4
                                else uint infer_len)
               in if \<not> pulsar_check_basecommand env (ptr + 8) (word_of_int command_size)
                  then MSG_UNKNOWN
                  else
                    (let offset = s16 (8 + command_size)
                     in if offset = total_size + 4 then MSG_REQUEST
                        else if offset + 2 > limit then MSG_UNKNOWN
                        else
                          (let magic = read_user env (\<lambda>_. 0) 2 (ptr + word_of_int offset);
                               offset2 = s16 (offset + 2)
                           in if magic 0 = 0x0e \<and> magic 1 = 0x02 then
                                (if offset2 + 4 > limit then MSG_UNKNOWN
                                 else
                                   (let broker_entry_size =
                                          user_be32_s16 env (ptr + word_of_int offset2);
                                        offset3 = s16 (offset2 + 4)
                                    in if offset3 + broker_entry_size > limit then MSG_UNKNOWN
                                       else
                                         (let offset4 = s16 (offset3 + broker_entry_size)
                                          in if offset4 + 2 > limit then MSG_UNKNOWN
                                             else
                                               (let magic2 = read_user env (\<lambda>_. 0) 2
                                                      (ptr + word_of_int offset4)
                                                in pulsar_metadata env ptr total_size limit
                                                     (s16 (offset4 + 2)) (magic2 0) (magic2 1)))))
                              else pulsar_metadata env ptr total_size limit offset2
                                     (magic 0) (magic 1))))))"

section \<open>ZMTP\<close>

definition check_zmtp_mechanism :: "buf \<Rightarrow> bool" where
  "check_zmtp_mechanism b =
     (if b 0 = byte CHR ''N'' \<and> b 1 = byte CHR ''U'' \<and> b 2 = byte CHR ''L'' \<and> b 3 = byte CHR ''L''
      then True
      else if b 0 = byte CHR ''P'' \<and> b 1 = byte CHR ''L'' \<and> b 2 = byte CHR ''A'' \<and>
              b 3 = byte CHR ''I'' \<and> b 4 = byte CHR ''N''
      then True
      else if b 0 = byte CHR ''C'' \<and> b 1 = byte CHR ''U'' \<and> b 2 = byte CHR ''R'' \<and>
              b 3 = byte CHR ''V'' \<and> b 4 = byte CHR ''E''
      then True
      else False)"

text \<open>The second or third segment calls \<^verbatim>\<open>check_zmtp_mechanism\<close> and drops its result, so both
  ways through it end in the final \<^verbatim>\<open>return false\<close>.\<close>

definition check_zmtp_greeting :: "buf \<Rightarrow> u64 \<Rightarrow> conn_info_s \<Rightarrow> bool" where
  "check_zmtp_greeting b count c =
     (let first = (count \<ge> 10 \<and> b 0 = 0xff \<and> b 9 = 0x7f)
      in if first \<and> count = 10 then True
         else if first \<and> count = 11 \<and> b 10 = 3 then True
         else if first \<and> count \<ge> 12 \<and> b 10 = 3 \<and> sint (b 11) \<le> 1
         then check_zmtp_mechanism (shift_buf b 12)
         else if count = 54 \<or> count = 53 then
           (if count \<noteq> 54 \<and> ci_prev_count c \<noteq> 1 then False
            else
              (let major_version = (if count = 54 then b 0 else ci_prev_buf c 0);
                   offset = (if count = 54 then 1 else 0 :: nat);
                   minor_version = b offset;
                   dropped = (major_version = 3 \<and> minor_version \<le> 1 \<and>
                              check_zmtp_mechanism (shift_buf b (offset + 1)))
               in if dropped then False else False))
         else False)"

text \<open>The length of a long frame: the high word zero, the low word between 256 and \<open>2^31 - 1\<close>.\<close>

definition zmtp_long_len :: "buf \<Rightarrow> nat \<Rightarrow> u32 option" where
  "zmtp_long_len b offset =
     (let hi = bpf_ntohl (ld_u32 b offset); lo = bpf_ntohl (ld_u32 b (offset + 4))
      in if hi \<noteq> 0 \<or> lo < 256 \<or> lo > 0x7fffffff then None else Some lo)"

definition zmtp_command_ok :: "bpf_env \<Rightarrow> buf \<Rightarrow> u64 \<Rightarrow> u64 \<Rightarrow> bool \<Rightarrow> bool \<Rightarrow> bool" where
  "zmtp_command_ok env b count ptr long_frame strict_check =
     (let frame = (if long_frame then map_option (\<lambda>lo. (lo, 9 :: nat)) (zmtp_long_len b 1)
                   else Some (scast (b 1), 2))
      in case frame of
           None \<Rightarrow> False
         | Some (frame_size, offset) \<Rightarrow>
             if strict_check then
               (if ucast (of_nat offset + frame_size :: u32) \<noteq> count then False
                else
                  (let cmd_name_len = b offset; offset' = of_nat (offset + 1) :: u32
                   in if ucast (offset' + ucast cmd_name_len) > count \<or> cmd_name_len < 5 then False
                      else
                        (let cmd = probe_read_user env (ptr + ucast offset') 5
                         in if fst cmd \<noteq> 0 then False
                            else list_all (\<lambda>i. \<not> (sint (snd cmd i) < 65 \<or> sint (snd cmd i) > 90))
                                   [0..<5])))
             else True)"

fun zmtp_frames_loop :: "nat \<Rightarrow> bpf_env \<Rightarrow> u64 \<Rightarrow> u64 \<Rightarrow> u32 \<Rightarrow> bool" where
  "zmtp_frames_loop 0 env ptr infer_len offset = False"
| "zmtp_frames_loop (Suc i) env ptr infer_len offset =
     (let st = probe_read_user env (ptr + ucast offset) 1;
          size_type = snd st 0;
          offset1 = offset + 1;
          long_frame = (size_type AND 0x02 \<noteq> 0);
          more_frame = (size_type AND 0x01 \<noteq> 0)
      in if ucast (offset + 1) > infer_len \<or> fst st \<noteq> 0 then False
         else if size_type AND 0xf8 \<noteq> 0 then False
         else if size_type AND 0x04 \<noteq> 0 then False
         else
           (let digit = probe_read_user env (ptr + ucast offset1) 8;
                len = probe_read_user env (ptr + ucast offset1) 1;
                frame =
                  (if long_frame then
                     (if ucast (offset1 + 8) > infer_len \<or> fst digit \<noteq> 0 then None
                      else map_option (\<lambda>lo. (lo, offset1 + 8)) (zmtp_long_len (snd digit) 0))
                   else if ucast (offset1 + 1) > infer_len \<or> fst len \<noteq> 0 then None
                   else Some (ucast (snd len 0), offset1 + 1))
            in case frame of
                 None \<Rightarrow> False
               | Some (frame_size, offset2) \<Rightarrow>
                   (let offset3 = offset2 + frame_size
                    in if \<not> more_frame then ucast offset3 = infer_len
                       else zmtp_frames_loop i env ptr infer_len offset3)))"

definition check_zmtp_segment :: "bpf_env \<Rightarrow> buf \<Rightarrow> u64 \<Rightarrow> u64 \<Rightarrow> u64 \<Rightarrow> bool \<Rightarrow> bool" where
  "check_zmtp_segment env b count ptr infer_len strict_check =
     (if count \<le> 4 then False
      else
        (let size_type = b 0;
             is_command = (size_type AND 0x04 \<noteq> 0);
             long_frame = (size_type AND 0x02 \<noteq> 0);
             more_frame = (size_type AND 0x01 \<noteq> 0)
         in if size_type AND 0xf8 \<noteq> 0 then False
            else if long_frame \<and> count < 10 then False
            else if more_frame \<and> count < 6 then False
            else if is_command then
              (if more_frame then False
               else zmtp_command_ok env b count ptr long_frame strict_check)
            else if strict_check then zmtp_frames_loop 5 env ptr infer_len 0
            else if long_frame then zmtp_long_len b 1 \<noteq> None
            else True))"

definition infer_zmtp_message ::
    "bpf_env \<Rightarrow> buf \<Rightarrow> u64 \<Rightarrow> u64 \<Rightarrow> u64 \<Rightarrow> conn_info_s \<Rightarrow> message_type \<times> conn_info_s" where
  "infer_zmtp_message env b count syscall_infer_addr syscall_infer_len c =
     (if \<not> protocol_port_check_2 env PROTO_ZMTP c then (MSG_UNKNOWN, c)
      else if count = 1 then
        (if b 0 \<noteq> 3 then (MSG_UNKNOWN, c)
         else (MSG_PRESTORE, save_prev_data_from_kern b c (unat count)))
      else if is_infer_socket_valid (ci_socket_info_ptr c) then
        (if sock_l7_proto c \<noteq> PROTO_ZMTP then (MSG_UNKNOWN, c)
         else if check_zmtp_greeting b count c \<or>
                 check_zmtp_segment env b count syscall_infer_addr syscall_infer_len False
         then (MSG_REQUEST, c)
         else (MSG_UNKNOWN, c))
      else if check_zmtp_greeting b count c \<or>
              check_zmtp_segment env b count syscall_infer_addr syscall_infer_len True
      then (MSG_REQUEST, c)
      else (MSG_UNKNOWN, c))"

section \<open>Kafka\<close>

definition RequestAPIKeyMax :: int where "RequestAPIKeyMax = 67"
definition RequestAPIVerMax :: int where "RequestAPIVerMax = 13"

text \<open>The switch on the API key: the highest version of the requests taken as a first message.\<close>

definition kafka_version_max :: "int \<Rightarrow> int option" where
  "kafka_version_max request_api_key =
     (if request_api_key = 0 then Some 9
      else if request_api_key = 1 then Some 13
      else if request_api_key = 2 then Some 7
      else if request_api_key = 3 then Some 12
      else if request_api_key = 12 then Some 4
      else None)"

definition infer_kafka_request :: "buf \<Rightarrow> bool \<Rightarrow> conn_info_s \<Rightarrow> message_type \<times> conn_info_s" where
  "infer_kafka_request b is_first c =
     (let request_api_key = sint (bpf_ntohs (ld_u16 b 0));
          request_api_version = sint (bpf_ntohs (ld_u16 b 2));
          correlation_id = bpf_ntohl (ld_u32 b 4)
      in if request_api_key < 0 \<or> request_api_key > RequestAPIKeyMax then (MSG_UNKNOWN, c)
         else if request_api_version < 0 \<or> request_api_version > RequestAPIVerMax then (MSG_UNKNOWN, c)
         else if (case kafka_version_max request_api_key of
                    Some v \<Rightarrow> request_api_version > v | None \<Rightarrow> is_first)
         then (MSG_UNKNOWN, c)
         else if sint correlation_id < 0 then (MSG_UNKNOWN, c)
         else (MSG_REQUEST, c\<lparr>ci_correlation_id := correlation_id\<rparr>))"

text \<open>The result and \<^verbatim>\<open>*use_prev_buf\<close>. The total length is truncated to 32 bits and compared as a
  signed number.\<close>

definition kafka_data_check_len :: "u64 \<Rightarrow> buf \<Rightarrow> conn_info_s \<Rightarrow> bool \<times> bool" where
  "kafka_data_check_len count0 b c =
     (let use_prev_buf = (ci_prev_count c = 4 \<and> ucast (bpf_ntohl (ld_u32 (ci_prev_buf c) 0)) = count0);
          count = (if use_prev_buf then count0 + 4 else count0);
          message_size = (if use_prev_buf then ucast count else bpf_ntohl (ld_u32 b 0) + 4 :: u32)
      in if count < 12 then (False, use_prev_buf)
         else if sint message_size < 0 \<or> count \<noteq> scast message_size then (False, use_prev_buf)
         else (True, use_prev_buf))"

definition infer_kafka_message ::
    "bpf_env \<Rightarrow> buf \<Rightarrow> u64 \<Rightarrow> conn_info_s \<Rightarrow> message_type \<times> conn_info_s" where
  "infer_kafka_message env b count c =
     (if \<not> protocol_port_check_1 env PROTO_KAFKA c then (MSG_UNKNOWN, c)
      else if count = 4 then (MSG_PRESTORE, save_prev_data_from_kern b c 4)
      else
        (case kafka_data_check_len count b c of
           (ok, use_prev_buf) \<Rightarrow>
             if \<not> ok then (MSG_UNKNOWN, c)
             else
               (let valid = is_infer_socket_valid (ci_socket_info_ptr c);
                    msg_buf = (if use_prev_buf then b else shift_buf b 4);
                    c1 = (if valid
                          then c\<lparr>ci_need_reconfirm := si_need_reconfirm (the (ci_socket_info_ptr c))\<rparr>
                          else c\<lparr>ci_need_reconfirm := True\<rparr>)
                in if valid \<and> sock_l7_proto c \<noteq> PROTO_KAFKA then (MSG_UNKNOWN, c)
                   else if valid \<and> \<not> ci_need_reconfirm c1 then
                     (if (ci_role c1 = ROLE_CLIENT \<and> ci_direction c1 = T_EGRESS) \<or>
                         (ci_role c1 = ROLE_SERVER \<and> ci_direction c1 = T_INGRESS)
                      then (MSG_REQUEST, c1) else (MSG_RESPONSE, c1))
                   else
                     (case infer_kafka_request msg_buf (\<not> valid) c1 of
                        (msg_type, c2) \<Rightarrow>
                          if msg_type = MSG_REQUEST
                          then (MSG_REQUEST, c2\<lparr>ci_need_reconfirm := False\<rparr>)
                          else (MSG_UNKNOWN, c2)))))"

section \<open>RocketMQ\<close>

definition rocketmq_json :: "buf \<Rightarrow> u64 \<Rightarrow> int \<Rightarrow> message_type" where
  "rocketmq_json b count header_length =
     (if header_length < 89 then MSG_UNKNOWN
      else if b 8 \<noteq> byte CHR ''{'' \<or> b 9 \<noteq> byte CHR 0x22 \<or> b 14 \<noteq> byte CHR 0x22 \<or>
              b 15 \<noteq> byte CHR '':''
      then MSG_UNKNOWN
      else if sint (b 16) \<ge> sint (byte CHR ''0'') \<and> sint (b 16) \<le> sint (byte CHR ''4'') \<and>
              b 17 = byte CHR '',''
      then MSG_RESPONSE
      else if count \<ge> 30 \<and>
              list_ex (\<lambda>i. b (i - 1) = byte CHR '':'' \<and> b i = byte CHR ''1'') [26, 27, 28, 29]
      then MSG_RESPONSE
      else MSG_REQUEST)"

definition rocketmq_binary :: "buf \<Rightarrow> int \<Rightarrow> message_type" where
  "rocketmq_binary b header_length =
     (if header_length < 13 then MSG_UNKNOWN
      else
        (let flag = bpf_ntohl (ld_u32 b 17)
         in if flag = 0 \<or> flag = 0x2 then MSG_REQUEST
            else if flag = 0x1 then MSG_RESPONSE
            else MSG_UNKNOWN))"

definition infer_rocketmq_message :: "bpf_env \<Rightarrow> buf \<Rightarrow> u64 \<Rightarrow> conn_info_s \<Rightarrow> message_type" where
  "infer_rocketmq_message env b count c =
     (if count < 21 then MSG_UNKNOWN
      else if \<not> protocol_port_check_2 env PROTO_ROCKETMQ c then MSG_UNKNOWN
      else if other_proto PROTO_ROCKETMQ c then MSG_UNKNOWN
      else
        (let len = sint (bpf_ntohl (ld_u32 b 0));
             origin_header_length = bpf_ntohl (ld_u32 b 4);
             header_length = sint (origin_header_length AND 0xFFFFFF);
             serialize_type = (ucast (drop_bit 24 origin_header_length) :: u8)
         in if len < 4 \<or> len > 65535 then MSG_UNKNOWN
            else if header_length > len - 4 then MSG_UNKNOWN
            else if serialize_type = 0 then rocketmq_json b count header_length
            else if serialize_type = 1 then rocketmq_binary b header_length
            else MSG_UNKNOWN))"

section \<open>WebSphere MQ\<close>

definition infer_web_sphere_mq_message ::
    "bpf_env \<Rightarrow> buf \<Rightarrow> u64 \<Rightarrow> conn_info_s \<Rightarrow> message_type" where
  "infer_web_sphere_mq_message env b count c =
     (if count < 36 then MSG_UNKNOWN
      else if \<not> protocol_port_check_2 env PROTO_WEBSPHEREMQ c then MSG_UNKNOWN
      else if other_proto PROTO_WEBSPHEREMQ c then MSG_UNKNOWN
      else if b 0 \<noteq> byte CHR ''T'' \<or> b 1 \<noteq> byte CHR ''S'' \<or> b 2 \<noteq> byte CHR ''H'' \<or>
              b 3 \<noteq> byte CHR ''M''
      then MSG_UNKNOWN
      else if b 17 AND 0x90 = 0x90 then MSG_RESPONSE
      else MSG_REQUEST)"

section \<open>The contract\<close>

definition nats_call :: "bpf_env \<Rightarrow> buf \<Rightarrow> u64 \<Rightarrow> conn_info_s \<Rightarrow> message_type" where
  "nats_call env b n c =
     infer_nats_message env b n (ci_syscall_infer_addr c) (ci_syscall_infer_len c) c"

definition pulsar_call :: "bpf_env \<Rightarrow> buf \<Rightarrow> u64 \<Rightarrow> conn_info_s \<Rightarrow> message_type" where
  "pulsar_call env b n c =
     infer_pulsar_message env (ci_syscall_infer_addr c) (ci_syscall_infer_len c) (ucast n) c"

definition zmtp_call :: "bpf_env \<Rightarrow> buf \<Rightarrow> u64 \<Rightarrow> conn_info_s \<Rightarrow> message_type \<times> conn_info_s" where
  "zmtp_call env b n c =
     infer_zmtp_message env b n (ci_syscall_infer_addr c) (ucast (ci_syscall_infer_len c)) c"

lemma mqtt_length_loop_local:
  assumes "agree_on 4 b b'"
  shows "mqtt_length_loop i b m l k = mqtt_length_loop i b' m l k"
proof (induction i arbitrary: m l k)
  case (Suc i)
  show ?case
  proof (cases "k < 4")
    case True
    then show ?thesis using Suc agree_onD [OF assms, of k] by (simp add: Let_def)
  qed (simp add: Let_def)
qed simp

lemma mqtt_local:
  assumes "agree_on INFER_DATA_SZ b b'"
  shows "mqtt_decoding_length b = mqtt_decoding_length b'"
    "mqtt_decoding_message_type b = mqtt_decoding_message_type b'"
  using mqtt_length_loop_local [OF agree_on_shift [OF assms, of 1 4]] agree_bytes [OF assms]
  by (simp_all add: mqtt_decoding_length_def mqtt_decoding_message_type_def INFER_DATA_SZ_def)

interpretation mqtt: pure_classifier PROTO_MQTT infer_mqtt_message
proof unfold_locales
  fix env b b' n c
  show "agree_on INFER_DATA_SZ b b' \<Longrightarrow> infer_mqtt_message env b n c = infer_mqtt_message env b' n c"
    by (simp only: infer_mqtt_message_def mqtt_local [of b b'])
qed (simp_all add: infer_mqtt_message_def)

lemma amqp_magic_local:
  "agree_on INFER_DATA_SZ b b' \<Longrightarrow>
   list_all (\<lambda>i. b i = amqp_header ! i) [0..<8] = list_all (\<lambda>i. b' i = amqp_header ! i) [0..<8]"
  by (auto simp: list_all_iff agree_on_def INFER_DATA_SZ_def)

interpretation amqp: pure_classifier PROTO_AMQP infer_amqp_message
proof unfold_locales
  fix env b b' n c
  show "agree_on INFER_DATA_SZ b b' \<Longrightarrow> infer_amqp_message env b n c = infer_amqp_message env b' n c"
    using amqp_magic_local [of b b']
    by (simp add: infer_amqp_message_def agree_bytes agree_loads(1) del: if_split upt_rec_numeral)
qed (simp_all add: infer_amqp_message_def)

lemma decode_openwire_local:
  assumes "agree_on INFER_DATA_SZ b b'"
  shows "decode_openwire b n False t strict = decode_openwire b' n False t strict"
proof -
  have "openwire_tight_ok b 5 False l = openwire_tight_ok b' 5 False l" for l
    by (simp add: openwire_tight_ok_def Let_def agree_bytes [OF assms] agree_loads(1) [OF assms] del: if_split)
  then show ?thesis
    by (simp add: decode_openwire_def Let_def agree_bytes [OF assms] agree_loads(2) [OF assms]
        del: if_split cong: if_cong)
qed

interpretation openwire: conn_classifier PROTO_OPENWIRE infer_openwire_message
proof unfold_locales
  fix env b b' n c
  show "infer_core (snd (infer_openwire_message env b n c)) = infer_core c"
    by (simp add: infer_openwire_message_def Let_def if_push del: if_split cong: if_cong)
  show "cache_ok c \<Longrightarrow> cache_ok (snd (infer_openwire_message env b n c))"
    by (simp add: infer_openwire_message_def Let_def if_push del: if_split cong: if_cong)
  show "agree_on INFER_DATA_SZ b b' \<Longrightarrow>
      infer_openwire_message env b n c = infer_openwire_message env b' n c"
    by (simp only: infer_openwire_message_def decode_openwire_local [of b b'])
qed (simp_all add: infer_openwire_message_def)

lemma nats_brace_loop_local:
  "agree_on INFER_DATA_SZ b b' \<Longrightarrow> nats_brace_loop i b = nats_brace_loop i b'"
  by (induction i) (auto simp: agree_on_def INFER_DATA_SZ_def Let_def)

lemma nats_local:
  assumes "agree_on INFER_DATA_SZ b b'"
  shows "nats_check_info b n = nats_check_info b' n" "nats_check_connect b n = nats_check_connect b' n"
    "nats_keyword b n = nats_keyword b' n"
  by (simp_all only: nats_check_info_def nats_check_connect_def nats_keyword_def One_nat_def
      agree_bytes [OF assms] nats_brace_loop_local [OF assms])

interpretation nats: pure_classifier PROTO_NATS nats_call
proof unfold_locales
  fix env b b' n c
  show "agree_on INFER_DATA_SZ b b' \<Longrightarrow> nats_call env b n c = nats_call env b' n c"
    by (simp only: nats_call_def infer_nats_message_def nats_local [of b b'])
qed (simp_all add: nats_call_def infer_nats_message_def)

interpretation pulsar: pure_classifier PROTO_PULSAR pulsar_call
  by unfold_locales (simp_all add: pulsar_call_def infer_pulsar_message_def)

lemma check_zmtp_greeting_local:
  assumes "agree_on INFER_DATA_SZ b b'"
  shows "check_zmtp_greeting b n c = check_zmtp_greeting b' n c"
  by (simp add: check_zmtp_greeting_def check_zmtp_mechanism_def Let_def agree_bytes [OF assms]
      del: if_split cong: if_cong)

lemma zmtp_long_len_local:
  "agree_on INFER_DATA_SZ b b' \<Longrightarrow> i + 8 \<le> 64 \<Longrightarrow> zmtp_long_len b i = zmtp_long_len b' i"
  by (simp add: zmtp_long_len_def agree_loads(2))

lemma zmtp_command_ok_local:
  assumes "agree_on INFER_DATA_SZ b b'"
  shows "zmtp_command_ok env b n p long strict = zmtp_command_ok env b' n p long strict"
proof -
  have "b 9 = b' 9" "b 2 = b' 2" "b 1 = b' 1" using agree_bytes [OF assms] by simp_all
  then show ?thesis
    by (cases long) (auto simp: zmtp_command_ok_def Let_def zmtp_long_len_local [OF assms] split: option.split)
qed

lemma check_zmtp_segment_local:
  assumes "agree_on INFER_DATA_SZ b b'"
  shows "check_zmtp_segment env b n p l strict = check_zmtp_segment env b' n p l strict"
  by (simp add: check_zmtp_segment_def Let_def agree_bytes [OF assms] zmtp_command_ok_local [OF assms]
      zmtp_long_len_local [OF assms] del: if_split cong: if_cong)

interpretation zmtp: conn_classifier PROTO_ZMTP zmtp_call
proof unfold_locales
  fix env b b' n c
  show "other_proto PROTO_ZMTP c \<Longrightarrow> fst (zmtp_call env b n c) \<in> {MSG_UNKNOWN, MSG_PRESTORE}"
    by (simp add: zmtp_call_def infer_zmtp_message_def other_proto_def)
  show "infer_core (snd (zmtp_call env b n c)) = infer_core c"
    by (simp add: zmtp_call_def infer_zmtp_message_def if_push del: if_split cong: if_cong)
  show "cache_ok c \<Longrightarrow> cache_ok (snd (zmtp_call env b n c))"
    by (simp add: zmtp_call_def infer_zmtp_message_def if_push EBPF_CACHE_SIZE_def
        del: if_split cong: if_cong)
  show "agree_on INFER_DATA_SZ b b' \<Longrightarrow> zmtp_call env b n c = zmtp_call env b' n c"
    by (simp add: zmtp_call_def infer_zmtp_message_def agree_bytes save_prev_local
        check_zmtp_greeting_local [of b b'] check_zmtp_segment_local [of b b'] del: if_split cong: if_cong)
qed (simp_all add: zmtp_call_def infer_zmtp_message_def)

lemma kafka_data_check_len_local:
  "agree_on INFER_DATA_SZ b b' \<Longrightarrow> kafka_data_check_len n b c = kafka_data_check_len n b' c"
  by (simp add: kafka_data_check_len_def agree_loads(2) cong: if_cong)

lemma infer_kafka_request_local:
  "agree_on 8 b b' \<Longrightarrow> infer_kafka_request b first c = infer_kafka_request b' first c"
  by (simp add: infer_kafka_request_def ld_u16_def ld_u32_def agree_on_def)

lemma infer_kafka_request_frame [simp]:
  "infer_core (snd (infer_kafka_request b first c)) = infer_core c"
  "cache_ok (snd (infer_kafka_request b first c)) = cache_ok c"
  by (simp_all add: infer_kafka_request_def Let_def if_push del: if_split cong: if_cong)

interpretation kafka: conn_classifier PROTO_KAFKA infer_kafka_message
proof unfold_locales
  fix env b b' n c
  show "other_proto PROTO_KAFKA c \<Longrightarrow> fst (infer_kafka_message env b n c) \<in> {MSG_UNKNOWN, MSG_PRESTORE}"
    by (simp add: infer_kafka_message_def other_proto_def split_beta Let_def)
  show "infer_core (snd (infer_kafka_message env b n c)) = infer_core c"
    by (simp add: infer_kafka_message_def Let_def split_beta if_push del: if_split cong: if_cong)
  show "cache_ok c \<Longrightarrow> cache_ok (snd (infer_kafka_message env b n c))"
    by (simp add: infer_kafka_message_def Let_def split_beta if_push EBPF_CACHE_SIZE_def
        del: if_split cong: if_cong)
  show "infer_kafka_message env b n c = infer_kafka_message env b' n c"
    if agree: "agree_on INFER_DATA_SZ b b'"
  proof -
    have "agree_on 8 b b'" "agree_on 8 (shift_buf b 4) (shift_buf b' 4)"
      using agree by (auto simp: agree_on_def INFER_DATA_SZ_def)
    then have "infer_kafka_request (if p then b else shift_buf b 4) f d =
        infer_kafka_request (if p then b' else shift_buf b' 4) f d" for p f d
      by (simp add: infer_kafka_request_local)
    then show ?thesis
      using kafka_data_check_len_local [OF agree] save_prev_local [OF agree]
      by (simp add: infer_kafka_message_def Let_def split_beta del: if_split cong: if_cong)
  qed
qed (simp_all add: infer_kafka_message_def)

interpretation rocketmq: pure_classifier PROTO_ROCKETMQ infer_rocketmq_message
proof unfold_locales
  fix env b b' n c
  show "agree_on INFER_DATA_SZ b b' \<Longrightarrow>
      infer_rocketmq_message env b n c = infer_rocketmq_message env b' n c"
    by (simp add: infer_rocketmq_message_def rocketmq_json_def rocketmq_binary_def Let_def agree_bytes
        agree_loads(2) del: if_split cong: if_cong)
qed (simp_all add: infer_rocketmq_message_def)

interpretation web_sphere_mq: pure_classifier PROTO_WEBSPHEREMQ infer_web_sphere_mq_message
proof unfold_locales
  fix env b b' n c
  show "agree_on INFER_DATA_SZ b b' \<Longrightarrow>
      infer_web_sphere_mq_message env b n c = infer_web_sphere_mq_message env b' n c"
    by (simp add: infer_web_sphere_mq_message_def agree_bytes)
qed (simp_all add: infer_web_sphere_mq_message_def)

section \<open>Properties\<close>

text \<open>The variable length encoding of MQTT, as its specification states it.\<close>

fun mqtt_encode_length :: "nat \<Rightarrow> u8 list" where
  "mqtt_encode_length x =
     (if x < 128 then [of_nat x] else of_nat (x mod 128 + 128) # mqtt_encode_length (x div 128))"

declare mqtt_encode_length.simps [simp del]

lemma mqtt_encode_length_le: "x < 128 ^ Suc n \<Longrightarrow> length (mqtt_encode_length x) \<le> Suc n"
proof (induction n arbitrary: x)
  case 0
  then show ?case by (simp add: mqtt_encode_length.simps [of x])
next
  case (Suc n)
  have "x div 128 < 128 ^ Suc n"
    using Suc.prems by (simp add: div_less_iff_less_mult mult.commute)
  then show ?case using Suc.IH [of "x div 128"] by (simp add: mqtt_encode_length.simps [of x])
qed

lemma mqtt_digits:
  "list_all (\<lambda>d. ucast ((of_nat (d + 128) :: u8) AND 127) = (of_nat d :: u32) \<and>
     (of_nat (d + 128) :: u8) AND 128 \<noteq> 0 \<and>
     ucast ((of_nat d :: u8) AND 127) = (of_nat d :: u32) \<and> (of_nat d :: u8) AND 128 = 0) [0..<128]"
  by code_simp

lemma mqtt_digit:
  assumes "d < 128"
  shows "ucast ((of_nat (d + 128) :: u8) AND 127) = (of_nat d :: u32)" "(of_nat (d + 128) :: u8) AND 128 \<noteq> 0"
    "ucast ((of_nat d :: u8) AND 127) = (of_nat d :: u32)" "(of_nat d :: u8) AND 128 = 0"
  using mqtt_digits assms by (simp_all only: list_all_iff set_upt) auto

lemma mqtt_length_loop_encode:
  assumes "\<And>j. j < length (mqtt_encode_length x) \<Longrightarrow> b (k + j) = mqtt_encode_length x ! j"
    and "k + length (mqtt_encode_length x) \<le> 4" "length (mqtt_encode_length x) \<le> i"
  shows "mqtt_length_loop i b m l k = Some (l + of_nat x * m, k + length (mqtt_encode_length x))"
  using assms
proof (induction x arbitrary: i k l m rule: mqtt_encode_length.induct)
  case (1 x)
  then obtain i' where i: "i = Suc i'" by (cases i) (auto simp: mqtt_encode_length.simps [of x] split: if_splits)
  have k: "\<not> k + 1 > 4" using 1(3) by (auto simp: mqtt_encode_length.simps [of x] split: if_splits)
  show ?case
  proof (cases "x < 128")
    case True
    then have "b k = of_nat x" using 1(2) [of 0] by (simp add: mqtt_encode_length.simps [of x])
    then show ?thesis
      using True k mqtt_digit(3,4) [of x] by (simp add: i Let_def mqtt_encode_length.simps [of x])
  next
    case False
    have bk: "b k = of_nat (x mod 128 + 128)"
      using 1(2) [of 0] False by (simp add: mqtt_encode_length.simps [of x])
    have len: "length (mqtt_encode_length x) = Suc (length (mqtt_encode_length (x div 128)))"
      using False by (simp add: mqtt_encode_length.simps [of x])
    have "b (k + 1 + j) = mqtt_encode_length (x div 128) ! j"
      if "j < length (mqtt_encode_length (x div 128))" for j
      using 1(2) [of "Suc j"] that False by (simp add: mqtt_encode_length.simps [of x])
    then have "mqtt_length_loop i' b (m * 128) (l + of_nat (x mod 128) * m) (k + 1) =
        Some (l + of_nat (x mod 128) * m + of_nat (x div 128) * (m * 128),
              k + 1 + length (mqtt_encode_length (x div 128)))"
      using 1(1) [OF False, of "k + 1" i' "m * 128" "l + of_nat (x mod 128) * m"] 1(3,4) len i by simp
    moreover have "(of_nat (x mod 128) * m + of_nat (x div 128) * (m * 128) :: u32) = of_nat x * m"
    proof -
      have "(of_nat x :: u32) = of_nat (x mod 128) + of_nat (x div 128) * 128"
        by (metis mod_div_mult_eq of_nat_add of_nat_mult of_nat_numeral)
      then show ?thesis by (simp add: algebra_simps)
    qed
    ultimately show ?thesis
      using k len mqtt_digit(1,2) [of "x mod 128"] by (simp add: i Let_def bk add.assoc)
  qed
qed

text \<open>C22: MQTT lengths. Decoding what the specification's encoder writes for a length below \<open>128^4\<close> behind
  the first byte of a packet gives the length back, and the number of bytes it took.\<close>

theorem mqtt_length_roundtrip:
  assumes "x < 128 ^ 4"
    and "\<And>j. j < length (mqtt_encode_length x) \<Longrightarrow> b (1 + j) = mqtt_encode_length x ! j"
  shows "mqtt_decoding_length b = Some (of_nat x, length (mqtt_encode_length x))"
proof -
  have "length (mqtt_encode_length x) \<le> 4"
    using mqtt_encode_length_le [of x 3] assms(1) by simp
  then show ?thesis
    using mqtt_length_loop_encode [of x "shift_buf b 1" 0 32 1 0] assms(2)
    by (simp add: mqtt_decoding_length_def)
qed

theorem mqtt_length_roundtrip_witness:
  "mqtt_decoding_length (buf_of [0x30, 0xc1, 0x02]) = Some (321, 2)"
proof -
  have e: "mqtt_encode_length 321 = [0xc1, 0x02]" by (simp add: mqtt_encode_length.simps)
  have "mqtt_decoding_length (buf_of [0x30, 0xc1, 0x02]) =
      Some (of_nat 321, length (mqtt_encode_length 321))"
    by (rule mqtt_length_roundtrip) (auto simp: e buf_of_def less_Suc_eq)
  then show ?thesis by (simp add: e)
qed

lemma mqtt_length_loop_bound:
  assumes "mqtt_length_loop i b m l k = Some (len, n)" "unat m = 128 ^ k" "unat l < 128 ^ k"
  shows "k < n" "n \<le> 4" "unat len < 128 ^ n"
proof -
  have "k < n \<and> n \<le> 4 \<and> unat len < 128 ^ n"
    using assms
  proof (induction i arbitrary: m l k)
    case (Suc i)
    let ?d = "ucast (b k AND 127) :: u32"
    from Suc.prems(1) have k: "k \<le> 3" by (auto simp: Let_def split: if_splits)
    then have pw: "(128::nat) ^ k \<le> 128 ^ 3" by (rule power_increasing) simp
    have d: "unat ?d \<le> 127"
    proof -
      have "unat (b k AND 127) \<le> 127" using word_and_le1 [of "b k" 127] by (simp add: word_le_nat_alt)
      then show ?thesis
        using take_bit_nat_less_eq_self [of 32 "unat (b k AND 127)"]
        by (simp add: unsigned_ucast_eq del: take_bit_nat_less_eq_self)
    qed
    have dm: "unat ?d * 128 ^ k \<le> 127 * 128 ^ k" using d by simp
    have "unat (?d * m) = unat ?d * 128 ^ k"
    proof -
      have "unat ?d * 128 ^ k < 4294967296" by (rule le_less_trans [OF dm]) (use pw in simp)
      then show ?thesis by (simp add: unat_word_ariths Suc.prems(2))
    qed
    then have "unat (l + ?d * m) < 128 ^ k + 127 * 128 ^ k"
      using unat_add_le [of l "?d * m"] dm Suc.prems(3) by linarith
    then have l': "unat (l + ?d * m) < 128 ^ Suc k" by simp
    have m': "unat (m * 128) = 128 ^ Suc k"
      using pw by (simp add: unat_word_ariths Suc.prems(2))
    show ?case
    proof (cases "b k AND 128 = 0")
      case True
      then show ?thesis using Suc.prems(1) l' k by (auto simp: Let_def)
    next
      case False
      then have "mqtt_length_loop i b (m * 128) (l + ?d * m) (Suc k) = Some (len, n)"
        using Suc.prems(1) k by (auto simp: Let_def)
      from Suc.IH [OF this m' l'] show ?thesis by auto
    qed
  qed simp
  then show "k < n" "n \<le> 4" "unat len < 128 ^ n" by blast+
qed

text \<open>C23: MQTT packets. What is taken for an MQTT packet is exactly one packet: the first byte, one to
  four bytes of length and as many bytes as the length says make up the data of the system call.\<close>

theorem mqtt_exact_packet:
  assumes "infer_mqtt_message env b count c \<noteq> MSG_UNKNOWN"
  shows "\<exists>len k. mqtt_decoding_length b = Some (len, k) \<and> 1 \<le> k \<and> k \<le> 4 \<and> unat len < 128 ^ k \<and>
    unat count = 1 + k + unat len"
proof -
  from assms obtain len k where d: "mqtt_decoding_length b = Some (len, k)"
    and e: "scast (1 + of_nat k + len :: u32) = count"
    by (auto simp: infer_mqtt_message_def split: option.splits if_splits)
  from d have bd: "0 < k" "k \<le> 4" "unat len < 128 ^ k"
    using mqtt_length_loop_bound [of 32 "shift_buf b 1" 1 0 0 len k]
    by (simp_all add: mqtt_decoding_length_def)
  then have pw: "(128::nat) ^ k \<le> 128 ^ 4" by (intro power_increasing) auto
  have "unat (1 + of_nat k + len :: u32) = 1 + k + unat len"
    using bd pw by (simp add: unat_word_ariths unat_of_nat_small)
  moreover from this have "unat (1 + of_nat k + len :: u32) < 2 ^ 31"
    using bd pw by simp
  ultimately show ?thesis using d bd e unat_scast_u32_u64 by auto
qed

theorem mqtt_exact_packet_witness:
  "\<exists>len k. mqtt_decoding_length (buf_of [0x30, 4, 0, 1, 0x61, 0]) = Some (len, k) \<and> 6 = 1 + k + unat len"
proof -
  have "infer_mqtt_message (example_env True []) (buf_of [0x30, 4, 0, 1, 0x61, 0]) 6
      (example_conn T_INGRESS None) \<noteq> MSG_UNKNOWN" by code_simp
  from mqtt_exact_packet [OF this] obtain len k where
    "mqtt_decoding_length (buf_of [0x30, 4, 0, 1, 0x61, 0]) = Some (len, k)" "unat (6 :: u64) = 1 + k + unat len"
    by blast
  then show ?thesis by (intro exI [of _ len] exI [of _ k]) simp
qed

text \<open>Pulsar command numbers. The continuation bit of a two byte tag stays in the field number,
  so the commands numbered 64 to 68, whose tags take two bytes, are always refused.\<close>

lemma pulsar_high_commands_refused:
  assumes "tmp AND 0x80 \<noteq> 0" "fnum = uint (drop_bit 3 (tmp AND 0x7f)) + 16 * uint (user_byte env p)"
    and "64 \<le> fnum" "fnum \<le> 68"
  shows "pulsar_command_field env target p tmp (uint (drop_bit 3 tmp)) wire_type = None"
proof -
  have "tmp AND 0x80 \<noteq> 0 \<longrightarrow> uint (drop_bit 3 (tmp AND 0x7f)) < 16 \<and> s16 (uint (drop_bit 3 tmp) OR push_bit 4 4) > 68"
    by (rule u8_all_list [of _ tmp]) code_simp
  then have t: "uint (drop_bit 3 (tmp AND 0x7f)) < 16" "s16 (uint (drop_bit 3 tmp) OR push_bit 4 4) > 68"
    using assms(1) by blast+
  have "0 \<le> uint (drop_bit 3 (tmp AND 0x7f))" by simp
  then have "uint (user_byte env p) = 4" using assms(2-4) t(1) by linarith
  then have "user_byte env p = 4" by (simp add: word_uint_eq_iff)
  then show ?thesis using assms(1) t(2) by (simp add: pulsar_command_field_def Let_def)
qed

end
