(* ===== verification/Infer_Dispatch.thy ===== *)
theory Infer_Dispatch
  imports Infer_Web Infer_Sql Infer_Rpc Infer_Mq
begin

text \<open>
  The dispatchers of \<^verbatim>\<open>protocol_inference.h\<close>: the preparation of the inference buffer from a
  plain buffer or an iovec array (\<^verbatim>\<open>infer_iovecs_copy\<close> in \<^verbatim>\<open>socket_trace.bpf.c\<close>), and
  \<^verbatim>\<open>infer_protocol_1/2/3\<close> with the TLS stage, the per-process fast path and the slow path.
\<close>

section \<open>Filling the inference buffer\<close>

text \<open>The arguments of a system call, kept from its entry to its exit. \<^verbatim>\<open>addr\<close> shares its storage with
  \<^verbatim>\<open>ipaddr_ptr\<close>, \<^verbatim>\<open>enter_ts\<close> with \<^verbatim>\<open>socket_id\<close> and \<^verbatim>\<open>bytes_count\<close> with \<^verbatim>\<open>data_seq\<close>.\<close>

datatype syscall_src_func =
    SYSCALL_FUNC_UNKNOWN | SYSCALL_FUNC_WRITE | SYSCALL_FUNC_READ | SYSCALL_FUNC_SEND | SYSCALL_FUNC_RECV
  | SYSCALL_FUNC_SENDTO | SYSCALL_FUNC_RECVFROM | SYSCALL_FUNC_SENDMSG | SYSCALL_FUNC_RECVMSG
  | SYSCALL_FUNC_SENDMMSG | SYSCALL_FUNC_RECVMMSG | SYSCALL_FUNC_WRITEV | SYSCALL_FUNC_READV
  | SYSCALL_FUNC_SENDFILE | SYSCALL_FUNC_PWRITE64 | SYSCALL_FUNC_PWRITEV | SYSCALL_FUNC_PWRITEV2
  | SYSCALL_FUNC_PREAD64 | SYSCALL_FUNC_PREADV | SYSCALL_FUNC_PREADV2

record data_args_t =
  da_source_fn :: syscall_src_func
  da_fd :: u32
  da_buf :: u64
  da_iov :: u64
  da_iovlen :: u64
  da_extra_iov :: u64
  da_extra_iovlen :: u64
  da_sk :: u64
  da_msg_len :: u64
  da_enter_ts :: u64
  da_tcp_seq :: u32
  da_bytes_count :: u64
  da_port :: u16
  da_addr :: buf

record infer_data_s =
  id_len :: u32
  id_data :: buf

record process_data_extra =
  ex_vecs :: bool
  ex_is_go_process :: bool
  ex_source :: process_data_extra_source

text \<open>The state of a copy: the destination, \<^verbatim>\<open>bytes_copy\<close>, \<^verbatim>\<open>first_iov\<close> and \<^verbatim>\<open>first_iov_size\<close>.\<close>

record copy_st =
  cs_data :: buf
  cs_bytes :: u32
  cs_first :: u64
  cs_first_len :: u32

text \<open>Writing \<open>n\<close> bytes of \<open>src\<close> at offset \<open>off\<close>.\<close>

definition write_at :: "buf \<Rightarrow> nat \<Rightarrow> buf \<Rightarrow> nat \<Rightarrow> buf" where
  "write_at dst off src n = (\<lambda>i. if off \<le> i \<and> i < off + n then src (i - off) else dst i)"

text \<open>
  The macro \<^verbatim>\<open>COPY_IOV\<close>, for a destination of \<open>buf_sz\<close> bytes and a copy unit of \<open>unit_sz\<close> bytes, a
  power of two. Inside \<^verbatim>\<open>do ... while (0)\<close> both \<^verbatim>\<open>continue\<close> and \<^verbatim>\<open>break\<close> only leave the macro. One
  byte more than \<^verbatim>\<open>iov_size\<close> is read, which keeps the length passed to the helper positive.
\<close>

definition COPY_IOV :: "bpf_env \<Rightarrow> nat \<Rightarrow> nat \<Rightarrow> u32 \<Rightarrow> u64 \<Rightarrow> u32 \<Rightarrow> copy_st \<Rightarrow> copy_st" where
  "COPY_IOV env buf_sz unit_sz off iov total_size st =
     (let iov_cpy = read_user env (\<lambda>_. 0) 16 iov;
          iov_base = ld_u64 iov_cpy 0;
          iov_len = ld_u64 iov_cpy 8
      in if iov_base = 0 \<or> iov_len = 0 then st
         else
           (let st1 = (if cs_first st = 0
                       then st\<lparr>cs_first := iov_base, cs_first_len := ucast iov_len\<rparr> else st);
                bytes_remaining = total_size - cs_bytes st1;
                iov_size = (if iov_len < scast bytes_remaining then ucast iov_len
                            else bytes_remaining);
                len = off + cs_bytes st1
            in if ucast len > (of_nat (buf_sz - unit_sz) :: u64) then st1
               else if ucast iov_size \<ge> (of_nat unit_sz :: u64) then
                 st1\<lparr>cs_data := write_at (cs_data st1) (unat len)
                        (snd (probe_read_user env iov_base unit_sz)) unit_sz,
                     cs_bytes := cs_bytes st1 + of_nat unit_sz\<rparr>
               else
                 (let iov_size' = iov_size AND of_nat (unit_sz - 1)
                  in st1\<lparr>cs_data := write_at (cs_data st1) (unat len)
                            (snd (probe_read_user env iov_base (unat iov_size' + 1)))
                            (unat iov_size' + 1),
                         cs_bytes := cs_bytes st1 + iov_size'\<rparr>)))"

text \<open>The loop over the iovecs with \<open>k\<close> iterations left, at index \<open>i\<close>.\<close>

fun iov_loop ::
    "nat \<Rightarrow> nat \<Rightarrow> bpf_env \<Rightarrow> nat \<Rightarrow> nat \<Rightarrow> u32 \<Rightarrow> u64 \<Rightarrow> u64 \<Rightarrow> u32 \<Rightarrow> copy_st \<Rightarrow> copy_st" where
  "iov_loop 0 i env buf_sz unit_sz off iov iovlen total_size st = st"
| "iov_loop (Suc k) i env buf_sz unit_sz off iov iovlen total_size st =
     (if of_nat i < iovlen \<and> cs_bytes st < total_size
      then iov_loop k (i + 1) env buf_sz unit_sz off iov iovlen total_size
             (COPY_IOV env buf_sz unit_sz off (iov + of_nat (16 * i)) total_size st)
      else st)"

definition INFER_COPY_SZ :: nat where "INFER_COPY_SZ = 32"
definition INFER_LOOP_LIMIT :: nat where "INFER_LOOP_LIMIT = 4"

definition infer_total_size :: "u64 \<Rightarrow> u32 \<Rightarrow> u32" where
  "infer_total_size syscall_len copy_len =
     (let total_size = (if syscall_len \<ge> of_nat INFER_DATA_SZ then of_nat INFER_DATA_SZ else copy_len)
      in if ucast total_size > syscall_len then ucast syscall_len else total_size)"

text \<open>The buffer with its new length, and the address and length of the first iovec.\<close>

definition infer_iovecs_copy ::
    "bpf_env \<Rightarrow> infer_data_s \<Rightarrow> data_args_t \<Rightarrow> u64 \<Rightarrow> u32 \<Rightarrow> u32 \<times> infer_data_s \<times> u64 \<times> u32" where
  "infer_iovecs_copy env infer_buf args syscall_len copy_len =
     (let total_size = infer_total_size syscall_len copy_len;
          st = iov_loop INFER_LOOP_LIMIT 0 env INFER_DATA_SZ INFER_COPY_SZ 0 (da_iov args)
                 (da_iovlen args) total_size
                 \<lparr>cs_data = id_data infer_buf, cs_bytes = 0, cs_first = 0, cs_first_len = 0\<rparr>
      in (cs_bytes st, infer_buf\<lparr>id_len := 0, id_data := cs_data st\<rparr>, cs_first st,
          cs_first_len st))"

text \<open>The first part of \<^verbatim>\<open>infer_protocol_1\<close>: the buffer and the three length fields.\<close>

definition infer_prepare ::
    "bpf_env \<Rightarrow> data_args_t \<Rightarrow> infer_data_s \<Rightarrow> u64 \<Rightarrow> process_data_extra \<Rightarrow> conn_info_s
      \<Rightarrow> infer_data_s \<times> conn_info_s" where
  "infer_prepare env args infer_buf count extra c =
     (if ex_vecs extra then
        (case infer_iovecs_copy env infer_buf args count (of_nat INFER_BUF_MAX) of
           (n, ib, addr, len) \<Rightarrow>
             (ib\<lparr>id_len := n\<rparr>,
              c\<lparr>ci_count := ucast count, ci_syscall_infer_addr := addr,
                ci_syscall_infer_len := if ucast len > count then ucast count else len\<rparr>))
      else
        (infer_buf\<lparr>id_data := read_user env (id_data infer_buf) INFER_DATA_SZ (da_buf args)\<rparr>,
         c\<lparr>ci_count := ucast count, ci_syscall_infer_addr := da_buf args,
           ci_syscall_infer_len := ucast count\<rparr>))"

section \<open>The chains\<close>

definition not_inferred :: "infer_st \<Rightarrow> protocol_message_t \<times> infer_st" where
  "not_inferred s = (inferred PROTO_UNKNOWN MSG_UNKNOWN, s)"

definition infer_chain_3 :: "bpf_env \<Rightarrow> buf \<Rightarrow> u64 \<Rightarrow> infer_st \<Rightarrow> protocol_message_t \<times> infer_st" where
  "infer_chain_3 env b n s =
     (let arm = try_infer env (ci_skip_proto (fst s))
      in (arm PROTO_ZMTP False (conn_cls zmtp_call env b n)
         (arm PROTO_MONGO False (conn_cls infer_mongo_message env b n)
         (arm PROTO_ROCKETMQ False (pure_cls infer_rocketmq_message env b n)
         (arm PROTO_WEBSPHEREMQ False (pure_cls infer_web_sphere_mq_message env b n)
          not_inferred)))) s)"

text \<open>The end of \<^verbatim>\<open>infer_protocol_3\<close>: a continued reassembly takes what nothing recognised.\<close>

definition infer_reasm_tail ::
    "protocol_message_t \<times> infer_st \<Rightarrow> protocol_message_t \<times> infer_st" where
  "infer_reasm_tail r =
     (case r of (m, (c, q)) \<Rightarrow>
        if ci_enable_reasm c \<and> pm_type m = MSG_UNKNOWN then
          (case ci_socket_info_ptr c of
             None \<Rightarrow> (m\<lparr>pm_type := MSG_REQUEST\<rparr>, (c\<lparr>ci_is_reasm_seg := True\<rparr>, q))
           | Some s \<Rightarrow>
               (m\<lparr>pm_type := MSG_REQUEST, pm_protocol := si_l7_proto s\<rparr>,
                ((upd_sock (\<lambda>s. s\<lparr>si_finish_reasm := True\<rparr>) c)\<lparr>ci_is_reasm_seg := True\<rparr>, q)))
        else (m, (c, q)))"

definition infer_protocol_3 ::
    "bpf_env \<Rightarrow> buf \<Rightarrow> u64 \<Rightarrow> infer_st \<Rightarrow> protocol_message_t \<times> infer_st" where
  "infer_protocol_3 env b n s = infer_reasm_tail (infer_chain_3 env b n s)"

definition infer_chain_2 ::
    "(infer_st \<Rightarrow> protocol_message_t \<times> infer_st) \<Rightarrow> bpf_env \<Rightarrow> buf \<Rightarrow> u64 \<Rightarrow> infer_st
      \<Rightarrow> protocol_message_t \<times> infer_st" where
  "infer_chain_2 k env b n s =
     (let arm = try_infer env (ci_skip_proto (fst s))
      in (arm PROTO_DUBBO False (pure_cls infer_dubbo_message env b n)
         (arm PROTO_MQTT False (pure_cls infer_mqtt_message env b n)
         (arm PROTO_AMQP False (pure_cls infer_amqp_message env b n)
         (arm PROTO_NATS False (pure_cls nats_call env b n)
         (arm PROTO_PULSAR False (pure_cls pulsar_call env b n)
         (arm PROTO_BRPC False (pure_cls infer_brpc_message env b n)
         (arm PROTO_TARS False (pure_cls infer_tars_message env b n)
         (arm PROTO_SOME_IP False (conn_cls infer_some_ip_message env b n)
         (arm PROTO_POSTGRESQL False (pure_cls postgre_call env b n)
         (arm PROTO_ORACLE False (pure_cls infer_oracle_tns_message env b n)
         (arm PROTO_ISO8583 False (pure_cls iso8583_call env b n)
         (arm PROTO_MEMCACHED False (pure_cls infer_memcached_message env b n)
         (arm PROTO_OPENWIRE False (conn_cls infer_openwire_message env b n)
          k))))))))))))) s)"

text \<open>From 5.2 on \<^verbatim>\<open>infer_protocol_2\<close> goes on with \<^verbatim>\<open>infer_protocol_3\<close> itself; before, the latter is a
  program of its own, reached by a tail call.\<close>

definition infer_protocol_2 ::
    "bpf_env \<Rightarrow> buf \<Rightarrow> u64 \<Rightarrow> infer_st \<Rightarrow> protocol_message_t \<times> infer_st" where
  "infer_protocol_2 env b n s =
     infer_chain_2 (if ver_5_2_plus env then infer_protocol_3 env b n else not_inferred) env b n s"

definition infer_chain_1 ::
    "(infer_st \<Rightarrow> protocol_message_t \<times> infer_st) \<Rightarrow> traffic_protocol \<Rightarrow> bpf_env \<Rightarrow> buf \<Rightarrow> u64
      \<Rightarrow> infer_st \<Rightarrow> protocol_message_t \<times> infer_st" where
  "infer_chain_1 k skip_proto env b n s =
     (let arm = try_infer env skip_proto
      in (arm PROTO_HTTP1 False (conn_cls infer_http_message env b n)
         (arm PROTO_REDIS False (pure_cls infer_redis_message env b n)
         (arm PROTO_DNS False (conn_cls dns_call env b n)
         (arm PROTO_KAFKA True (conn_cls infer_kafka_message env b n)
         (arm PROTO_SOFARPC False (conn_cls infer_sofarpc_message env b n)
         (arm PROTO_MYSQL True (conn_cls infer_mysql_message env b n)
         (arm PROTO_FASTCGI True (conn_cls infer_fastcgi_message env b n)
         (arm PROTO_HTTP2 False (http2_call env b n)
          k)))))))) s)"

text \<open>The switch of the fast path on the protocol cached for the process. No protocol is skipped
  here: the arm is that of a chain whose skipped protocol is \<^verbatim>\<open>PROTO_UNKNOWN\<close>.\<close>

definition infer_fast_match ::
    "(infer_st \<Rightarrow> protocol_message_t \<times> infer_st) \<Rightarrow> traffic_protocol \<Rightarrow> bpf_env \<Rightarrow> buf \<Rightarrow> u64
      \<Rightarrow> infer_st \<Rightarrow> protocol_message_t \<times> infer_st" where
  "infer_fast_match k this_proto env b n =
     (let arm = try_infer env PROTO_UNKNOWN this_proto
      in case this_proto of
           PROTO_HTTP1 \<Rightarrow> arm False (conn_cls infer_http_message env b n) k
         | PROTO_REDIS \<Rightarrow> arm False (pure_cls infer_redis_message env b n) k
         | PROTO_MQTT \<Rightarrow> arm False (pure_cls infer_mqtt_message env b n) k
         | PROTO_AMQP \<Rightarrow> arm False (pure_cls infer_amqp_message env b n) k
         | PROTO_NATS \<Rightarrow> arm False (pure_cls nats_call env b n) k
         | PROTO_PULSAR \<Rightarrow> arm False (pure_cls pulsar_call env b n) k
         | PROTO_DUBBO \<Rightarrow> arm False (pure_cls infer_dubbo_message env b n) k
         | PROTO_DNS \<Rightarrow> arm False (conn_cls dns_call env b n) k
         | PROTO_MYSQL \<Rightarrow> arm True (conn_cls infer_mysql_message env b n) k
         | PROTO_KAFKA \<Rightarrow> arm True (conn_cls infer_kafka_message env b n) k
         | PROTO_TARS \<Rightarrow> arm False (pure_cls infer_tars_message env b n) k
         | PROTO_SOME_IP \<Rightarrow> arm False (conn_cls infer_some_ip_message env b n) k
         | PROTO_SOFARPC \<Rightarrow> arm False (conn_cls infer_sofarpc_message env b n) k
         | PROTO_FASTCGI \<Rightarrow> arm True (conn_cls infer_fastcgi_message env b n) k
         | PROTO_BRPC \<Rightarrow> arm False (pure_cls infer_brpc_message env b n) k
         | PROTO_HTTP2 \<Rightarrow> arm False (http2_call env b n) k
         | PROTO_POSTGRESQL \<Rightarrow> arm False (pure_cls postgre_call env b n) k
         | PROTO_ORACLE \<Rightarrow> arm False (pure_cls infer_oracle_tns_message env b n) k
         | PROTO_ISO8583 \<Rightarrow> arm False (pure_cls iso8583_call env b n) k
         | PROTO_MEMCACHED \<Rightarrow> arm False (pure_cls infer_memcached_message env b n) k
         | PROTO_MONGO \<Rightarrow> arm False (conn_cls infer_mongo_message env b n) k
         | PROTO_OPENWIRE \<Rightarrow> arm False (conn_cls infer_openwire_message env b n) k
         | PROTO_ZMTP \<Rightarrow> arm False (conn_cls zmtp_call env b n) k
         | PROTO_ROCKETMQ \<Rightarrow> arm False (pure_cls infer_rocketmq_message env b n) k
         | PROTO_WEBSPHEREMQ \<Rightarrow> arm False (pure_cls infer_web_sphere_mq_message env b n) k
         | _ \<Rightarrow> k)"

section \<open>infer_protocol_1\<close>

definition PROTO_INFER_CACHE_SIZE :: u32 where "PROTO_INFER_CACHE_SIZE = 80"

text \<open>The TLS stage: \<open>Some\<close> is a return from \<^verbatim>\<open>infer_protocol_1\<close>, with the error code, and \<open>None\<close>
  goes on.\<close>

definition infer_tls_stage ::
    "bpf_env \<Rightarrow> buf \<Rightarrow> u64 \<Rightarrow> process_data_extra \<Rightarrow> conn_info_s
      \<Rightarrow> (protocol_message_t \<times> int) option \<times> conn_info_s" where
  "infer_tls_stage env b n extra c =
     (if ci_sk_type c \<noteq> SOCK_UNIX \<and> protocol_port_check_1 env PROTO_TLS c \<and>
         ex_source extra = DATA_SOURCE_SYSCALL
      then
        (case infer_tls_message b n c of
           (t, c') \<Rightarrow>
             if t \<noteq> MSG_UNKNOWN then (Some (inferred PROTO_TLS t, 0), c')
             else if is_socket_info_valid (ci_socket_info_ptr c') \<and>
                     si_is_tls (the (ci_socket_info_ptr c')) \<and> \<not> skip_http2_kprobe env
             then (Some (inferred PROTO_UNKNOWN MSG_UNKNOWN, -1), c')
             else (None, c'))
      else (None, c))"

text \<open>The slow path with the protocol to skip.\<close>

definition infer_slow_path ::
    "traffic_protocol \<Rightarrow> bpf_env \<Rightarrow> buf \<Rightarrow> u64 \<Rightarrow> infer_st \<Rightarrow> protocol_message_t \<times> infer_st" where
  "infer_slow_path skip_proto env b n s =
     infer_chain_1 (if ver_5_2_plus env then infer_protocol_2 env b n else not_inferred)
       skip_proto env b n s"

text \<open>The fast path of kernels from 5.2 on, and the slow path behind it.\<close>

definition infer_match ::
    "bpf_env \<Rightarrow> buf \<Rightarrow> u64 \<Rightarrow> infer_st \<Rightarrow> protocol_message_t \<times> int \<times> infer_st" where
  "infer_match env b n s =
     (let pid = ucast (current_pid_tgid env) :: u32;
          cache_key = drop_bit 16 pid;
          ok = (\<lambda>(m, s). (m, 0 :: int, s))
      in if ver_5_2_plus env \<and> cache_key < PROTO_INFER_CACHE_SIZE then
           (case proto_infer_cache_map env cache_key of
              None \<Rightarrow> (inferred PROTO_UNKNOWN MSG_UNKNOWN, -1, s)
            | Some protocols \<Rightarrow>
                (let this_proto = protocols (ucast pid)
                 in ok (infer_fast_match
                          (\<lambda>(c, q). infer_slow_path this_proto env b n
                                       (c\<lparr>ci_skip_proto := this_proto\<rparr>, q))
                          this_proto env b n s)))
         else ok (infer_slow_path PROTO_UNKNOWN env b n s))"

definition infer_protocol_1 ::
    "bpf_env \<Rightarrow> data_args_t \<Rightarrow> infer_data_s \<Rightarrow> u64 \<Rightarrow> process_data_extra \<Rightarrow> infer_st
      \<Rightarrow> protocol_message_t \<times> int \<times> infer_data_s \<times> infer_st" where
  "infer_protocol_1 env args infer_buf count extra s =
     (case s of (c, q) \<Rightarrow>
        if ci_sk c = 0 then (inferred PROTO_UNKNOWN MSG_UNKNOWN, -1, infer_buf, s)
        else if \<not> is_socket_info_valid (ci_socket_info_ptr c) \<and> drop_msg_by_comm env
        then (inferred PROTO_UNKNOWN MSG_UNKNOWN, -1, infer_buf, s)
        else
          (case infer_prepare env args infer_buf count extra c of
             (ib, c1) \<Rightarrow>
               (let c2 = snd (check_and_fetch_prev_data c1);
                    c3 = check_and_set_data_reassembly env c2
                in if ci_protocol c3 = PROTO_CUSTOM
                   then (inferred PROTO_CUSTOM MSG_REQUEST, 0, ib, (c3, q))
                   else
                     (case infer_tls_stage env (id_data ib) count extra c3 of
                        (Some (m, err), c4) \<Rightarrow> (m, err, ib, (c4, q))
                      | (None, c4) \<Rightarrow>
                          (case infer_match env (id_data ib) count (c4, q) of
                             (m, err, s') \<Rightarrow> (m, err, ib, s'))))))"

section \<open>The dispatch keeps the contract\<close>

lemma cache_ok_reasm_seg [simp]: "cache_ok (c\<lparr>ci_is_reasm_seg := x\<rparr>) = cache_ok c"
  by (simp add: cache_ok_def)

lemma not_inferred_ok [simp]: "infer_ok env s (not_inferred s)"
  by (simp add: not_inferred_def)

lemma infer_chain_3_ok: "infer_ok env s (infer_chain_3 env b n s)"
  unfolding infer_chain_3_def Let_def
  by (intro zmtp.try_infer_ok mongo.try_infer_ok rocketmq.try_infer_ok web_sphere_mq.try_infer_ok
      not_inferred_ok)

lemma infer_chain_2_ok:
  assumes "\<And>s. infer_ok env s (k s)"
  shows "infer_ok env s (infer_chain_2 k env b n s)"
  unfolding infer_chain_2_def Let_def
  by (intro dubbo.try_infer_ok mqtt.try_infer_ok amqp.try_infer_ok nats.try_infer_ok
      pulsar.try_infer_ok brpc.try_infer_ok tars.try_infer_ok some_ip.try_infer_ok
      postgre.try_infer_ok tns.try_infer_ok iso8583.try_infer_ok memcached.try_infer_ok
      openwire.try_infer_ok assms)

lemma infer_chain_1_ok:
  assumes "\<And>s. infer_ok env s (k s)"
  shows "infer_ok env s (infer_chain_1 k skip env b n s)"
  unfolding infer_chain_1_def Let_def
  by (intro http1.try_infer_ok redis.try_infer_ok dns.try_infer_ok kafka.try_infer_ok
      sofarpc.try_infer_ok mysql.try_infer_ok fastcgi.try_infer_ok http2.try_infer_ok assms)

lemma infer_fast_match_ok:
  assumes "\<And>s. infer_ok env s (k s)"
  shows "infer_ok env s (infer_fast_match k p env b n s)"
  using assms
  by (cases p)
    (simp_all add: infer_fast_match_def http1.try_infer_ok redis.try_infer_ok mqtt.try_infer_ok
      amqp.try_infer_ok nats.try_infer_ok pulsar.try_infer_ok dubbo.try_infer_ok dns.try_infer_ok
      mysql.try_infer_ok kafka.try_infer_ok tars.try_infer_ok some_ip.try_infer_ok
      sofarpc.try_infer_ok fastcgi.try_infer_ok brpc.try_infer_ok http2.try_infer_ok
      postgre.try_infer_ok tns.try_infer_ok iso8583.try_infer_ok memcached.try_infer_ok
      mongo.try_infer_ok openwire.try_infer_ok zmtp.try_infer_ok rocketmq.try_infer_ok
      web_sphere_mq.try_infer_ok)

lemma infer_reasm_tail_ok:
  assumes "infer_ok env s r"
  shows "infer_ok env s (infer_reasm_tail r)"
proof -
  obtain m c q where r: "r = (m, (c, q))" by (metis surj_pair)
  have core: "reasm_core c = reasm_core (fst s)" using assms by (simp add: r infer_ok_def)
  have valid: "is_infer_socket_valid (ci_socket_info_ptr (fst s)) =
      is_infer_socket_valid (ci_socket_info_ptr c)"
    and l7: "sock_l7_proto (fst s) = sock_l7_proto c"
    and en: "ci_enable_reasm (fst s) = ci_enable_reasm c"
    using sock_valid_ident(1) [OF reasm_core_sock [OF core]]
      sock_l7_proto_ident [OF reasm_core_sock(2) [OF core]] reasm_core_eqD(6) [OF core] by simp_all
  show ?thesis
  proof (cases "ci_enable_reasm c \<and> pm_type m = MSG_UNKNOWN")
    case False
    then show ?thesis using assms by (auto simp: infer_reasm_tail_def r)
  next
    case True
    then have unk: "pm_protocol m = PROTO_UNKNOWN" and cache: "cache_ok (fst s) \<longrightarrow> cache_ok c"
      using assms by (simp_all add: r infer_ok_def)
    show ?thesis
    proof (cases "ci_socket_info_ptr c")
      case None
      then have "\<not> is_infer_socket_valid (ci_socket_info_ptr (fst s))"
        unfolding valid by (simp add: is_infer_socket_valid_def)
      then show ?thesis
        using True unk cache core None by (simp add: r infer_reasm_tail_def infer_ok_def en)
    next
      case (Some si)
      then have "sock_l7_proto c = si_l7_proto si" by (simp add: sock_l7_proto_def)
      with Some show ?thesis
        using True unk cache core
        by (simp add: r infer_reasm_tail_def infer_ok_def valid en l7)
          (simp add: is_infer_socket_valid_def)
    qed
  qed
qed

lemma infer_protocol_3_ok: "infer_ok env s (infer_protocol_3 env b n s)"
  unfolding infer_protocol_3_def by (intro infer_reasm_tail_ok infer_chain_3_ok)

lemma infer_protocol_2_ok: "infer_ok env s (infer_protocol_2 env b n s)"
  unfolding infer_protocol_2_def by (rule infer_chain_2_ok) (simp add: infer_protocol_3_ok)

lemma infer_slow_path_ok: "infer_ok env s (infer_slow_path skip env b n s)"
  unfolding infer_slow_path_def by (rule infer_chain_1_ok) (simp add: infer_protocol_2_ok)

lemma infer_match_ok:
  assumes "infer_match env b n s = (m, err, s')"
  shows "infer_ok env s (m, s')"
proof -
  have slow: "infer_ok env s (infer_slow_path p env b n ((fst s)\<lparr>ci_skip_proto := p\<rparr>, snd s))" for p s
    by (rule infer_ok_trans [OF _ _ infer_slow_path_ok]) (simp_all add: cache_ok_def)
  have fast: "infer_ok env s (infer_fast_match
      (\<lambda>(c, q). infer_slow_path p env b n (c\<lparr>ci_skip_proto := p\<rparr>, q)) p env b n s)" for p
    by (rule infer_fast_match_ok) (use slow in \<open>simp add: split_beta\<close>)
  show ?thesis
    using assms fast infer_slow_path_ok [of env s PROTO_UNKNOWN b n]
    by (auto simp: infer_match_def Let_def split_beta split: if_splits option.splits)
qed

section \<open>infer_protocol_1 as a whole\<close>

text \<open>What identifies a connection and its socket.\<close>

definition conn_ident ::
    "conn_info_s \<Rightarrow> tuple_t \<times> u16 \<times> traffic_direction \<times> u32 \<times> u64 \<times> u64 option \<times> traffic_protocol option"
  where
  "conn_ident c = (ci_tuple c, ci_sk_type c, ci_direction c, ci_fd c, ci_sk c,
     map_option si_uid (ci_socket_info_ptr c), map_option si_l7_proto (ci_socket_info_ptr c))"

lemma conn_ident_core: "reasm_core c = reasm_core c' \<Longrightarrow> conn_ident c = conn_ident c'"
  using reasm_core_eqD(1-5) [of c c'] reasm_core_sock [of c c'] by (simp add: conn_ident_def)

lemma conn_ident_sock:
  assumes "conn_ident c = conn_ident c'"
  shows "is_infer_socket_valid (ci_socket_info_ptr c) = is_infer_socket_valid (ci_socket_info_ptr c')"
    and "sock_l7_proto c = sock_l7_proto c'"
  using assms sock_valid_ident(1) [of "ci_socket_info_ptr c" "ci_socket_info_ptr c'"]
    sock_l7_proto_ident [of c c']
  by (simp_all add: conn_ident_def)

lemma infer_prepare_frame:
  assumes "infer_prepare env args ib n extra c = (ib', c')"
  shows "conn_ident c' = conn_ident c" "cache_ok c' = cache_ok c" "ci_enable_reasm c' = ci_enable_reasm c"
    "ci_protocol c' = ci_protocol c"
  using assms
  by (auto simp: infer_prepare_def conn_ident_def cache_ok_def split: if_splits prod.splits)

lemma fetch_prev_frame:
  "conn_ident (snd (check_and_fetch_prev_data c)) = conn_ident c"
  "ci_enable_reasm (snd (check_and_fetch_prev_data c)) = ci_enable_reasm c"
  "ci_protocol (snd (check_and_fetch_prev_data c)) = ci_protocol c"
  using conn_ident_core [OF reasm_core_infer_core [OF infer_core_fetch_prev [of c]]]
    infer_core_eqD(9,10) [OF infer_core_fetch_prev [of c]] by simp_all

lemma set_reassembly_frame:
  "conn_ident (check_and_set_data_reassembly env c) = conn_ident c"
  "cache_ok (check_and_set_data_reassembly env c) = cache_ok c"
  "ci_protocol (check_and_set_data_reassembly env c) = ci_protocol c"
  by (simp_all add: check_and_set_data_reassembly_def conn_ident_def cache_ok_def Let_def
      split: option.split)

text \<open>When a message continues one that is being reassembled: its socket is known and of a protocol that is reassembled,
  the message was not ended, the data goes the same way as before, and the limit is not reached. Bytes kept from the
  previous read are given back first.\<close>

definition reasm_continues :: "bpf_env \<Rightarrow> conn_info_s \<Rightarrow> bool" where
  "reasm_continues env c =
     (let c1 = snd (check_and_fetch_prev_data c)
      in is_infer_socket_valid (ci_socket_info_ptr c) \<and>
         (case ci_socket_info_ptr c1 of
            None \<Rightarrow> False
          | Some s \<Rightarrow>
              si_allow_reassembly s \<and> \<not> si_finish_reasm s \<and> si_direction s = ci_direction c \<and>
              (case tracer_ctx env of
                 None \<Rightarrow> True
               | Some t \<Rightarrow> si_reasm_bytes s < tc_data_limit_max t \<and> ci_prev_count c1 = 0)))"

lemma set_reassembly_on:
  assumes "\<not> ci_enable_reasm c" "ci_enable_reasm (check_and_set_data_reassembly env (snd (check_and_fetch_prev_data c)))"
  shows "reasm_continues env c"
proof -
  let ?c1 = "snd (check_and_fetch_prev_data c)"
  have v: "is_infer_socket_valid (ci_socket_info_ptr ?c1) = is_infer_socket_valid (ci_socket_info_ptr c)"
    using conn_ident_sock(1) [of ?c1 c] by (simp add: fetch_prev_frame)
  have d: "ci_direction ?c1 = ci_direction c" using infer_core_eqD(3) [OF infer_core_fetch_prev [of c]] by simp
  have "\<not> ci_enable_reasm ?c1" using assms(1) by (simp add: fetch_prev_frame)
  then show ?thesis
    using assms(2) v d
    by (cases "ci_socket_info_ptr ?c1")
      (auto simp: check_and_set_data_reassembly_def reasm_continues_def Let_def is_infer_socket_valid_def not_le word_gt_0
        split: if_splits option.splits)
qed

lemma reasm_continues_valid: "reasm_continues env c \<Longrightarrow> is_infer_socket_valid (ci_socket_info_ptr c)"
  by (simp add: reasm_continues_def Let_def)

lemma reasm_continues_prepare:
  assumes "infer_prepare env args ib n extra c = (ib', c')"
  shows "reasm_continues env c' = reasm_continues env c"
proof -
  have "ci_socket_info_ptr c' = ci_socket_info_ptr c" "ci_direction c' = ci_direction c" "ci_prev_count c' = ci_prev_count c"
    using assms by (auto simp: infer_prepare_def split: if_splits prod.splits)
  then show ?thesis
    by (cases "ci_socket_info_ptr c"; cases "tracer_ctx env")
      (simp_all add: reasm_continues_def check_and_fetch_prev_data_def upd_sock_def Let_def)
qed

lemma tls_stage_frame:
  assumes "infer_tls_stage env b n extra c = (r, c')"
  shows "conn_ident c' = conn_ident c" "cache_ok c \<Longrightarrow> cache_ok c'"
    "ci_enable_reasm c' = ci_enable_reasm c"
    "r = Some (m, err) \<Longrightarrow> pm_type m \<noteq> MSG_UNKNOWN \<Longrightarrow>
       pm_protocol m = PROTO_TLS \<and> is_protocol_enabled env PROTO_TLS"
    "r = Some (m, err) \<Longrightarrow> pm_type m = MSG_UNKNOWN \<Longrightarrow> pm_protocol m = PROTO_UNKNOWN"
proof -
  have en: "protocol_port_check_1 env PROTO_TLS c \<Longrightarrow> is_protocol_enabled env PROTO_TLS"
    by (metis port_check_disabled(1))
  have *: "c' = c \<or> c' = snd (infer_tls_message b n c)"
    using assms by (auto simp: infer_tls_stage_def split: if_splits prod.splits)
  have "infer_core c' = infer_core c" using * by auto
  then show "conn_ident c' = conn_ident c" "ci_enable_reasm c' = ci_enable_reasm c"
    using conn_ident_core [OF reasm_core_infer_core] infer_core_eqD(9) by blast+
  show "cache_ok c \<Longrightarrow> cache_ok c'" using * by auto
  show "r = Some (m, err) \<Longrightarrow> pm_type m \<noteq> MSG_UNKNOWN \<Longrightarrow>
       pm_protocol m = PROTO_TLS \<and> is_protocol_enabled env PROTO_TLS"
    using assms by (auto simp: infer_tls_stage_def inferred_def dest: en split: if_splits prod.splits)
  show "r = Some (m, err) \<Longrightarrow> pm_type m = MSG_UNKNOWN \<Longrightarrow> pm_protocol m = PROTO_UNKNOWN"
    using assms by (auto simp: infer_tls_stage_def inferred_def split: if_splits prod.splits)
qed

text \<open>The four ways out of \<^verbatim>\<open>infer_protocol_1\<close>.\<close>

lemma infer_protocol_1_cases:
  assumes "infer_protocol_1 env args ib n extra (c, q) = (m, err, ib', (c', q'))"
  obtains
    (aborted) "m = inferred PROTO_UNKNOWN MSG_UNKNOWN" "err = -1" "c' = c"
  | (custom) c3 where "ci_protocol c = PROTO_CUSTOM" "m = inferred PROTO_CUSTOM MSG_REQUEST"
      "c' = c3" "conn_ident c3 = conn_ident c" "cache_ok c \<longrightarrow> cache_ok c3"
  | (tls) c3 where "infer_tls_stage env (id_data ib') n extra c3 = (Some (m, err), c')"
      "conn_ident c3 = conn_ident c" "cache_ok c \<longrightarrow> cache_ok c3"
  | (matched) c4 where "infer_match env (id_data ib') n (c4, q) = (m, err, (c', q'))"
      "conn_ident c4 = conn_ident c" "cache_ok c \<longrightarrow> cache_ok c4"
      "\<not> ci_enable_reasm c \<Longrightarrow> ci_enable_reasm c4 \<Longrightarrow> reasm_continues env c"
proof -
  obtain ib1 c1 where p: "infer_prepare env args ib n extra c = (ib1, c1)" by (metis surj_pair)
  let ?c2 = "snd (check_and_fetch_prev_data c1)"
  let ?c3 = "check_and_set_data_reassembly env ?c2"
  obtain r c4 where t: "infer_tls_stage env (id_data ib1) n extra ?c3 = (r, c4)" by (metis surj_pair)
  have id3: "conn_ident ?c3 = conn_ident c" "cache_ok c \<longrightarrow> cache_ok ?c3" "ci_protocol ?c3 = ci_protocol c"
    using infer_prepare_frame [OF p] by (simp_all add: set_reassembly_frame fetch_prev_frame)
  have id4: "conn_ident c4 = conn_ident c" "cache_ok c \<longrightarrow> cache_ok c4"
    using tls_stage_frame(1,2) [OF t] id3 by auto
  have en: "reasm_continues env c" if "\<not> ci_enable_reasm c" "ci_enable_reasm c4"
    using that set_reassembly_on [of c1 env] tls_stage_frame(3) [OF t] infer_prepare_frame(3) [OF p]
      reasm_continues_prepare [OF p] by simp
  show thesis
  proof (cases "ci_sk c = 0 \<or> \<not> is_socket_info_valid (ci_socket_info_ptr c) \<and> drop_msg_by_comm env")
    case True
    then show thesis using assms aborted by (simp add: infer_protocol_1_def split: if_splits)
  next
    case False
    note run = assms [unfolded infer_protocol_1_def, simplified False p t prod.case Let_def, simplified]
    show thesis
    proof (cases "ci_protocol ?c3 = PROTO_CUSTOM")
      case True
      then show thesis using False run custom [of ?c3] id3 by auto
    next
      case nc: False
      show thesis
      proof (cases r)
        case None
        then show thesis
          using False nc run matched [of c4] id4 en by (auto split: prod.splits)
      next
        case (Some me)
        then show thesis
          using False nc run tls [of ?c3] id3 t by (cases me) auto
      qed
    qed
  qed
qed

lemma infer_protocol_1_keeps:
  assumes "infer_protocol_1 env args ib n extra (c, q) = (m, err, ib', (c', q'))"
  shows "conn_ident c' = conn_ident c" "cache_ok c \<Longrightarrow> cache_ok c'"
proof -
  have "conn_ident c' = conn_ident c \<and> (cache_ok c \<longrightarrow> cache_ok c')"
    using assms
  proof (cases rule: infer_protocol_1_cases)
    case (matched c4)
    then show ?thesis using infer_match_ok [OF matched(1)] conn_ident_core [of c' c4] by (auto simp: infer_ok_def)
  next
    case (tls c3)
    then show ?thesis using tls_stage_frame(1,2) [OF tls(1)] by auto
  qed auto
  then show "conn_ident c' = conn_ident c" "cache_ok c \<Longrightarrow> cache_ok c'" by auto
qed

section \<open>The dispatch reads the inference buffer only\<close>

lemma infer_chain_3_local:
  assumes "agree_on INFER_DATA_SZ b b'"
  shows "infer_chain_3 env b n s = infer_chain_3 env b' n s"
  unfolding infer_chain_3_def Let_def
  by (intro zmtp.try_infer_local mongo.try_infer_local rocketmq.try_infer_local
      web_sphere_mq.try_infer_local assms refl)

lemma infer_chain_2_local:
  assumes "agree_on INFER_DATA_SZ b b'" "\<And>s. k s = k' s"
  shows "infer_chain_2 k env b n s = infer_chain_2 k' env b' n s"
  unfolding infer_chain_2_def Let_def
  by (intro dubbo.try_infer_local mqtt.try_infer_local amqp.try_infer_local nats.try_infer_local
      pulsar.try_infer_local brpc.try_infer_local tars.try_infer_local some_ip.try_infer_local
      postgre.try_infer_local tns.try_infer_local iso8583.try_infer_local memcached.try_infer_local
      openwire.try_infer_local assms)

lemma infer_chain_1_local:
  assumes "agree_on INFER_DATA_SZ b b'" "\<And>s. k s = k' s"
  shows "infer_chain_1 k skip env b n s = infer_chain_1 k' skip env b' n s"
  unfolding infer_chain_1_def Let_def
  by (intro http1.try_infer_local redis.try_infer_local dns.try_infer_local kafka.try_infer_local
      sofarpc.try_infer_local mysql.try_infer_local fastcgi.try_infer_local http2.try_infer_local assms)

lemma infer_slow_path_local:
  assumes "agree_on INFER_DATA_SZ b b'"
  shows "infer_slow_path skip env b n s = infer_slow_path skip env b' n s"
proof -
  have 3: "infer_protocol_3 env b n s = infer_protocol_3 env b' n s" for s
    by (simp add: infer_protocol_3_def infer_chain_3_local [OF assms])
  have "infer_protocol_2 env b n s = infer_protocol_2 env b' n s" for s
    unfolding infer_protocol_2_def by (rule infer_chain_2_local [OF assms]) (simp add: 3)
  then show ?thesis
    unfolding infer_slow_path_def by (intro infer_chain_1_local [OF assms]) simp
qed

lemma infer_fast_match_local:
  assumes a: "agree_on INFER_DATA_SZ b b'" and k: "\<And>s. k s = k' s"
  shows "infer_fast_match k p env b n s = infer_fast_match k' p env b' n s"
  by (cases p)
    (simp_all add: infer_fast_match_def k http1.try_infer_local [OF a k] redis.try_infer_local [OF a k]
      mqtt.try_infer_local [OF a k] amqp.try_infer_local [OF a k] nats.try_infer_local [OF a k]
      pulsar.try_infer_local [OF a k] dubbo.try_infer_local [OF a k] dns.try_infer_local [OF a k]
      mysql.try_infer_local [OF a k] kafka.try_infer_local [OF a k] tars.try_infer_local [OF a k]
      some_ip.try_infer_local [OF a k] sofarpc.try_infer_local [OF a k] fastcgi.try_infer_local [OF a k]
      brpc.try_infer_local [OF a k] http2.try_infer_local [OF a k] postgre.try_infer_local [OF a k]
      tns.try_infer_local [OF a k] iso8583.try_infer_local [OF a k] memcached.try_infer_local [OF a k]
      mongo.try_infer_local [OF a k] openwire.try_infer_local [OF a k] zmtp.try_infer_local [OF a k]
      rocketmq.try_infer_local [OF a k] web_sphere_mq.try_infer_local [OF a k])

section \<open>A concrete system call\<close>

definition example_get :: "u8 list" where "example_get = map byte ''GET / HTTP/1.1''"

definition empty_args :: data_args_t where
  "empty_args =
     \<lparr>da_source_fn = SYSCALL_FUNC_UNKNOWN, da_fd = 0, da_buf = 0, da_iov = 0, da_iovlen = 0, da_extra_iov = 0,
      da_extra_iovlen = 0, da_sk = 0, da_msg_len = 0, da_enter_ts = 0, da_tcp_seq = 0, da_bytes_count = 0,
      da_port = 0, da_addr = (\<lambda>_. 0)\<rparr>"

definition example_args :: data_args_t where "example_args = empty_args\<lparr>da_iovlen := 1\<rparr>"

definition example_data :: infer_data_s where "example_data = \<lparr>id_len = 0, id_data = (\<lambda>_. 0)\<rparr>"

definition example_extra :: process_data_extra where
  "example_extra = \<lparr>ex_vecs = False, ex_is_go_process = False, ex_source = DATA_SOURCE_SYSCALL\<rparr>"

section \<open>Copying iovecs stays in bounds\<close>

definition copy_ok :: "buf \<Rightarrow> u32 \<Rightarrow> copy_st \<Rightarrow> bool" where
  "copy_ok d total_size st \<longleftrightarrow> cs_bytes st \<le> total_size \<and> (\<forall>i\<ge>64. cs_data st i = d i)"

lemma iov_size_le:
  assumes "unat r \<le> 64"
  shows "unat (if (l::u64) < scast r then ucast l else r :: u32) \<le> unat r" (is "unat ?s \<le> _")
proof (cases "l < (scast r :: u64)")
  case True
  then have "unat l < unat r" using assms unat_scast_u32_u64 [of r] by (simp add: word_less_nat_alt)
  then show ?thesis
    using True assms by (simp add: unsigned_ucast_eq take_bit_nat_eq_self)
qed simp

lemma and_31_le: "unat (w AND 31 :: u32) \<le> 31" "unat (w AND 31 :: u32) \<le> unat w"
  using word_and_le1 [of w 31] word_and_le2 [of w 31] by (simp_all add: word_le_nat_alt)

lemma write_at_64: "64 \<le> i \<Longrightarrow> off + n \<le> 64 \<Longrightarrow> write_at d off src n i = d i"
  by (simp add: write_at_def)

lemma COPY_IOV_ok:
  assumes "copy_ok d total_size st" "total_size \<le> 64"
  shows "copy_ok d total_size (COPY_IOV env 64 32 0 iov total_size st)"
proof -
  let ?r = "total_size - cs_bytes st" and ?l = "ld_u64 (read_user env (\<lambda>_. 0) 16 iov) 8"
  define sz where "sz = (\<lambda>l :: u64. if l < scast ?r then ucast l else ?r)"
  have r: "unat ?r = unat total_size - unat (cs_bytes st)" and t: "unat total_size \<le> 64"
    and b: "unat (cs_bytes st) \<le> unat total_size"
    using assms by (simp_all add: copy_ok_def word_le_nat_alt unat_sub)
  have sz: "unat (sz l) \<le> unat total_size - unat (cs_bytes st)" for l
    using iov_size_le [of ?r l] r t unfolding sz_def by linarith
  have add: "cs_bytes st + x \<le> total_size" if "unat x \<le> unat total_size - unat (cs_bytes st)" for x
    using unat_add_le [of "cs_bytes st" x] that b by (simp add: word_le_nat_alt)
  have full: "cs_bytes st + 32 \<le> total_size" if "ucast (sz l) \<ge> (32 :: u64)" for l
    using that sz [of l] by (intro add) (simp add: word_le_nat_alt)
  have part: "cs_bytes st + (sz l AND 31) \<le> total_size" for l
    using and_31_le(2) [of "sz l"] sz [of l] by (intro add) linarith
  have pos: "unat (cs_bytes st) \<le> 32" if "\<not> ucast (cs_bytes st) > (32 :: u64)"
    using that by (simp add: word_less_nat_alt not_less)
  have pb: "unat (cs_bytes st) + Suc (unat (w AND 31)) \<le> 64" if "\<not> ucast (cs_bytes st) > (32 :: u64)" for w :: u32
    using pos [OF that] and_31_le(1) [of w] by linarith
  show ?thesis
    using assms(1) full [of ?l, unfolded sz_def] part [of ?l, unfolded sz_def] pos pb
    unfolding COPY_IOV_def Let_def
    by (auto simp: copy_ok_def write_at_64)
qed

lemma iov_loop_ok:
  assumes "copy_ok d total_size st" "total_size \<le> 64"
  shows "copy_ok d total_size (iov_loop k i env 64 32 0 iov iovlen total_size st)"
  using assms(1) by (induction k arbitrary: i st) (simp_all add: COPY_IOV_ok assms(2))

lemma infer_total_size_le:
  assumes "copy_len \<le> 64"
  shows "infer_total_size syscall_len copy_len \<le> 64"
    "unat (infer_total_size syscall_len copy_len) \<le> unat syscall_len"
proof -
  define t :: u32 where "t = (if syscall_len \<ge> 64 then 64 else copy_len)"
  have t: "unat t \<le> 64" using assms by (simp add: t_def word_le_nat_alt)
  have e: "infer_total_size syscall_len copy_len = (if ucast t > syscall_len then ucast syscall_len else t)"
    by (simp add: infer_total_size_def INFER_DATA_SZ_def Let_def t_def)
  have c: "unat (ucast syscall_len :: u32) \<le> unat syscall_len"
    by (simp add: unsigned_ucast_eq)
  show "infer_total_size syscall_len copy_len \<le> 64"
    "unat (infer_total_size syscall_len copy_len) \<le> unat syscall_len"
    unfolding e using t c by (auto simp: word_less_nat_alt word_le_nat_alt not_less)
qed

text \<open>C12: Copying iovecs. Whatever the array says, the copy takes at most as many bytes as the system call
  transferred and as the 64-byte buffer holds, and writes no byte past the buffer's end.\<close>

theorem infer_iovecs_copy_bounds:
  assumes "infer_iovecs_copy env ib args syscall_len copy_len = (n, ib', addr, len)" "copy_len \<le> 64"
  shows "unat n \<le> 64 \<and> unat n \<le> unat syscall_len \<and> (\<forall>i\<ge>64. id_data ib' i = id_data ib i)"
proof -
  let ?t = "infer_total_size syscall_len copy_len"
  let ?st = "iov_loop 4 0 env 64 32 0 (da_iov args) (da_iovlen args) ?t
      \<lparr>cs_data = id_data ib, cs_bytes = 0, cs_first = 0, cs_first_len = 0\<rparr>"
  have "copy_ok (id_data ib) ?t ?st"
    by (rule iov_loop_ok [OF _ infer_total_size_le(1) [OF assms(2)]]) (simp add: copy_ok_def)
  moreover have "n = cs_bytes ?st" "id_data ib' = cs_data ?st"
    using assms(1) by (auto simp: infer_iovecs_copy_def Let_def INFER_DATA_SZ_def INFER_COPY_SZ_def
        INFER_LOOP_LIMIT_def)
  ultimately show ?thesis
    using infer_total_size_le [OF assms(2), of syscall_len]
    by (auto simp: copy_ok_def word_le_nat_alt)
qed

theorem infer_iovecs_copy_bounds_witness:
  "unat (fst (infer_iovecs_copy (example_env True [16, 0, 0, 0, 0, 0, 0, 0, 200]) example_data
     example_args 100 32)) \<le> 64"
proof -
  let ?r = "infer_iovecs_copy (example_env True [16, 0, 0, 0, 0, 0, 0, 0, 200]) example_data example_args 100 32"
  obtain n ib' addr len where "?r = (n, ib', addr, len)" by (metis surj_pair)
  with infer_iovecs_copy_bounds [OF this] show ?thesis by simp
qed

lemma and_31_small:
  assumes "unat w < 32"
  shows "(w :: u32) AND 31 = w"
proof -
  have "w AND 31 = take_bit 5 w" by (simp add: take_bit_eq_mask mask_eq_exp_minus_1)
  also have "\<dots> = w" using assms by (simp add: word_unat_eq_iff unsigned_take_bit_eq take_bit_nat_eq_self)
  finally show ?thesis .
qed

lemma infer_total_size_32:
  "unat (infer_total_size count 32) = (if 64 \<le> unat count then 64 else min 32 (unat count))"
proof (cases "unat count < 32")
  case True
  then have "unat (ucast count :: u32) = unat count"
    by (simp add: unsigned_ucast_eq take_bit_nat_eq_self)
  then show ?thesis
    using True by (simp add: infer_total_size_def INFER_DATA_SZ_def Let_def word_le_nat_alt word_less_nat_alt)
next
  case False
  then show ?thesis
    by (simp add: infer_total_size_def INFER_DATA_SZ_def Let_def word_le_nat_alt word_less_nat_alt)
qed

lemma COPY_IOV_first:
  assumes iov: "ld_u64 (read_user env (\<lambda>_. 0) 16 iov) 0 = base"
      "ld_u64 (read_user env (\<lambda>_. 0) 16 iov) 8 = count" "base \<noteq> 0" "count \<noteq> 0"
    and mem: "\<And>k i. i < k \<Longrightarrow> snd (probe_read_user env base k) i = mem i"
    and st: "cs_first st = 0" "cs_bytes st = 0"
    and st': "st' = COPY_IOV env 64 32 0 iov (infer_total_size count 32) st"
  shows "cs_first st' = base" "cs_first_len st' = ucast count"
    "i < min 32 (unat count) \<Longrightarrow> cs_data st' i = mem i"
proof -
  let ?t = "infer_total_size count 32"
  have t: "unat ?t \<le> 64" "unat ?t \<le> unat count" and t32: "min 32 (unat ?t) = min 32 (unat count)"
    by (auto simp: infer_total_size_32)
  have "unat (scast ?t :: u64) = unat ?t" using t by (intro unat_scast_u32_u64) simp
  then have s: "\<not> count < scast ?t" using t by (simp add: word_less_nat_alt)
  have e: "(32 :: u64) \<le> ucast ?t \<longleftrightarrow> 32 \<le> unat ?t" by (simp add: word_le_nat_alt)
  show "cs_first st' = base" "cs_first_len st' = ucast count"
    using s by (simp_all add: st' COPY_IOV_def Let_def iov st)
  show "cs_data st' i = mem i" if i: "i < min 32 (unat count)"
  proof (cases "32 \<le> unat ?t")
    case True
    then show ?thesis using i s e by (simp add: st' COPY_IOV_def Let_def iov st write_at_def mem)
  next
    case False
    then have "i < Suc (unat ?t)" using i t32 by linarith
    then show ?thesis
      using False s e and_31_small [of ?t] by (simp add: st' COPY_IOV_def Let_def iov st write_at_def mem)
  qed
qed



end
