(* ===== verification/Kern_State.thy ===== *)
theory Kern_State
  imports Infer_Dispatch
begin

text \<open>
  The state of the tracing programs of \<^verbatim>\<open>socket_trace.bpf.c\<close>: their maps, the results of the kernel
  helpers during one program run, and the small routines that only read kernel structures: the
  sock of a descriptor (\<^verbatim>\<open>task_struct_utils.h\<close>), the TCP sequence numbers, the peer address of a
  datagram, and the socket's kind and ports.

  A map is a partial function. An update is refused when the map is full and the key new
  (\<open>ke_map_full\<close>); an LRU map may drop entries to make room. A tail call may fail (\<open>ke_tail_call\<close>), and so may the
  output to the perf ring (\<open>ke_perf_output\<close>). A per-CPU array of one entry is a function of the CPU. \<^verbatim>\<open>bpf_ktime_get_ns\<close> is a
  function of the place of the call, as successive calls in one run differ. A pointer returned by a
  lookup is the entry: updates through it are updates of the map at that key.
\<close>

section \<open>Records\<close>

record member_fields_offset =
  mo_ready :: u8
  mo_kprobe_invalid :: bool
  mo_enable_unix_socket :: bool
  mo_files_infer_done :: bool
  mo_dentry_d_parent :: u16
  mo_task_files :: u32
  mo_sock_flags :: u32
  mo_copied_seq :: u32
  mo_write_seq :: u32
  mo_files_struct_fdt :: u16
  mo_file_f_pos :: u16
  mo_file_private_data :: u32
  mo_file_f_op :: u32
  mo_file_operations_read_iter :: u32
  mo_file_f_inode :: u32
  mo_inode_i_mode :: u32
  mo_inode_i_sb :: u32
  mo_super_block_s_dev :: u32
  mo_file_dentry :: u32
  mo_dentry_name :: u32
  mo_sock_family :: u32
  mo_sock_saddr :: u32
  mo_sock_daddr :: u32
  mo_sock_ip6saddr :: u32
  mo_sock_ip6daddr :: u32
  mo_sock_dport :: u32
  mo_sock_sport :: u32
  mo_sock_skc_state :: u32
  mo_sock_common_ipv6only :: u32
  mo_file_f_path :: u16
  mo_path_mnt :: u16
  mo_mount_mnt :: u16
  mo_mount_mnt_ns :: u16
  mo_mnt_namespace_ns :: u16
  mo_ns_common_inum :: u16
  mo_mount_mnt_id :: u16

record trace_stats =
  ts_socket_map_count :: u64
  ts_trace_map_count :: u64
  ts_push_conflict_count :: u64
  ts_period_event_max_delay :: u64
  ts_period_event_total_time :: u64
  ts_period_event_count :: u64

record trace_key_t =
  tk_tgid :: u32
  tk_pid :: u32
  tk_goid :: u64

record trace_info_t =
  ti_update_time :: u32
  ti_peer_fd :: u32
  ti_thread_trace_id :: u64
  ti_socket_id :: u64

text \<open>\<^verbatim>\<open>private_data\<close> is the inference buffer, which \<^verbatim>\<open>struct ctx_info_s\<close> overlays on it.\<close>

record tail_calls_context =
  tl_infer_buf :: infer_data_s
  tl_max_size_limit :: u32
  tl_push_reassembly_bytes :: u32
  tl_dir :: traffic_direction
  tl_vecs :: bool
  tl_is_close :: bool
  tl_conn_info :: conn_info_s
  tl_extra :: process_data_extra
  tl_bytes_count :: u32

text \<open>The push buffer. \<open>sb_context\<close> is the \<^verbatim>\<open>struct tail_calls_context\<close> that the programs before 5.2
  keep in \<^verbatim>\<open>v->data\<close> between two tail calls, where the payload goes next.\<close>

record socket_data_buffer =
  sb_events_num :: u32
  sb_len :: u32
  sb_data :: buf
  sb_context :: tail_calls_context

datatype bpf_map =
    M_socket_info | M_socket_role | M_trace | M_active_read_args | M_active_write_args | M_http2_tcp_seq | M_go_rw_ts

text \<open>The programs reached by \<^verbatim>\<open>bpf_tail_call\<close> in the builds before 5.2. When the call fails, for instance because
  the entry of the program array is not set, the caller goes on behind it.\<close>

datatype tail_prog =
    PROG_PROTO_INFER_2 | PROG_PROTO_INFER_3 | PROG_DATA_SUBMIT | PROG_OUTPUT_DATA | PROG_IO_EVENT

text \<open>Where \<^verbatim>\<open>bpf_ktime_get_ns\<close> is called.\<close>

datatype ktime_site = KT_enter | KT_goid | KT_ingress | KT_capture | KT_output | KT_close | KT_push | KT_io | KT_io_capture

record kern_env =
  ke_ver_5_2_plus :: bool
  ke_cpu :: nat
  ke_pid_tgid :: u64
  ke_current_task :: u64
  ke_comm :: "int \<times> buf"
  ke_ktime :: "ktime_site \<Rightarrow> u64"
  ke_read_user :: "u64 \<Rightarrow> nat \<Rightarrow> int \<times> buf"
  ke_read_user_str :: "u64 \<Rightarrow> nat \<Rightarrow> int \<times> buf"
  ke_read_kernel :: "u64 \<Rightarrow> nat \<Rightarrow> int \<times> buf"
  ke_read_kernel_str :: "u64 \<Rightarrow> nat \<Rightarrow> int \<times> buf"
  ke_map_full :: "bpf_map \<Rightarrow> bool"
  ke_http2_seq_evicted :: "u32 \<times> u32 \<times> u32 \<Rightarrow> bool"
  ke_go_rw_ts_evicted :: "u32 \<times> u64 \<Rightarrow> bool"
  ke_tail_call :: "tail_prog \<Rightarrow> bool"
  ke_perf_output :: "nat \<Rightarrow> bool"
  ke_protocol_filter :: "traffic_protocol \<Rightarrow> u32 option"
  ke_allow_reasm_protos :: "traffic_protocol \<Rightarrow> bool option"
  ke_proto_ports_bitmap :: "traffic_protocol \<Rightarrow> buf option"
  ke_kprobe_port_bitmap :: "nat \<Rightarrow> buf option"
  ke_proc_info :: "u32 \<Rightarrow> ebpf_proc_info option"
  ke_adapt_id :: "u64 option"
  ke_adapt_mnt_id :: u32
  ke_adapt_mntns_id :: u32

type_synonym go_key = "u32 \<times> u64"

text \<open>\<open>ks_out\<close> lists the calls of \<^verbatim>\<open>bpf_perf_event_output\<close>: the CPU, the bytes given, and whether the perf ring
  took them. When the ring is full the helper fails and the agent never sees the bytes
  (\<^verbatim>\<open>reader_lost_cb\<close> counts them in \<^verbatim>\<open>socket.c\<close>); \<open>ke_perf_output\<close> gives the outcome of the n-th call.\<close>

record kern_state =
  ks_offset :: "nat \<Rightarrow> member_fields_offset option"
  ks_tracer :: "nat \<Rightarrow> tracer_ctx_s option"
  ks_stats :: "trace_stats option"
  ks_socket_info :: "u64 \<Rightarrow> socket_info_s option"
  ks_socket_role :: "u64 \<Rightarrow> u32 option"
  ks_trace :: "trace_key_t \<Rightarrow> trace_info_t option"
  ks_read_args :: "u64 \<Rightarrow> data_args_t option"
  ks_write_args :: "u64 \<Rightarrow> data_args_t option"
  ks_goroutines :: "u64 \<Rightarrow> u64 option"
  ks_go_rw_ts :: "go_key \<Rightarrow> u64 option"
  ks_go_ancestor :: "go_key \<Rightarrow> u64 option"
  ks_infer_cache :: "u32 \<Rightarrow> (u16 \<Rightarrow> traffic_protocol) option"
  ks_http2_seq :: http2_seq_map
  ks_ctx_info :: "nat \<Rightarrow> tail_calls_context option"
  ks_data_buf :: "nat \<Rightarrow> socket_data_buffer option"
  ks_io_buffer :: "nat \<Rightarrow> buf option"
  ks_out :: "(nat \<times> u8 list \<times> bool) list"

section \<open>Maps\<close>

text \<open>\<^verbatim>\<open>bpf_map_update_elem(map, key, value, BPF_ANY)\<close> and \<^verbatim>\<open>bpf_map_delete_elem\<close>, with the return code.\<close>

definition map_update :: "bool \<Rightarrow> ('k \<Rightarrow> 'v option) \<Rightarrow> 'k \<Rightarrow> 'v \<Rightarrow> int \<times> ('k \<Rightarrow> 'v option)" where
  "map_update full m k v = (if full \<and> m k = None then (-1, m) else (0, m(k \<mapsto> v)))"

definition map_delete :: "('k \<Rightarrow> 'v option) \<Rightarrow> 'k \<Rightarrow> int \<times> ('k \<Rightarrow> 'v option)" where
  "map_delete m k = (if m k = None then (-1, m) else (0, m(k := None)))"

text \<open>A counter kept beside a map: it is the number of entries, modulo its width.\<close>

definition counted :: "u64 \<Rightarrow> ('k \<Rightarrow> 'v option) \<Rightarrow> bool" where
  "counted n m \<longleftrightarrow> finite (dom m) \<and> n = of_nat (card (dom m))"

lemma counted_new: "counted n m \<Longrightarrow> m k = None \<Longrightarrow> counted (n + 1) (m(k \<mapsto> v))"
  using card_insert_disjoint [of "dom m" k] by (simp add: counted_def domIff)

lemma counted_old: "counted n m \<Longrightarrow> m k \<noteq> None \<Longrightarrow> counted n (m(k \<mapsto> v))"
  using insert_absorb [of k "dom m"] by (simp add: counted_def domIff)

lemma counted_del: "counted n m \<Longrightarrow> m k \<noteq> None \<Longrightarrow> counted (n - 1) (m(k := None))"
  using card_Suc_Diff1 [of "dom m" k] by (force simp: counted_def domIff)

lemma counted_update_new:
  "counted n m \<Longrightarrow> fst (map_update full m k v) = 0 \<Longrightarrow> m k = None \<Longrightarrow> counted (n + 1) (snd (map_update full m k v))"
  by (cases full) (simp_all add: map_update_def counted_new)

lemma counted_update_old:
  "counted n m \<Longrightarrow> fst (map_update full m k v) \<noteq> 0 \<or> m k \<noteq> None \<Longrightarrow> counted n (snd (map_update full m k v))"
  by (cases "full \<and> m k = None") (auto simp: map_update_def counted_old)

lemma counted_delete_hit:
  "counted n m \<Longrightarrow> fst (map_delete m k) = 0 \<Longrightarrow> counted (n - 1) (snd (map_delete m k))"
  by (cases "m k") (simp_all add: map_delete_def counted_del)

lemma counted_delete_miss:
  "counted n m \<Longrightarrow> fst (map_delete m k) \<noteq> 0 \<Longrightarrow> counted n (snd (map_delete m k))"
  by (cases "m k") (simp_all add: map_delete_def)

lemmas counted_simps = counted_update_new counted_update_old counted_delete_hit counted_delete_miss

definition current_tracer :: "kern_env \<Rightarrow> kern_state \<Rightarrow> tracer_ctx_s option" where
  "current_tracer env ks = ks_tracer ks (ke_cpu env)"

definition current_offset :: "kern_env \<Rightarrow> kern_state \<Rightarrow> member_fields_offset option" where
  "current_offset env ks = ks_offset ks (ke_cpu env)"

definition current_data_buf :: "kern_env \<Rightarrow> kern_state \<Rightarrow> socket_data_buffer option" where
  "current_data_buf env ks = ks_data_buf ks (ke_cpu env)"

definition set_offset :: "kern_env \<Rightarrow> member_fields_offset \<Rightarrow> kern_state \<Rightarrow> kern_state" where
  "set_offset env t ks = ks\<lparr>ks_offset := (ks_offset ks)(ke_cpu env \<mapsto> t)\<rparr>"

definition set_data_buf :: "kern_env \<Rightarrow> socket_data_buffer \<Rightarrow> kern_state \<Rightarrow> kern_state" where
  "set_data_buf env b ks = ks\<lparr>ks_data_buf := (ks_data_buf ks)(ke_cpu env \<mapsto> b)\<rparr>"

definition set_ctx_info :: "kern_env \<Rightarrow> tail_calls_context \<Rightarrow> kern_state \<Rightarrow> kern_state" where
  "set_ctx_info env c ks = ks\<lparr>ks_ctx_info := (ks_ctx_info ks)(ke_cpu env \<mapsto> c)\<rparr>"

text \<open>Updates through a pointer to the CPU's context.\<close>

definition upd_tracer :: "kern_env \<Rightarrow> (tracer_ctx_s \<Rightarrow> tracer_ctx_s) \<Rightarrow> kern_state \<Rightarrow> kern_state" where
  "upd_tracer env f ks =
     ks\<lparr>ks_tracer := (ks_tracer ks)(ke_cpu env := map_option f (ks_tracer ks (ke_cpu env)))\<rparr>"

definition upd_refcnt :: "kern_env \<Rightarrow> u32 \<Rightarrow> kern_state \<Rightarrow> kern_state" where
  "upd_refcnt env d = upd_tracer env (\<lambda>t. t\<lparr>tc_push_buffer_refcnt := tc_push_buffer_refcnt t + d\<rparr>)"

text \<open>An update through a pointer into the socket map.\<close>

definition upd_socket :: "u64 \<Rightarrow> (socket_info_s \<Rightarrow> socket_info_s) \<Rightarrow> kern_state \<Rightarrow> kern_state" where
  "upd_socket key f ks =
     ks\<lparr>ks_socket_info := (ks_socket_info ks)(key := map_option f (ks_socket_info ks key))\<rparr>"

definition upd_stats :: "(trace_stats \<Rightarrow> trace_stats) \<Rightarrow> kern_state \<Rightarrow> kern_state" where
  "upd_stats f ks = ks\<lparr>ks_stats := map_option f (ks_stats ks)\<rparr>"

definition del_read_args :: "u64 \<Rightarrow> kern_state \<Rightarrow> kern_state" where
  "del_read_args pid_tgid ks = ks\<lparr>ks_read_args := snd (map_delete (ks_read_args ks) pid_tgid)\<rparr>"

definition del_write_args :: "u64 \<Rightarrow> kern_state \<Rightarrow> kern_state" where
  "del_write_args pid_tgid ks = ks\<lparr>ks_write_args := snd (map_delete (ks_write_args ks) pid_tgid)\<rparr>"

definition put_read_args :: "kern_env \<Rightarrow> u64 \<Rightarrow> data_args_t \<Rightarrow> kern_state \<Rightarrow> kern_state" where
  "put_read_args env pid_tgid a ks =
     ks\<lparr>ks_read_args := snd (map_update (ke_map_full env M_active_read_args) (ks_read_args ks) pid_tgid a)\<rparr>"

definition put_write_args :: "kern_env \<Rightarrow> u64 \<Rightarrow> data_args_t \<Rightarrow> kern_state \<Rightarrow> kern_state" where
  "put_write_args env pid_tgid a ks =
     ks\<lparr>ks_write_args := snd (map_update (ke_map_full env M_active_write_args) (ks_write_args ks) pid_tgid a)\<rparr>"

section \<open>Sockets\<close>

definition gen_conn_key_id :: "u64 \<Rightarrow> u64 \<Rightarrow> u64" where
  "gen_conn_key_id param_1 param_2 = push_bit 32 param_1 OR ucast (ucast param_2 :: u32)"

definition is_proto_reasm_enabled :: "kern_env \<Rightarrow> traffic_protocol \<Rightarrow> bool" where
  "is_proto_reasm_enabled env protocol =
     (case ke_allow_reasm_protos env protocol of Some enabled \<Rightarrow> enabled | None \<Rightarrow> False)"

definition delete_socket_info :: "u64 \<Rightarrow> socket_info_s option \<Rightarrow> kern_state \<Rightarrow> kern_state" where
  "delete_socket_info conn_key socket_info_ptr ks =
     (if socket_info_ptr = None then ks
      else
        (case ks_stats ks of
           None \<Rightarrow> ks
         | Some st \<Rightarrow>
             (let (ret, m) = map_delete (ks_socket_info ks) conn_key;
                  ks1 = ks\<lparr>ks_socket_info := m\<rparr>;
                  ks2 = (if ret = 0
                         then ks1\<lparr>ks_stats := Some (st\<lparr>ts_socket_map_count := ts_socket_map_count st - 1\<rparr>)\<rparr>
                         else ks1)
              in ks2\<lparr>ks_socket_role := snd (map_delete (ks_socket_role ks2) conn_key)\<rparr>)))"

section \<open>Reading kernel structures\<close>

definition rk_u8 :: "kern_env \<Rightarrow> u64 \<Rightarrow> u8" where "rk_u8 env a = snd (ke_read_kernel env a 1) 0"
definition rk_u16 :: "kern_env \<Rightarrow> u64 \<Rightarrow> u16" where "rk_u16 env a = ld_u16 (snd (ke_read_kernel env a 2)) 0"
definition rk_u32 :: "kern_env \<Rightarrow> u64 \<Rightarrow> u32" where "rk_u32 env a = ld_u32 (snd (ke_read_kernel env a 4)) 0"
definition rk_u64 :: "kern_env \<Rightarrow> u64 \<Rightarrow> u64" where "rk_u64 env a = ld_u64 (snd (ke_read_kernel env a 8)) 0"

text \<open>\<^verbatim>\<open>struct fdtable\<close> has \<^verbatim>\<open>max_fds\<close> at 0 and \<^verbatim>\<open>fd\<close> at 8; it is read as a whole.\<close>

definition get_socket_file_addr_with_check :: "kern_env \<Rightarrow> u64 \<Rightarrow> u32 \<Rightarrow> u32 \<Rightarrow> u32 \<Rightarrow> u64" where
  "get_socket_file_addr_with_check env task fd_num files_off fdt_off =
     (let files = rk_u64 env (task + scast files_off)
      in if files = 0 then 0
         else
           (let fdt = rk_u64 env (files + scast fdt_off);
                fdtable = snd (ke_read_kernel env fdt 16);
                max_fds = ld_u32 fdtable 0;
                fd = ld_u64 fdtable 8
            in if sint fd_num \<ge> sint max_fds then 0
               else rk_u64 env (fd + 8 * scast fd_num)))"

text \<open>\<^verbatim>\<open>struct socket\<close>: \<^verbatim>\<open>type\<close> at 4, \<^verbatim>\<open>wq\<close> at 16, \<^verbatim>\<open>file\<close> at 24, \<^verbatim>\<open>sk\<close> at 32, 48 bytes. A kernel from 5.3
  on has no \<^verbatim>\<open>wq\<close>, so that \<^verbatim>\<open>file\<close> and \<^verbatim>\<open>sk\<close> are found one word earlier.\<close>

definition sock_of_file :: "kern_env \<Rightarrow> member_fields_offset \<Rightarrow> u64 \<Rightarrow> u64" where
  "sock_of_file env offset file =
     (let private_data = rk_u64 env (file + ucast (mo_file_private_data offset))
      in if private_data = 0 then 0
         else
           (let socket = snd (ke_read_kernel env private_data 48);
                socket_type = ld_u16 socket 4;
                wq = ld_u64 socket 16;
                sock_file = ld_u64 socket 24;
                check_file = (if sock_file \<noteq> file then wq else sock_file);
                sk = (if sock_file \<noteq> file then sock_file else ld_u64 socket 32)
            in if (socket_type = 1 \<or> socket_type = 2) \<and> check_file = file then sk else 0))"

definition get_socket_from_fd :: "kern_env \<Rightarrow> u32 \<Rightarrow> member_fields_offset \<Rightarrow> u64" where
  "get_socket_from_fd env fd_num offset =
     (let file = get_socket_file_addr_with_check env (ke_current_task env) fd_num (mo_task_files offset)
                   (ucast (mo_files_struct_fdt offset))
      in if file = 0 then 0 else sock_of_file env offset file)"

definition get_tcp_write_seq :: "kern_env \<Rightarrow> kern_state \<Rightarrow> u32 \<Rightarrow> u32" where
  "get_tcp_write_seq env ks fd =
     (case current_offset env ks of
        None \<Rightarrow> 0
      | Some offset \<Rightarrow>
          (let sock = get_socket_from_fd env fd offset
           in if sock = 0 then 0 else rk_u32 env (sock + scast (mo_write_seq offset))))"

definition get_tcp_read_seq :: "kern_env \<Rightarrow> kern_state \<Rightarrow> u32 \<Rightarrow> u32" where
  "get_tcp_read_seq env ks fd =
     (case current_offset env ks of
        None \<Rightarrow> 0
      | Some offset \<Rightarrow>
          (let sock = get_socket_from_fd env fd offset
           in if sock = 0 then 0 else rk_u32 env (sock + scast (mo_copied_seq offset))))"

text \<open>\<^verbatim>\<open>struct sockaddr_in\<close>: family at 0, port at 2, address at 4, 16 bytes; \<^verbatim>\<open>struct sockaddr_in6\<close>: address
  at 8, 28 bytes.\<close>

definition PF_UNIX :: u16 where "PF_UNIX = 1"
definition PF_INET :: u16 where "PF_INET = 2"
definition PF_INET6 :: u16 where "PF_INET6 = 10"
definition SOCK_DGRAM :: u16 where "SOCK_DGRAM = 2"

definition extract_network_address_info :: "kern_env \<Rightarrow> u64 \<Rightarrow> data_args_t \<Rightarrow> data_args_t" where
  "extract_network_address_info env ptr args =
     (if ptr = 0 then args
      else
        (let addr = snd (ke_read_user env ptr 16);
             args1 = args\<lparr>da_port := bpf_ntohs (ld_u16 addr 2)\<rparr>
         in if da_port args1 > 0 \<and> ld_u16 addr 0 = PF_INET
            then args1\<lparr>da_addr := write_at (da_addr args1) 0 (shift_buf addr 4) 4\<rparr>
            else if da_port args1 > 0 \<and> ld_u16 addr 0 = PF_INET6
            then args1\<lparr>da_addr := write_at (da_addr args1) 0 (shift_buf (snd (ke_read_user env ptr 28)) 8) 16\<rparr>
            else args1))"

section \<open>The kind of a socket\<close>

datatype sock_check_type =
    SOCK_CHECK_TYPE_ERROR | SOCK_CHECK_TYPE_UDP | SOCK_CHECK_TYPE_TCP_ES | SOCK_CHECK_TYPE_UNIX

text \<open>The connection record cleared to zero.\<close>

definition conn_zero :: conn_info_s where
  "conn_zero =
     \<lparr>ci_tuple = \<lparr>tp_daddr = replicate 16 0, tp_rcv_saddr = replicate 16 0, tp_addr_len = 0, tp_l4_protocol = 0,
                  tp_dport = 0, tp_num = 0\<rparr>,
      ci_skc_family = 0, ci_sk_type = 0, ci_skc_ipv6only = False, ci_enable_reasm = False,
      ci_need_reconfirm = False, ci_keep_trace = False, ci_direction = T_EGRESS, ci_prev_direction = T_EGRESS,
      ci_role = ROLE_UNKNOWN, ci_skc_state = 0, ci_skip_proto = PROTO_UNKNOWN, ci_dns_q_type = 0,
      ci_fd = 0, ci_protocol = PROTO_UNKNOWN, ci_message_type = MSG_UNKNOWN, ci_is_reasm_seg = False,
      ci_no_trace = False, ci_correlation_id = 0, ci_prev_count = 0, ci_syscall_infer_len = 0,
      ci_count = 0, ci_prev_buf = (\<lambda>_. 0), ci_syscall_infer_addr = 0, ci_sk = 0,
      ci_socket_info_ptr = None\<rparr>"

definition sock_zero :: socket_info_s where
  "sock_zero =
     \<lparr>si_sk = 0, si_socket = 0, si_l7_proto = PROTO_UNKNOWN, si_allow_reassembly = False, si_finish_reasm = False,
      si_udp_pre_set_addr = False, si_force_reasm = False, si_no_trace = False,
      si_data_source = DATA_SOURCE_SYSCALL, si_reasm_bytes = 0, si_seq = 0, si_prev_data = (\<lambda>_. 0),
      si_direction = T_EGRESS, si_pre_direction = T_EGRESS, si_role = ROLE_UNKNOWN, si_is_tls = False,
      si_tls_end = False, si_need_reconfirm = False, si_correlation_id = 0, si_peer_fd = 0,
      si_update_time = 0, si_prev_data_len = 0, si_trace_id = 0, si_uid = 0\<rparr>"

text \<open>\<^verbatim>\<open>sk_type\<close> is the upper half of the flags word.\<close>

definition get_sock_flags :: "kern_env \<Rightarrow> u64 \<Rightarrow> member_fields_offset \<Rightarrow> conn_info_s \<Rightarrow> conn_info_s" where
  "get_sock_flags env sk offset c =
     c\<lparr>ci_sk_type := ucast (drop_bit 16 (rk_u32 env (sk + ucast (mo_sock_flags offset))))\<rparr>"

definition ipv4_mapped_on_ipv6_confirm :: "kern_env \<Rightarrow> u64 \<Rightarrow> u16 \<Rightarrow> member_fields_offset \<Rightarrow> u16" where
  "ipv4_mapped_on_ipv6_confirm env s f offset =
     (let addr = snd (ke_read_kernel env (s + ucast (mo_sock_ip6saddr offset)) 16)
      in if ld_u32 addr 8 = 0xffff0000 then PF_INET else f)"

text \<open>The states of an open connection: established, FIN_WAIT2, CLOSE_WAIT. The shift of \<^verbatim>\<open>1\<close> by the
  state is an \<^verbatim>\<open>int\<close>; for a state above 31 it is undefined in C, and the machine shifts by the state modulo 32.\<close>

definition tcp_state_closed :: "u8 \<Rightarrow> bool" where
  "tcp_state_closed st \<longleftrightarrow>
     push_bit (unat st mod 32) (1 :: u32) AND NOT (push_bit 1 1 OR push_bit 8 1 OR push_bit 5 1) \<noteq> 0"

definition is_tcp_udp_data ::
    "kern_env \<Rightarrow> u64 \<Rightarrow> member_fields_offset \<Rightarrow> conn_info_s \<Rightarrow> sock_check_type \<times> conn_info_s" where
  "is_tcp_udp_data env sk offset c =
     (let skc_flags = rk_u8 env (sk + ucast (mo_sock_common_ipv6only offset));
          c1 = c\<lparr>ci_skc_ipv6only := bit skc_flags 5,
                 ci_skc_family := rk_u16 env (sk + ucast (mo_sock_family offset))\<rparr>
      in if ci_skc_family c1 = PF_UNIX then
           (if mo_enable_unix_socket offset then (SOCK_CHECK_TYPE_UNIX, c1) else (SOCK_CHECK_TYPE_ERROR, c1))
         else if ci_skc_family c1 \<noteq> PF_INET \<and> ci_skc_family c1 \<noteq> PF_INET6 then (SOCK_CHECK_TYPE_ERROR, c1)
         else
           (let c2 = (if ci_skc_family c1 = PF_INET6 \<and> \<not> ci_skc_ipv6only c1
                      then c1\<lparr>ci_skc_family := ipv4_mapped_on_ipv6_confirm env sk (ci_skc_family c1) offset\<rparr>
                      else c1);
                c3 = get_sock_flags env sk offset c2
            in if ci_sk_type c3 = SOCK_DGRAM
               then (SOCK_CHECK_TYPE_UDP, c3\<lparr>ci_tuple := (ci_tuple c3)\<lparr>tp_l4_protocol := IPPROTO_UDP\<rparr>\<rparr>)
               else if ci_sk_type c3 \<noteq> SOCK_STREAM then (SOCK_CHECK_TYPE_ERROR, c3)
               else
                 (let c4 = c3\<lparr>ci_skc_state := rk_u8 env (sk + ucast (mo_sock_skc_state offset))\<rparr>
                  in if tcp_state_closed (ci_skc_state c4) then (SOCK_CHECK_TYPE_ERROR, c4)
                     else (SOCK_CHECK_TYPE_TCP_ES,
                           c4\<lparr>ci_tuple := (ci_tuple c4)\<lparr>tp_l4_protocol := IPPROTO_TCP\<rparr>\<rparr>))))"

definition init_conn_info ::
    "kern_env \<Rightarrow> kern_state \<Rightarrow> u32 \<Rightarrow> u32 \<Rightarrow> u64 \<Rightarrow> member_fields_offset \<Rightarrow> conn_info_s \<Rightarrow> conn_info_s" where
  "init_conn_info env ks tgid fd sk offset c =
     (let sock = ks_socket_info ks (gen_conn_key_id (ucast tgid) (ucast fd));
          c1 = c\<lparr>ci_correlation_id := -1, ci_fd := fd, ci_sk := sk, ci_socket_info_ptr := sock\<rparr>;
          c2 = (case sock of
                  None \<Rightarrow> c1
                | Some s \<Rightarrow> if is_socket_info_valid sock then c1\<lparr>ci_no_trace := si_no_trace s\<rparr> else c1)
      in c2\<lparr>ci_tuple := (ci_tuple c2)
              \<lparr>tp_dport := bpf_ntohs (rk_u16 env (sk + ucast (mo_sock_dport offset))),
               tp_num := rk_u16 env (sk + ucast (mo_sock_sport offset))\<rparr>\<rparr>)"

definition check_pid_validity :: "kern_env \<Rightarrow> bool" where
  "check_pid_validity env =
     (case ke_adapt_id env of None \<Rightarrow> False | Some i \<Rightarrow> drop_bit 32 i = drop_bit 32 (ke_pid_tgid env))"

definition is_current_go_process :: "kern_env \<Rightarrow> bool" where
  "is_current_go_process env =
     (case ke_proc_info env (ucast (drop_bit 32 (ke_pid_tgid env))) of
        None \<Rightarrow> False | Some info \<Rightarrow> pi_version info \<noteq> 0)"

text \<open>What the inference reads of the state.\<close>

definition infer_env :: "kern_env \<Rightarrow> kern_state \<Rightarrow> bpf_env" where
  "infer_env env ks =
     \<lparr>ver_5_2_plus = ke_ver_5_2_plus env, probe_read_user = ke_read_user env,
      probe_read_user_str = ke_read_user_str env, current_comm = ke_comm env,
      current_pid_tgid = ke_pid_tgid env, protocol_filter = ke_protocol_filter env,
      proto_ports_bitmap = ke_proto_ports_bitmap env, tracer_ctx = current_tracer env ks,
      proto_infer_cache_map = ks_infer_cache ks, proc_info_map = ke_proc_info env,
      tcp_read_seq = get_tcp_read_seq env ks, http2_seq_full = ke_map_full env M_http2_tcp_seq,
      http2_seq_evicted = ke_http2_seq_evicted env\<rparr>"

section \<open>A concrete machine\<close>

text \<open>A memory given by the bytes found at the addresses that are read, and the structures of a task whose
  descriptor 5 is a TCP socket: the task at \<open>0x10000\<close>, its files at \<open>0x20000\<close>, the descriptor table at
  \<open>0x30000\<close> and \<open>0x40000\<close>, the file at \<open>0x50000\<close>, the socket at \<open>0x60000\<close> and the sock at \<open>0x70000\<close>. User
  memory holds a request at \<open>0x1000\<close>.\<close>

definition mem_read :: "(u64 \<times> u8 list) list \<Rightarrow> u64 \<Rightarrow> nat \<Rightarrow> int \<times> buf" where
  "mem_read m a n = (case map_of m a of None \<Rightarrow> (-1, \<lambda>_. 0) | Some bs \<Rightarrow> (0, buf_of bs))"

definition example_kmem :: "(u64 \<times> u8 list) list" where
  "example_kmem =
     [(0x10790, [0, 0, 2]), (0x20020, [0, 0, 3]), (0x30000, [64, 0, 0, 0, 0, 0, 0, 0, 0, 0, 4]),
      (0x40028, [0, 0, 5]), (0x500c8, [0, 0, 6]),
      (0x60000, [3, 0, 0, 0, 1, 0, 0, 0, 0, 0, 0, 0, 0, 0, 0, 0, 0, 0, 5, 0, 0, 0, 0, 0, 0, 0, 7]),
      (0x70000, [10, 0, 0, 2]), (0x70004, [10, 0, 0, 1]), (0x7000c, [31, 144]), (0x7000e, [160, 15]),
      (0x70010, [2, 0]), (0x70012, [1]), (0x70013, [0]), (0x701f0, [0, 0, 1]), (0x704f8, [20]),
      (0x70510, [232, 3]), (0x70514, [232, 3]), (0x70518, [232, 3]), (0x7051c, [208, 7]), (0x7066c, [208, 7])]"

definition example_umem :: "(u64 \<times> u8 list) list" where
  "example_umem = [(0x1000, example_get)]"

definition example_offset :: member_fields_offset where
  "example_offset =
     \<lparr>mo_ready = 1, mo_kprobe_invalid = False, mo_enable_unix_socket = False, mo_files_infer_done = False,
      mo_dentry_d_parent = 24, mo_task_files = 0x790, mo_sock_flags = 0x1f0, mo_copied_seq = 0x514,
      mo_write_seq = 0x66c, mo_files_struct_fdt = 0x20, mo_file_f_pos = 0x68, mo_file_private_data = 0xc8,
      mo_file_f_op = 0x28, mo_file_operations_read_iter = 0x20, mo_file_f_inode = 0x20, mo_inode_i_mode = 0,
      mo_inode_i_sb = 0x28, mo_super_block_s_dev = 16, mo_file_dentry = 0x18, mo_dentry_name = 0x28,
      mo_sock_family = 16, mo_sock_saddr = 4, mo_sock_daddr = 0, mo_sock_ip6saddr = 0x48,
      mo_sock_ip6daddr = 0x38, mo_sock_dport = 12, mo_sock_sport = 14, mo_sock_skc_state = 18,
      mo_sock_common_ipv6only = 19, mo_file_f_path = 16, mo_path_mnt = 0, mo_mount_mnt = 32,
      mo_mount_mnt_ns = 0xe0, mo_mnt_namespace_ns = 0, mo_ns_common_inum = 16, mo_mount_mnt_id = 0x10c\<rparr>"

definition example_unready :: member_fields_offset where
  "example_unready =
     example_offset\<lparr>mo_ready := 0, mo_task_files := 0, mo_sock_flags := 0, mo_copied_seq := 0, mo_write_seq := 0\<rparr>"

definition example_tracer :: tracer_ctx_s where
  "example_tracer =
     \<lparr>tc_socket_id = 100, tc_coroutine_trace_id = 0, tc_thread_trace_id = 500, tc_data_limit_max = 1024,
      tc_go_tracing_timeout = 0, tc_io_event_collect_mode = 0, tc_io_event_minimal_duration = 0,
      tc_virtual_file_collect_enabled = False, tc_push_buffer_refcnt = 0, tc_last_period_timestamp = 900,
      tc_period_timestamp = 900, tc_disable_tracing = False\<rparr>"

definition example_stats :: trace_stats where
  "example_stats =
     \<lparr>ts_socket_map_count = 0, ts_trace_map_count = 0, ts_push_conflict_count = 0, ts_period_event_max_delay = 0,
      ts_period_event_total_time = 0, ts_period_event_count = 0\<rparr>"

definition example_context :: tail_calls_context where
  "example_context =
     \<lparr>tl_infer_buf = example_data, tl_max_size_limit = 0, tl_push_reassembly_bytes = 0, tl_dir = T_EGRESS,
      tl_vecs = False, tl_is_close = False, tl_conn_info = conn_zero, tl_extra = example_extra,
      tl_bytes_count = 0\<rparr>"

definition example_buffer :: socket_data_buffer where
  "example_buffer = \<lparr>sb_events_num = 0, sb_len = 0, sb_data = (\<lambda>_. 0), sb_context = example_context\<rparr>"

definition example_kenv :: "bool \<Rightarrow> kern_env" where
  "example_kenv ver =
     \<lparr>ke_ver_5_2_plus = ver, ke_cpu = 0, ke_pid_tgid = push_bit 32 77 OR 78, ke_current_task = 0x10000,
      ke_comm = (0, buf_of (map byte ''curl'')), ke_ktime = (\<lambda>_. 1000),
      ke_read_user = mem_read example_umem, ke_read_user_str = mem_read example_umem,
      ke_read_kernel = mem_read example_kmem, ke_read_kernel_str = mem_read example_kmem, ke_map_full = (\<lambda>_. False),
      ke_http2_seq_evicted = (\<lambda>_. False), ke_go_rw_ts_evicted = (\<lambda>_. False),
      ke_tail_call = (\<lambda>_. True), ke_perf_output = (\<lambda>_. True),
      ke_protocol_filter = (\<lambda>_. Some 1), ke_allow_reasm_protos = (\<lambda>_. Some False),
      ke_proto_ports_bitmap = (\<lambda>_. Some (\<lambda>_. 255)), ke_kprobe_port_bitmap = (\<lambda>_. None),
      ke_proc_info = (\<lambda>_. None), ke_adapt_id = Some (push_bit 32 77),
      ke_adapt_mnt_id = 0, ke_adapt_mntns_id = 0\<rparr>"

definition example_kstate :: kern_state where
  "example_kstate =
     \<lparr>ks_offset = (\<lambda>_. Some example_offset), ks_tracer = (\<lambda>_. Some example_tracer), ks_stats = Some example_stats,
      ks_socket_info = (\<lambda>_. None), ks_socket_role = (\<lambda>_. None), ks_trace = (\<lambda>_. None),
      ks_read_args = (\<lambda>_. None), ks_write_args = (\<lambda>_. None), ks_goroutines = (\<lambda>_. None),
      ks_go_rw_ts = (\<lambda>_. None), ks_go_ancestor = (\<lambda>_. None), ks_infer_cache = (\<lambda>_. Some (\<lambda>_. PROTO_UNKNOWN)),
      ks_http2_seq = (\<lambda>_. None), ks_ctx_info = (\<lambda>_. Some example_context),
      ks_data_buf = (\<lambda>_. Some example_buffer), ks_io_buffer = (\<lambda>_. None), ks_out = []\<rparr>"

end
