(* ===== verification/Kern_Offsets.thy ===== *)
theory Kern_Offsets
  imports Kern_State
begin

text \<open>
  How the agent finds the layout of the running kernel (\<^verbatim>\<open>infer_offset_phase_1/2\<close> of
  \<^verbatim>\<open>socket_trace.bpf.c\<close> and \<^verbatim>\<open>infer_and_get_socket_from_fd\<close> of \<^verbatim>\<open>task_struct_utils.h\<close>): the agent makes system
  calls on a connected socket of its own, and the programs try candidate offsets until what they read
  is what the socket is known to hold. The candidate lists are those of the 5.2+ build and of the
  default build.
\<close>

section \<open>Candidates\<close>

definition sock_flags_offset_array :: "bool \<Rightarrow> u32 list" where
  "sock_flags_offset_array ver_5_2 =
     (if ver_5_2 then [0x1f0, 0x1f8, 0x200, 0x208, 0x210, 0x218, 0x220, 0x230, 0x238]
      else [0x1f0, 0x1f8, 0x200, 0x208, 0x210, 0x218])"

definition files_offset_array :: "bool \<Rightarrow> u32 list" where
  "files_offset_array ver_5_2 =
     (if ver_5_2 then
        [0x790, 0xa80, 0xa88, 0xa90, 0xa98, 0xaa0, 0xaa8, 0xab0, 0xab8, 0xac0,
         0xac8, 0xad0, 0xad8, 0xae0, 0xae8, 0xaf0, 0xaf8, 0xb00, 0xb08, 0xb10,
         0xb18, 0xb20, 0xb28, 0xb48, 0xb50, 0xb58, 0xb60, 0xb68, 0xb70, 0xb78,
         0xb80, 0xb88, 0xb90, 0xb98, 0xba0, 0xba8, 0xbb0, 0xbb8, 0xbc0, 0xbc8,
         0xbd0, 0xbd8, 0xbe0, 0xbe8, 0xbf0, 0xbf8, 0xc00, 0xc08, 0xc10, 0xc18,
         0xcc8, 0xa48, 0xc60, 0x730]
      else
        [0x6c0, 0x790, 0x7b0, 0xa80, 0xa88, 0xaa0, 0xaa8, 0xab0, 0xab8, 0xac0,
         0xac8, 0xad0, 0xad8, 0xae0, 0xae8, 0xaf0, 0xaf8, 0xb00, 0xb08, 0xb10,
         0xb18, 0xb20, 0xb48, 0xb50, 0xb58, 0xb60, 0xb68, 0xb70, 0xb78, 0xb90,
         0xb98, 0xba0, 0xbb0, 0x740, 0xbc0, 0xbc8, 0xbd0, 0xbd8, 0xbe0, 0xbe8,
         0xbf0, 0xbf8, 0xc00, 0xc08, 0xcc8, 0xd08, 0x6b8, 0xb88, 0xcd8, 0x7c8,
         0xa98, 0xa90])"

definition copied_seq_offsets :: "bool \<Rightarrow> u32 list" where
  "copied_seq_offsets ver_5_2 =
     (if ver_5_2 then
        [0x514, 0x51c, 0x524, 0x52c, 0x534, 0x53c, 0x544, 0x54c, 0x554, 0x55c,
         0x564, 0x56c, 0x574, 0x57c, 0x584, 0x58c, 0x594, 0x59c, 0x5dc, 0x644,
         0x654, 0x63c, 0x5f4]
      else
        [0x514, 0x51c, 0x524, 0x52c, 0x534, 0x53c, 0x544, 0x54c, 0x554, 0x55c,
         0x564, 0x56c, 0x574, 0x654, 0x5dc, 0x5cc, 0x644, 0x65c, 0x664, 0x69c,
         0x694])"

definition write_seq_offsets :: "bool \<Rightarrow> u32 list" where
  "write_seq_offsets ver_5_2 =
     (if ver_5_2 then
        [0x66c, 0x674, 0x67c, 0x684, 0x68c, 0x694, 0x69c, 0x6a4, 0x6ac, 0x6b4, 0x6bc, 0x6c4,
         0x6cc, 0x6d4, 0x6dc, 0x6e4, 0x6ec, 0x6f4, 0x6fc, 0x704, 0x70c, 0x714, 0x71c, 0x74c,
         0x7b4, 0x7d4, 0x7bc, 0x774]
      else
        [0x66c, 0x674, 0x67c, 0x684, 0x68c, 0x694, 0x69c, 0x6a4, 0x6ac, 0x6b4, 0x6bc, 0x6c4,
         0x6cc, 0x6d4, 0x6dc, 0x6e4, 0x6ec, 0x6f4, 0x7c4, 0x73c, 0x74c, 0x7b4, 0x7d4, 0x7dc,
         0x80c, 0x804])"

text \<open>A loop over the candidates that stops at the first accepted one.\<close>

fun first_candidate :: "(u32 \<Rightarrow> bool) \<Rightarrow> u32 list \<Rightarrow> u32 option" where
  "first_candidate ok [] = None"
| "first_candidate ok (x # xs) = (if ok x then Some x else first_candidate ok xs)"

lemma first_candidate_Some:
  "first_candidate ok xs = Some x \<Longrightarrow> ok x \<and> x \<in> set xs"
  by (induction xs) (auto split: if_splits)

lemma first_candidate_None: "first_candidate ok xs = None \<longleftrightarrow> (\<forall>x\<in>set xs. \<not> ok x)"
  by (induction xs) auto

section \<open>Phase 1: the descriptor table and the socket flags\<close>

definition retry_get_socket_file_addr :: "kern_env \<Rightarrow> u64 \<Rightarrow> u32 \<Rightarrow> u32 \<Rightarrow> u32 \<Rightarrow> u64" where
  "retry_get_socket_file_addr env task fd_num fdt_offset files_off =
     (let files = rk_u64 env (task + scast files_off)
      in if files = 0 then 0
         else
           (let fdt = rk_u64 env (files + scast fdt_offset);
                fdtable = snd (ke_read_kernel env fdt 16)
            in rk_u64 env (ld_u64 fdtable 8 + 8 * scast fd_num)))"

text \<open>The test of one candidate: the file found there is the file of the socket it belongs to.\<close>

definition files_offset_fits :: "kern_env \<Rightarrow> u32 \<Rightarrow> member_fields_offset \<Rightarrow> u32 \<Rightarrow> bool" where
  "files_offset_fits env fd_num offset files_off =
     (let file = retry_get_socket_file_addr env (ke_current_task env) fd_num
                   (ucast (mo_files_struct_fdt offset)) files_off
      in if file = 0 then False
         else
           (let private_data = rk_u64 env (file + ucast (mo_file_private_data offset))
            in if private_data = 0 then False
               else
                 (let socket = snd (ke_read_kernel env private_data 48)
                  in ld_u64 socket 24 = file \<or> file = ld_u64 socket 16)))"

definition infer_and_get_socket_from_fd ::
    "kern_env \<Rightarrow> u32 \<Rightarrow> member_fields_offset \<Rightarrow> u64 \<times> member_fields_offset" where
  "infer_and_get_socket_from_fd env fd_num offset =
     (let offset1 =
            (if mo_task_files offset = 0 then
               (case first_candidate (files_offset_fits env fd_num offset)
                       (files_offset_array (ke_ver_5_2_plus env)) of
                  Some x \<Rightarrow> offset\<lparr>mo_task_files := x\<rparr>
                | None \<Rightarrow> offset)
             else offset)
      in if mo_task_files offset1 = 0 then (0, offset1)
         else
           (let file = retry_get_socket_file_addr env (ke_current_task env) fd_num
                         (ucast (mo_files_struct_fdt offset1)) (mo_task_files offset1)
            in if file = 0 then (0, offset1) else (sock_of_file env offset1 file, offset1)))"

text \<open>A flags word is accepted when the type is a datagram or stream socket and the two low bits,
  \<^verbatim>\<open>sk_padding\<close> and \<^verbatim>\<open>sk_kern_sock\<close>, are clear.\<close>

definition sock_flags_fit :: "kern_env \<Rightarrow> u64 \<Rightarrow> u32 \<Rightarrow> bool" where
  "sock_flags_fit env sk off =
     (let flags = rk_u32 env (sk + scast off);
          sk_type = ucast (drop_bit 16 flags) :: u16
      in (sk_type = SOCK_DGRAM \<or> sk_type = SOCK_STREAM) \<and> \<not> bit flags 1 \<and> \<not> bit flags 0)"

definition infer_sock_flags :: "kern_env \<Rightarrow> u64 \<Rightarrow> member_fields_offset \<Rightarrow> member_fields_offset" where
  "infer_sock_flags env sk offset =
     (case first_candidate (sock_flags_fit env sk) (sock_flags_offset_array (ke_ver_5_2_plus env)) of
        Some x \<Rightarrow> offset\<lparr>mo_sock_flags := x\<rparr>
      | None \<Rightarrow> offset)"

definition infer_offset_phase_1 :: "kern_env \<Rightarrow> u32 \<Rightarrow> kern_state \<Rightarrow> bool \<times> kern_state" where
  "infer_offset_phase_1 env fd ks =
     (case current_offset env ks of
        None \<Rightarrow> (False, ks)
      | Some offset \<Rightarrow>
          if mo_ready offset = 0 then
            (if \<not> check_pid_validity env then (False, ks)
             else
               (let (infer_sk, offset1) = infer_and_get_socket_from_fd env fd offset;
                    offset2 = (if infer_sk \<noteq> 0 \<and> mo_sock_flags offset1 = 0
                               then infer_sock_flags env infer_sk offset1 else offset1)
                in (False, set_offset env offset2 ks)))
          else (True, ks))"

section \<open>Phase 2: the TCP sequence numbers\<close>

definition retry_get_copied_seq :: "kern_env \<Rightarrow> u64 \<Rightarrow> u32 \<Rightarrow> u32" where
  "retry_get_copied_seq env sk off =
     (let copied_seq = rk_u32 env (sk + scast off);
          rcv_nxt = rk_u32 env (sk + scast off - 4);
          rcv_wup = rk_u32 env (sk + scast off + 4);
          tcp_header_len = rk_u16 env (sk + scast off - 28)
      in if \<not> (tcp_header_len \<ge> 20 \<and> tcp_header_len \<le> 60 \<and> copied_seq \<noteq> 0) then 0
         else if copied_seq = rcv_nxt \<and> rcv_wup = rcv_nxt then copied_seq
         else 0)"

definition retry_get_write_seq :: "kern_env \<Rightarrow> u64 \<Rightarrow> u32 \<Rightarrow> u32 \<Rightarrow> u32" where
  "retry_get_write_seq env sk off snd_nxt_offset =
     (let write_seq = rk_u32 env (sk + scast off);
          snd_nxt = rk_u32 env (sk + scast snd_nxt_offset)
      in if snd_nxt = write_seq \<and> snd_nxt \<noteq> 0 \<and> write_seq \<noteq> 0 then write_seq else 0)"

definition infer_tcp_seq_offset :: "kern_env \<Rightarrow> u64 \<Rightarrow> member_fields_offset \<Rightarrow> member_fields_offset" where
  "infer_tcp_seq_offset env sk offset =
     (let offset1 =
            (if mo_copied_seq offset = 0 then
               (case first_candidate (\<lambda>x. retry_get_copied_seq env sk x \<noteq> 0)
                       (copied_seq_offsets (ke_ver_5_2_plus env)) of
                  Some x \<Rightarrow> offset\<lparr>mo_copied_seq := x\<rparr>
                | None \<Rightarrow> offset)
             else offset);
          snd_nxt_offset = mo_copied_seq offset1 + 8
      in if snd_nxt_offset = 8 then offset1
         else if mo_write_seq offset1 = 0 then
           (case first_candidate (\<lambda>x. retry_get_write_seq env sk x snd_nxt_offset \<noteq> 0)
                   (write_seq_offsets (ke_ver_5_2_plus env)) of
              Some x \<Rightarrow> offset1\<lparr>mo_write_seq := x\<rparr>
            | None \<Rightarrow> offset1)
         else offset1)"

definition infer_offset_phase_2 :: "kern_env \<Rightarrow> u32 \<Rightarrow> kern_state \<Rightarrow> bool \<times> kern_state" where
  "infer_offset_phase_2 env fd ks =
     (case current_offset env ks of
        None \<Rightarrow> (False, ks)
      | Some offset \<Rightarrow>
          if mo_ready offset = 0 then
            (if \<not> check_pid_validity env then (False, ks)
             else if mo_sock_flags offset = 0 \<or> mo_task_files offset = 0 then (False, ks)
             else
               (let sk = get_socket_from_fd env fd offset
                in if sk \<noteq> 0 \<and> (mo_copied_seq offset = 0 \<or> mo_write_seq offset = 0) then
                     (let offset1 = infer_tcp_seq_offset env sk offset;
                          offset2 = (if mo_copied_seq offset1 \<noteq> 0 \<and> mo_write_seq offset1 \<noteq> 0 \<and>
                                        mo_sock_flags offset1 \<noteq> 0 \<and> mo_task_files offset1 \<noteq> 0
                                     then offset1\<lparr>mo_ready := 1\<rparr> else offset1)
                      in (mo_ready offset2 \<noteq> 0, set_offset env offset2 ks))
                   else (False, ks)))
          else (True, ks))"

section \<open>What a run of the two phases can reach\<close>

text \<open>One phase, run for some task and descriptor on the given CPU and build.\<close>

inductive offset_step :: "nat \<Rightarrow> bool \<Rightarrow> kern_state \<Rightarrow> kern_state \<Rightarrow> bool" for cpu ver where
  phase_1: "ke_cpu env = cpu \<Longrightarrow> ke_ver_5_2_plus env = ver
    \<Longrightarrow> offset_step cpu ver ks (snd (infer_offset_phase_1 env fd ks))"
| phase_2: "ke_cpu env = cpu \<Longrightarrow> ke_ver_5_2_plus env = ver
    \<Longrightarrow> offset_step cpu ver ks (snd (infer_offset_phase_2 env fd ks))"

definition offset_in :: "u32 \<Rightarrow> u32 list \<Rightarrow> bool" where
  "offset_in x xs \<longleftrightarrow> x = 0 \<or> x \<in> set xs"

definition offsets_ok :: "bool \<Rightarrow> member_fields_offset \<Rightarrow> bool" where
  "offsets_ok ver o1 \<longleftrightarrow>
     offset_in (mo_task_files o1) (files_offset_array ver) \<and>
     offset_in (mo_sock_flags o1) (sock_flags_offset_array ver) \<and>
     offset_in (mo_copied_seq o1) (copied_seq_offsets ver) \<and>
     offset_in (mo_write_seq o1) (write_seq_offsets ver) \<and>
     (mo_ready o1 \<noteq> 0 \<longrightarrow>
        mo_task_files o1 \<noteq> 0 \<and> mo_sock_flags o1 \<noteq> 0 \<and> mo_copied_seq o1 \<noteq> 0 \<and> mo_write_seq o1 \<noteq> 0)"

lemma infer_and_get_ok:
  assumes "offsets_ok (ke_ver_5_2_plus env) o1" "mo_ready o1 = 0"
  shows "offsets_ok (ke_ver_5_2_plus env) (snd (infer_and_get_socket_from_fd env fd o1))"
    "mo_ready (snd (infer_and_get_socket_from_fd env fd o1)) = 0"
  using assms
  by (auto simp: infer_and_get_socket_from_fd_def offsets_ok_def Let_def offset_in_def
      dest!: first_candidate_Some split: option.splits)

lemma infer_sock_flags_ok:
  assumes "offsets_ok (ke_ver_5_2_plus env) o1" "mo_ready o1 = 0"
  shows "offsets_ok (ke_ver_5_2_plus env) (infer_sock_flags env sk o1)"
    "mo_ready (infer_sock_flags env sk o1) = 0"
  using assms
  by (auto simp: infer_sock_flags_def offsets_ok_def offset_in_def
      dest!: first_candidate_Some split: option.splits)

lemma infer_tcp_seq_offset_ok:
  assumes "offsets_ok (ke_ver_5_2_plus env) o1" "mo_ready o1 = 0"
  shows "offsets_ok (ke_ver_5_2_plus env) (infer_tcp_seq_offset env sk o1)"
    "mo_ready (infer_tcp_seq_offset env sk o1) = 0"
  using assms
  by (auto simp: infer_tcp_seq_offset_def offsets_ok_def Let_def offset_in_def
      dest!: first_candidate_Some split: option.splits)

definition cpu_offsets_ok :: "nat \<Rightarrow> bool \<Rightarrow> kern_state \<Rightarrow> bool" where
  "cpu_offsets_ok cpu ver ks \<longleftrightarrow> (case ks_offset ks cpu of None \<Rightarrow> True | Some o1 \<Rightarrow> offsets_ok ver o1)"

lemma set_offset_cpu [simp]: "ks_offset (set_offset env o1 ks) (ke_cpu env) = Some o1"
  by (simp add: set_offset_def)

lemma phase_1_ok:
  assumes "cpu_offsets_ok (ke_cpu env) (ke_ver_5_2_plus env) ks"
  shows "cpu_offsets_ok (ke_cpu env) (ke_ver_5_2_plus env) (snd (infer_offset_phase_1 env fd ks))"
  using assms
  by (auto simp: infer_offset_phase_1_def cpu_offsets_ok_def current_offset_def split_beta Let_def
      infer_and_get_ok infer_sock_flags_ok split: option.splits)

lemma phase_2_ok:
  assumes "cpu_offsets_ok (ke_cpu env) (ke_ver_5_2_plus env) ks"
  shows "cpu_offsets_ok (ke_cpu env) (ke_ver_5_2_plus env) (snd (infer_offset_phase_2 env fd ks))"
proof -
  have ready: "offsets_ok v (o1\<lparr>mo_ready := 1\<rparr>)"
    if "offsets_ok v o1" "mo_copied_seq o1 \<noteq> 0" "mo_write_seq o1 \<noteq> 0" "mo_sock_flags o1 \<noteq> 0" "mo_task_files o1 \<noteq> 0"
    for v o1
    using that by (simp add: offsets_ok_def)
  show ?thesis
    using assms
    by (auto simp: infer_offset_phase_2_def cpu_offsets_ok_def current_offset_def split_beta Let_def
        infer_tcp_seq_offset_ok ready split: option.splits)
qed

lemma offset_step_ok: "offset_step cpu ver ks ks' \<Longrightarrow> cpu_offsets_ok cpu ver ks \<Longrightarrow> cpu_offsets_ok cpu ver ks'"
  by (induction rule: offset_step.induct) (auto dest: phase_1_ok phase_2_ok)

lemma offset_steps_ok:
  "(offset_step cpu ver)\<^sup>*\<^sup>* ks ks' \<Longrightarrow> cpu_offsets_ok cpu ver ks \<Longrightarrow> cpu_offsets_ok cpu ver ks'"
  by (induction rule: rtranclp_induct) (auto dest: offset_step_ok)

lemma offset_step_ready:
  "offset_step cpu ver ks ks' \<Longrightarrow> ks_offset ks cpu = Some o1 \<Longrightarrow> mo_ready o1 \<noteq> 0 \<Longrightarrow> ks' = ks"
  by (induction rule: offset_step.induct)
     (auto simp: infer_offset_phase_1_def infer_offset_phase_2_def current_offset_def)

text \<open>C11: Kernel layout. From offsets not yet inferred, whatever tasks, descriptors and memory contents the
  phases run on, offsets marked ready are all set, each to one of the candidates of the build, and no
  later phase changes anything.\<close>

theorem offsets_ready_sound:
  assumes "(offset_step cpu ver)\<^sup>*\<^sup>* ks ks'" "(offset_step cpu ver)\<^sup>*\<^sup>* ks' ks''"
    and "ks_offset ks cpu = Some o1" "mo_ready o1 = 0" "mo_task_files o1 = 0" "mo_sock_flags o1 = 0"
      "mo_copied_seq o1 = 0" "mo_write_seq o1 = 0"
    and "ks_offset ks' cpu = Some o2" "mo_ready o2 \<noteq> 0"
  shows "mo_task_files o2 \<in> set (files_offset_array ver) \<and> mo_sock_flags o2 \<in> set (sock_flags_offset_array ver) \<and>
    mo_copied_seq o2 \<in> set (copied_seq_offsets ver) \<and> mo_write_seq o2 \<in> set (write_seq_offsets ver) \<and>
    ks'' = ks'"
proof -
  have "cpu_offsets_ok cpu ver ks"
    using assms(3-8) by (simp add: cpu_offsets_ok_def offsets_ok_def offset_in_def)
  from offset_steps_ok [OF assms(1) this] have "offsets_ok ver o2"
    using assms(9) by (simp add: cpu_offsets_ok_def)
  moreover have "ks'' = ks'"
    using assms(2,9,10) by (induction rule: rtranclp_induct) (auto dest: offset_step_ready)
  ultimately show ?thesis using assms(10) by (auto simp: offsets_ok_def offset_in_def)
qed

definition example_unready_kstate :: kern_state where
  "example_unready_kstate = example_kstate\<lparr>ks_offset := (\<lambda>_. Some example_unready)\<rparr>"

definition example_unready_1 :: member_fields_offset where
  "example_unready_1 = example_unready\<lparr>mo_task_files := 0x790, mo_sock_flags := 0x1f0\<rparr>"

lemma example_phase_1_steps:
  "infer_and_get_socket_from_fd (example_kenv True) 5 example_unready = (0x70000, example_unready\<lparr>mo_task_files := 0x790\<rparr>)"
  "infer_sock_flags (example_kenv True) 0x70000 (example_unready\<lparr>mo_task_files := 0x790\<rparr>) = example_unready_1"
  "check_pid_validity (example_kenv True)"
  by code_simp+

lemma example_phase_2_steps:
  "get_socket_from_fd (example_kenv True) 5 example_unready_1 = 0x70000"
  "infer_tcp_seq_offset (example_kenv True) 0x70000 example_unready_1 =
     example_unready_1\<lparr>mo_copied_seq := 0x514, mo_write_seq := 0x66c\<rparr>"
  by code_simp+

lemma example_phases:
  "ks_offset (snd (infer_offset_phase_2 (example_kenv True) 5
     (snd (infer_offset_phase_1 (example_kenv True) 5 example_unready_kstate)))) 0 =
   Some (example_unready_1\<lparr>mo_copied_seq := 0x514, mo_write_seq := 0x66c, mo_ready := 1\<rparr>)"
proof -
  have c: "ke_cpu (example_kenv True) = 0" by (simp add: example_kenv_def)
  have f: "mo_ready example_unready = 0" "mo_sock_flags (example_unready\<lparr>mo_task_files := x\<rparr>) = 0" for x
    by (simp_all add: example_unready_def)
  have g: "mo_ready example_unready_1 = 0" "mo_sock_flags example_unready_1 = 0x1f0" "mo_task_files example_unready_1 = 0x790"
    "mo_copied_seq example_unready_1 = 0"
    by (simp_all add: example_unready_1_def example_unready_def)
  have 1: "infer_offset_phase_1 (example_kenv True) 5 example_unready_kstate =
      (False, set_offset (example_kenv True) example_unready_1 example_unready_kstate)"
    by (simp add: infer_offset_phase_1_def current_offset_def c example_unready_kstate_def f example_phase_1_steps)
  show ?thesis
    by (simp add: 1 infer_offset_phase_2_def current_offset_def c set_offset_def g example_phase_2_steps example_phase_1_steps(3))
qed

theorem offsets_ready_sound_witness:
  "map_option mo_write_seq (ks_offset (snd (infer_offset_phase_2 (example_kenv True) 5
     (snd (infer_offset_phase_1 (example_kenv True) 5 example_unready_kstate)))) 0) = Some 0x66c \<and>
   (0x66c :: u32) \<in> set (write_seq_offsets True)"
proof -
  define ks1 where "ks1 = snd (infer_offset_phase_1 (example_kenv True) 5 example_unready_kstate)"
  define ks2 where "ks2 = snd (infer_offset_phase_2 (example_kenv True) 5 ks1)"
  define o2 where "o2 = example_unready_1\<lparr>mo_copied_seq := 0x514, mo_write_seq := 0x66c, mo_ready := 1\<rparr>"
  have cpu: "ke_cpu (example_kenv True) = 0" "ke_ver_5_2_plus (example_kenv True) = True"
    by (simp_all add: example_kenv_def)
  have "offset_step 0 True example_unready_kstate ks1" "offset_step 0 True ks1 ks2"
    unfolding ks1_def ks2_def by (rule offset_step.intros [OF cpu])+
  then have steps: "(offset_step 0 True)\<^sup>*\<^sup>* example_unready_kstate ks2" by simp
  have o1: "ks_offset example_unready_kstate 0 = Some example_unready" by (simp add: example_unready_kstate_def)
  have o2: "ks_offset ks2 0 = Some o2" "mo_ready o2 \<noteq> 0" "mo_write_seq o2 = 0x66c"
    using example_phases by (simp_all add: ks1_def ks2_def o2_def)
  have "mo_write_seq o2 \<in> set (write_seq_offsets True)"
    using offsets_ready_sound [OF steps rtranclp.rtrancl_refl o1 _ _ _ _ _ o2(1,2)] by (simp add: example_unready_def)
  with o2 show ?thesis by (simp add: ks1_def ks2_def)
qed

end
