(* ===== verification/Trace_Process.thy ===== *)
theory Trace_Process
  imports Kern_State
begin

text \<open>
  Thread trace identifiers: the goroutine that stands for a request (\<^verbatim>\<open>uprobe_base.bpf.c\<close>), the key of a
  trace, and \<^verbatim>\<open>trace_process\<close> of \<^verbatim>\<open>socket_trace.bpf.c\<close>, which hands the identifier of an incoming message
  to the next outgoing message of the same thread. The identifiers come from per-CPU counters that
  \<^verbatim>\<open>user/socket.c\<close> starts in disjoint ranges.
\<close>

section \<open>Goroutines\<close>

definition get_current_goroutine :: "kern_env \<Rightarrow> kern_state \<Rightarrow> u64" where
  "get_current_goroutine env ks =
     (case ks_goroutines ks (ke_pid_tgid env) of Some goid \<Rightarrow> goid | None \<Rightarrow> 0)"

definition is_final_ancestor :: "kern_state \<Rightarrow> u32 \<Rightarrow> u64 \<Rightarrow> u64 \<Rightarrow> u64 \<Rightarrow> bool" where
  "is_final_ancestor ks tgid goid now timeout =
     (case ks_go_rw_ts ks (tgid, goid) of None \<Rightarrow> False | Some ts \<Rightarrow> now < ts + timeout)"

text \<open>The loop over the ancestors with \<open>n\<close> steps left: \<open>None\<close> when it ends without a return.\<close>

fun find_ancestor :: "nat \<Rightarrow> kern_state \<Rightarrow> u32 \<Rightarrow> u64 \<Rightarrow> u64 \<Rightarrow> u64 \<Rightarrow> u64 option" where
  "find_ancestor 0 ks tgid ancestor ts timeout = None"
| "find_ancestor (Suc n) ks tgid ancestor ts timeout =
     (if is_final_ancestor ks tgid ancestor ts timeout then Some ancestor
      else
        (case ks_go_ancestor ks (tgid, ancestor) of
           None \<Rightarrow> None
         | Some newancestor \<Rightarrow> find_ancestor n ks tgid newancestor ts timeout))"

definition get_rw_goid :: "kern_env \<Rightarrow> u64 \<Rightarrow> bool \<Rightarrow> kern_state \<Rightarrow> u64 \<times> kern_state" where
  "get_rw_goid env timeout is_socket_io ks =
     (let tgid = ucast (drop_bit 32 (ke_pid_tgid env)) :: u32;
          ts = ke_ktime env KT_goid;
          goid = get_current_goroutine env ks
      in if goid = 0 then (0, ks)
         else
           (case find_ancestor 6 ks tgid goid ts timeout of
              Some ancestor \<Rightarrow> (ancestor, ks)
            | None \<Rightarrow>
                if \<not> is_socket_io then (0, ks)
                else (goid, ks\<lparr>ks_go_rw_ts := lru_update (ke_map_full env M_go_rw_ts) (ke_go_rw_ts_evicted env) False
                                            (ks_go_rw_ts ks) (tgid, goid) ts\<rparr>)))"

section \<open>Trace keys\<close>

definition NS_PER_SEC :: u64 where "NS_PER_SEC = 1000000000"

definition get_trace_key :: "kern_env \<Rightarrow> u64 \<Rightarrow> bool \<Rightarrow> kern_state \<Rightarrow> trace_key_t \<times> kern_state" where
  "get_trace_key env timeout is_socket_io ks =
     (let pid_tgid = ke_pid_tgid env;
          (goid, ks1) = (if timeout \<noteq> 0 then get_rw_goid env (timeout * NS_PER_SEC) is_socket_io ks else (0, ks));
          tgid = ucast (drop_bit 32 pid_tgid)
      in (if goid \<noteq> 0 then \<lparr>tk_tgid = tgid, tk_pid = 0, tk_goid = goid\<rparr>
          else \<lparr>tk_tgid = tgid, tk_pid = ucast pid_tgid, tk_goid = 0\<rparr>, ks1))"

section \<open>trace_process\<close>

text \<open>\<^verbatim>\<open>pre_trace_id\<close>: a message in the direction of the socket's previous one keeps the identifier.\<close>

definition pre_trace_id :: "socket_info_s option \<Rightarrow> conn_info_s \<Rightarrow> trace_info_t option \<Rightarrow> u64" where
  "pre_trace_id sock c trace_info_ptr =
     (case (sock, trace_info_ptr) of
        (Some s, Some ti) \<Rightarrow>
          if is_socket_info_valid sock \<and> ci_direction c = si_direction s then ti_thread_trace_id ti else 0
      | _ \<Rightarrow> 0)"

text \<open>\<^verbatim>\<open>trace_info.peer_fd\<close> of an incoming message.\<close>

definition trace_peer_fd :: "socket_info_s option \<Rightarrow> conn_info_s \<Rightarrow> u32" where
  "trace_peer_fd sock c =
     (if ci_message_type c = MSG_REQUEST \<and> \<not> ci_is_reasm_seg c then ci_fd c
      else if ci_message_type c = MSG_RESPONSE then
        (case sock of
           Some s \<Rightarrow> if is_socket_info_valid sock \<and> si_peer_fd s \<noteq> 0 then si_peer_fd s else 0
         | None \<Rightarrow> 0)
      else 0)"

text \<open>The result is \<^verbatim>\<open>*thread_trace_id\<close>, which the caller has set to zero. \<open>t\<close> is the CPU's context.\<close>

definition trace_process ::
    "kern_env \<Rightarrow> socket_info_s option \<Rightarrow> conn_info_s \<Rightarrow> u64 \<Rightarrow> trace_info_t option \<Rightarrow> tracer_ctx_s \<Rightarrow> u64
      \<Rightarrow> trace_key_t \<Rightarrow> kern_state \<Rightarrow> u64 \<times> kern_state" where
  "trace_process env sock c socket_id trace_info_ptr t time_stamp trace_key ks =
     (let pre = pre_trace_id sock c trace_info_ptr
      in case ci_direction c of
           T_INGRESS \<Rightarrow>
             (let trace_id = (if pre = 0 then tc_thread_trace_id t + 1 else pre);
                  ks1 = (if pre = 0 then upd_tracer env (\<lambda>t. t\<lparr>tc_thread_trace_id := trace_id\<rparr>) ks else ks);
                  trace_info = \<lparr>ti_update_time = ucast (time_stamp div NS_PER_SEC),
                                ti_peer_fd = trace_peer_fd sock c,
                                ti_thread_trace_id = trace_id, ti_socket_id = socket_id\<rparr>;
                  (ret, m) = map_update (ke_map_full env M_trace) (ks_trace ks1) trace_key trace_info;
                  ks2 = ks1\<lparr>ks_trace := m\<rparr>
              in (trace_id,
                  if trace_info_ptr = None \<and> ret = 0
                  then upd_stats (\<lambda>st. st\<lparr>ts_trace_map_count := ts_trace_map_count st + 1\<rparr>) ks2
                  else ks2))
         | T_EGRESS \<Rightarrow>
             (case trace_info_ptr of
                None \<Rightarrow> (0, ks)
              | Some ti \<Rightarrow>
                  if ci_keep_trace c then (ti_thread_trace_id ti, ks)
                  else
                    (let (ret, m) = map_delete (ks_trace ks) trace_key;
                         ks1 = ks\<lparr>ks_trace := m\<rparr>
                     in (ti_thread_trace_id ti,
                         if ret = 0
                         then upd_stats (\<lambda>st. st\<lparr>ts_trace_map_count := ts_trace_map_count st - 1\<rparr>) ks1
                         else ks1))))"

section \<open>The counters\<close>

text \<open>The context that \<^verbatim>\<open>user/socket.c\<close> gives a CPU at start.\<close>

definition uid_start :: "nat \<Rightarrow> u64 \<Rightarrow> u64" where
  "uid_start cpu uid_base = push_bit 56 (of_nat cpu) OR uid_base"

definition uid_base_of :: "u64 \<Rightarrow> u64" where
  "uid_base_of now_ns = (now_ns div 100) AND 0xffffffffffffff"

definition init_tracer_ctx :: "nat \<Rightarrow> u64 \<Rightarrow> tracer_ctx_s \<Rightarrow> tracer_ctx_s" where
  "init_tracer_ctx cpu uid_base conf =
     conf\<lparr>tc_socket_id := uid_start cpu uid_base, tc_coroutine_trace_id := uid_start cpu uid_base,
          tc_thread_trace_id := uid_start cpu uid_base, tc_push_buffer_refcnt := 0,
          tc_last_period_timestamp := 0, tc_period_timestamp := 0\<rparr>"

section \<open>Ranges of identifiers\<close>

definition in_range :: "nat \<Rightarrow> u64 \<Rightarrow> bool" where
  "in_range cpu x \<longleftrightarrow> unat x div 2 ^ 56 = cpu"

lemma uid_base_take_bit: "uid_base_of now = take_bit 56 (now div 100)"
  by (simp add: uid_base_of_def take_bit_eq_mask mask_eq_exp_minus_1)

lemma uid_start_range:
  assumes "cpu < 256" "uid_base = take_bit 56 x"
  shows "in_range cpu (uid_start cpu uid_base)"
proof -
  have b: "unat uid_base < 2 ^ 56"
    unfolding assms(2) unsigned_take_bit_eq by (rule take_bit_nat_less_exp)
  have "uid_start cpu uid_base = push_bit 56 (of_nat cpu) + uid_base"
    unfolding uid_start_def assms(2) by (intro disjunctive_add [symmetric]) (auto simp: bit_simps)
  also have "\<dots> = of_nat (2 ^ 56 * cpu + unat uid_base)"
    by (simp add: push_bit_eq_mult mult.commute)
  finally have "unat (uid_start cpu uid_base) = 2 ^ 56 * cpu + unat uid_base"
    using assms(1) b by (simp only:) (rule unat_of_nat_u64, simp)
  then show ?thesis using b by (simp add: in_range_def)
qed

lemma in_range_unique: "in_range cpu x \<Longrightarrow> in_range cpu' x \<Longrightarrow> cpu = cpu'"
  by (simp add: in_range_def)

lemma in_range_succ:
  assumes "in_range cpu x" "in_range cpu (x + 1)"
  shows "unat (x + 1) = unat x + 1"
proof (cases "unat x + 1 < 2 ^ 64")
  case True
  then show ?thesis by (simp add: unat_word_ariths)
next
  case False
  then have "unat x + 1 = 2 ^ 64" using unat_u64_less [of x] by simp
  then have "unat (x + 1) = 0" "unat x = 2 ^ 64 - 1" by (simp_all add: unat_word_ariths)
  then show ?thesis using assms by (simp add: in_range_def)
qed

section \<open>Runs of trace_process\<close>

text \<open>One call on some CPU whose counter has not used up its range, with the entry of the key as
  \<^verbatim>\<open>trace_info_ptr\<close>, which is how \<^verbatim>\<open>__data_submit\<close> calls it.\<close>

inductive trace_step :: "kern_state \<Rightarrow> kern_state \<Rightarrow> bool" where
  "ks_tracer ks (ke_cpu env) = Some t \<Longrightarrow> in_range (ke_cpu env) (tc_thread_trace_id t + 1)
    \<Longrightarrow> trace_step ks (snd (trace_process env sock c socket_id (ks_trace ks key) t time_stamp key ks))"

definition trace_id_at :: "kern_state \<Rightarrow> trace_key_t \<Rightarrow> u64" where
  "trace_id_at ks k = ti_thread_trace_id (the (ks_trace ks k))"

definition counters_ok :: "kern_state \<Rightarrow> bool" where
  "counters_ok ks \<longleftrightarrow> (\<forall>cpu t. ks_tracer ks cpu = Some t \<longrightarrow> in_range cpu (tc_thread_trace_id t))"

text \<open>Every identifier in use was handed out by a counter, and no two keys share one.\<close>

definition trace_ids_ok :: "kern_state \<Rightarrow> bool" where
  "trace_ids_ok ks \<longleftrightarrow>
     (\<forall>k\<in>dom (ks_trace ks). \<exists>cpu t. ks_tracer ks cpu = Some t \<and> in_range cpu (trace_id_at ks k) \<and>
        trace_id_at ks k \<le> tc_thread_trace_id t) \<and>
     inj_on (trace_id_at ks) (dom (ks_trace ks))"

definition trace_count_ok :: "kern_state \<Rightarrow> bool" where
  "trace_count_ok ks \<longleftrightarrow> (\<forall>st. ks_stats ks = Some st \<longrightarrow> counted (ts_trace_map_count st) (ks_trace ks))"

lemma trace_process_tracer:
  assumes "ks_tracer ks (ke_cpu env) = Some t"
  shows "ks_tracer (snd (trace_process env sock c sid ti t ts key ks)) =
    (if ci_direction c = T_INGRESS \<and> pre_trace_id sock c ti = 0
     then (ks_tracer ks)(ke_cpu env \<mapsto> t\<lparr>tc_thread_trace_id := tc_thread_trace_id t + 1\<rparr>) else ks_tracer ks)"
  using assms
  by (simp add: trace_process_def Let_def split_beta upd_tracer_def upd_stats_def split: traffic_direction.split option.split)

lemma trace_process_egress_map:
  assumes "ci_direction c = T_EGRESS"
  shows "ks_trace (snd (trace_process env sock c sid (ks_trace ks key) t ts key ks)) =
    (if ci_keep_trace c then ks_trace ks else (ks_trace ks)(key := None))"
  using assms by (auto simp: trace_process_def Let_def split_beta upd_stats_def map_delete_def split: option.split)

lemma trace_process_ingress_map:
  assumes "ci_direction c = T_INGRESS"
  obtains ti where "ti_thread_trace_id ti = fst (trace_process env sock c sid tip t ts key ks)"
    "ks_trace (snd (trace_process env sock c sid tip t ts key ks)) = ks_trace ks \<or>
     ks_trace (snd (trace_process env sock c sid tip t ts key ks)) = (ks_trace ks)(key \<mapsto> ti)"
proof -
  let ?r = "fst (trace_process env sock c sid tip t ts key ks)"
  show thesis
    using assms
    by (intro that [of "\<lparr>ti_update_time = ucast (ts div NS_PER_SEC), ti_peer_fd = trace_peer_fd sock c,
          ti_thread_trace_id = ?r, ti_socket_id = sid\<rparr>"])
       (simp_all add: trace_process_def Let_def split_beta upd_tracer_def upd_stats_def map_update_def)
qed

lemma trace_process_ingress_id:
  assumes "ci_direction c = T_INGRESS"
  shows "fst (trace_process env sock c sid (ks_trace ks key) t ts key ks) =
    (if pre_trace_id sock c (ks_trace ks key) = 0 then tc_thread_trace_id t + 1 else trace_id_at ks key)"
  using assms
  by (auto simp: trace_process_def Let_def split_beta pre_trace_id_def trace_id_at_def split: option.splits)

lemma pre_trace_id_entry: "pre_trace_id sock c (ks_trace ks key) \<noteq> 0 \<Longrightarrow> key \<in> dom (ks_trace ks)"
  by (auto simp: pre_trace_id_def split: option.splits)

lemma trace_process_count:
  assumes "trace_count_ok ks" 
  shows "trace_count_ok (snd (trace_process env sock c sid (ks_trace ks key) t ts key ks))"
  using assms
  by (auto simp: trace_process_def Let_def split_beta upd_tracer_def upd_stats_def trace_count_ok_def
      simp: counted_simps split: traffic_direction.split option.split)


lemma trace_ids_ok_put:
  assumes "trace_ids_ok ks" "ti_thread_trace_id ti = x" "\<forall>k\<in>dom (ks_trace ks). k \<noteq> key \<longrightarrow> trace_id_at ks k \<noteq> x"
    and "ks_tracer ks' cpu = Some t'" "in_range cpu x" "x \<le> tc_thread_trace_id t'"
    and "\<And>cpu t. ks_tracer ks cpu = Some t \<Longrightarrow> \<exists>t'. ks_tracer ks' cpu = Some t' \<and> tc_thread_trace_id t \<le> tc_thread_trace_id t'"
    and "ks_trace ks' = ks_trace ks \<or> ks_trace ks' = (ks_trace ks)(key \<mapsto> ti)"
  shows "trace_ids_ok ks'"
proof -
  have old: "\<exists>cpu t. ks_tracer ks' cpu = Some t \<and> in_range cpu (trace_id_at ks k) \<and> trace_id_at ks k \<le> tc_thread_trace_id t"
    if "k \<in> dom (ks_trace ks)" for k
    using assms(1,7) that unfolding trace_ids_ok_def by (meson order_trans)
  from assms(8) show ?thesis
  proof
    assume m: "ks_trace ks' = ks_trace ks"
    then have "trace_id_at ks' = trace_id_at ks" by (simp add: trace_id_at_def fun_eq_iff)
    then show ?thesis using assms(1) old m by (simp add: trace_ids_ok_def)
  next
    assume m: "ks_trace ks' = (ks_trace ks)(key \<mapsto> ti)"
    then have k: "trace_id_at ks' k = (if k = key then x else trace_id_at ks k)" for k
      using assms(2) by (simp add: trace_id_at_def)
    have "inj_on (trace_id_at ks') (dom (ks_trace ks'))"
      using assms(1,3) by (auto simp: trace_ids_ok_def inj_on_def k m split: if_splits)
    then show ?thesis using assms(4,5,6) old by (auto simp: trace_ids_ok_def k m)
  qed
qed

lemma trace_ids_ok_drop:
  assumes "trace_ids_ok ks" "ks_tracer ks' = ks_tracer ks" "ks_trace ks' = (ks_trace ks)(key := None)"
  shows "trace_ids_ok ks'"
proof -
  have "trace_id_at ks' k = trace_id_at ks k" if "k \<noteq> key" for k using assms(3) that by (simp add: trace_id_at_def)
  then show ?thesis using assms by (auto simp: trace_ids_ok_def inj_on_def)
qed

definition trace_ok :: "kern_state \<Rightarrow> bool" where
  "trace_ok ks \<longleftrightarrow> counters_ok ks \<and> trace_ids_ok ks \<and> trace_count_ok ks"

lemma fresh_trace_id:
  assumes "trace_ids_ok ks" "counters_ok ks" "ks_tracer ks cpu = Some t" "in_range cpu (tc_thread_trace_id t + 1)"
    and "k \<in> dom (ks_trace ks)"
  shows "trace_id_at ks k \<noteq> tc_thread_trace_id t + 1"
proof
  assume e: "trace_id_at ks k = tc_thread_trace_id t + 1"
  obtain cpu' t' where c': "ks_tracer ks cpu' = Some t'" "in_range cpu' (trace_id_at ks k)"
    "trace_id_at ks k \<le> tc_thread_trace_id t'"
    using assms(1,5) unfolding trace_ids_ok_def by blast
  with assms(4) e have "cpu' = cpu" using in_range_unique by metis
  moreover have "in_range cpu (tc_thread_trace_id t)" using assms(2,3) by (simp add: counters_ok_def)
  ultimately show False
    using c' e assms(3) in_range_succ [OF _ assms(4)] by (simp add: word_le_nat_alt)
qed

lemma trace_step_ok:
  assumes "trace_step ks ks'" "trace_ok ks"
  shows "trace_ok ks'"
  using assms
proof (induction rule: trace_step.induct)
  case (1 ks env t sock c socket_id key time_stamp)
  let ?tp = "trace_process env sock c socket_id (ks_trace ks key) t time_stamp key ks"
  have inv: "counters_ok ks" "trace_ids_ok ks" "trace_count_ok ks" using 1 by (simp_all add: trace_ok_def)
  then have r: "in_range (ke_cpu env) (tc_thread_trace_id t)" using 1 by (simp add: counters_ok_def)
  note tr = trace_process_tracer [OF 1(1), of sock c socket_id "ks_trace ks key" time_stamp key]
  have "counters_ok (snd ?tp)" using inv(1) 1(2) by (auto simp: counters_ok_def tr)
  moreover have "trace_ids_ok (snd ?tp)"
  proof (cases "ci_direction c")
    case T_EGRESS
    note m = trace_process_egress_map [OF T_EGRESS, of env sock socket_id ks key t time_stamp]
    show ?thesis
    proof (cases "ci_keep_trace c")
      case True
      then have "?tp = (fst ?tp, ks)" using T_EGRESS by (simp add: trace_process_def Let_def split: option.split)
      then show ?thesis using inv(2) by (metis snd_conv)
    next
      case False
      then show ?thesis using trace_ids_ok_drop [OF inv(2), of "snd ?tp" key] m T_EGRESS by (simp add: tr)
    qed
  next
    case T_INGRESS
    note id = trace_process_ingress_id [OF T_INGRESS, of env sock socket_id ks key t time_stamp]
    obtain ti where ti: "ti_thread_trace_id ti = fst ?tp"
      "ks_trace (snd ?tp) = ks_trace ks \<or> ks_trace (snd ?tp) = (ks_trace ks)(key \<mapsto> ti)"
      using trace_process_ingress_map [OF T_INGRESS] by blast
    show ?thesis
    proof (cases "pre_trace_id sock c (ks_trace ks key) = 0")
      case True
      have up: "tc_thread_trace_id t \<le> tc_thread_trace_id t + 1"
        using in_range_succ [OF r 1(2)] by (simp add: word_le_nat_alt)
      have mono: "\<exists>t'. ks_tracer (snd ?tp) cpu = Some t' \<and> tc_thread_trace_id u \<le> tc_thread_trace_id t'"
        if "ks_tracer ks cpu = Some u" for cpu u
        unfolding tr using that up 1(1) T_INGRESS True by (cases "cpu = ke_cpu env") auto
      show ?thesis
        using fresh_trace_id [OF inv(2,1) 1(1,2)] 1(1,2) T_INGRESS True
        by (intro trace_ids_ok_put [OF inv(2) ti(1) _ _ _ _ mono ti(2),
              of "ke_cpu env" "t\<lparr>tc_thread_trace_id := tc_thread_trace_id t + 1\<rparr>"]) (simp_all add: tr id)
    next
      case False
      then have k: "key \<in> dom (ks_trace ks)" by (rule pre_trace_id_entry)
      then obtain cpu' t' where c': "ks_tracer ks cpu' = Some t'" "in_range cpu' (trace_id_at ks key)"
        "trace_id_at ks key \<le> tc_thread_trace_id t'"
        using inv(2) unfolding trace_ids_ok_def by blast
      have "\<forall>k\<in>dom (ks_trace ks). k \<noteq> key \<longrightarrow> trace_id_at ks k \<noteq> trace_id_at ks key"
        using inv(2) k by (auto simp: trace_ids_ok_def inj_on_def)
      then show ?thesis
        using trace_ids_ok_put [OF inv(2) ti(1), of key "snd ?tp" cpu' t', OF _ _ _ _ _ ti(2)] c' T_INGRESS False
        by (simp add: tr id)
    qed
  qed
  ultimately show ?case using trace_process_count [OF inv(3)] by (simp add: trace_ok_def)
qed

lemma trace_steps_ok: "trace_step\<^sup>*\<^sup>* ks ks' \<Longrightarrow> trace_ok ks \<Longrightarrow> trace_ok ks'"
  by (induction rule: rtranclp_induct) (auto dest: trace_step_ok)

section \<open>Properties\<close>

text \<open>C14: Tracing across sockets. A message a thread receives on a CPU that has its context gets an identifier: a new one, or the one the thread
  holds if the message goes on in the direction of the last one on its socket. Unless the trace map is full and the
  thread has no entry, this identifier is the one given to the next message the thread sends. It is then used up: the
  thread has no entry, so that the next outgoing message gets none, and the entries of all other threads are as before;
  if the thread had no entry at the start, the count of entries is as before too. A sender marked to keep the trace
  leaves everything for the next one.\<close>

theorem trace_ingress_egress:
  assumes "ks_tracer ks (ke_cpu env) = Some t" "ks_trace ks key = None \<Longrightarrow> \<not> ke_map_full env M_trace"
    and "ci_direction c1 = T_INGRESS" "ci_direction c2 = T_EGRESS"
    and "trace_process env sock1 c1 sid1 (ks_trace ks key) t ts1 key ks = (tid1, ks1)"
    and "trace_process env' sock2 c2 sid2 (ks_trace ks1 key) t' ts2 key ks1 = (tid2, ks2)"
  shows "tid2 = tid1 \<and>
    tid1 = (let pre = pre_trace_id sock1 c1 (ks_trace ks key) in if pre = 0 then tc_thread_trace_id t + 1 else pre) \<and>
    (if ci_keep_trace c2 then ks2 = ks1
     else ks_trace ks2 = (ks_trace ks)(key := None) \<and>
       (ks_trace ks key = None \<longrightarrow>
          map_option ts_trace_map_count (ks_stats ks2) = map_option ts_trace_map_count (ks_stats ks)))"
proof -
  define tid where "tid = (let pre = pre_trace_id sock1 c1 (ks_trace ks key) in if pre = 0 then tc_thread_trace_id t + 1 else pre)"
  define ti where "ti = \<lparr>ti_update_time = ucast (ts1 div NS_PER_SEC), ti_peer_fd = trace_peer_fd sock1 c1,
      ti_thread_trace_id = tid, ti_socket_id = sid1\<rparr>"
  have u: "map_update (ke_map_full env M_trace) (ks_trace ks) key ti = (0, (ks_trace ks)(key \<mapsto> ti))"
    using assms(2) by (auto simp: map_update_def)
  have r1: "tid1 = tid" "ks_trace ks1 = (ks_trace ks)(key \<mapsto> ti)"
    "ks_trace ks key = None \<Longrightarrow> ks_stats ks1 = map_option (\<lambda>st. st\<lparr>ts_trace_map_count := ts_trace_map_count st + 1\<rparr>) (ks_stats ks)"
    using assms(5) u
    by (auto simp: trace_process_def Let_def assms(3) tid_def ti_def upd_tracer_def upd_stats_def split: if_splits)
  have r2: "(tid2, ks2) = (ti_thread_trace_id ti, if ci_keep_trace c2 then ks1 else
      upd_stats (\<lambda>st. st\<lparr>ts_trace_map_count := ts_trace_map_count st - 1\<rparr>) (ks1\<lparr>ks_trace := (ks_trace ks1)(key := None)\<rparr>))"
    unfolding assms(6) [symmetric] by (simp add: trace_process_def assms(4) r1(2) map_delete_def)
  then show ?thesis
    using r1 unfolding tid_def [symmetric]
    by (cases "ks_stats ks") (simp_all add: ti_def upd_stats_def)
qed

theorem trace_ingress_egress_witness:
  "fst (trace_process (example_kenv True) None (example_conn T_EGRESS None) 102
     (ks_trace (snd (trace_process (example_kenv True) None (example_conn T_INGRESS None) 101 None example_tracer 0
        \<lparr>tk_tgid = 77, tk_pid = 78, tk_goid = 0\<rparr> example_kstate)) \<lparr>tk_tgid = 77, tk_pid = 78, tk_goid = 0\<rparr>)
     example_tracer 0 \<lparr>tk_tgid = 77, tk_pid = 78, tk_goid = 0\<rparr>
     (snd (trace_process (example_kenv True) None (example_conn T_INGRESS None) 101 None example_tracer 0
        \<lparr>tk_tgid = 77, tk_pid = 78, tk_goid = 0\<rparr> example_kstate))) = 501"
proof -
  define key where "key = \<lparr>tk_tgid = 77, tk_pid = 78, tk_goid = 0\<rparr>"
  let ?in = "trace_process (example_kenv True) None (example_conn T_INGRESS None) 101 (ks_trace example_kstate key) example_tracer 0 key example_kstate"
  obtain i1 ks1 where 1: "?in = (i1, ks1)" by (metis surj_pair)
  obtain i2 ks2 where 2: "trace_process (example_kenv True) None (example_conn T_EGRESS None) 102 (ks_trace ks1 key)
      example_tracer 0 key ks1 = (i2, ks2)" by (metis surj_pair)
  have n: "ks_trace example_kstate key = None" by (simp add: example_kstate_def)
  have "i2 = i1 \<and> i1 = tc_thread_trace_id example_tracer + 1"
    using trace_ingress_egress [OF _ _ _ _ 1 2] n by (simp add: example_kenv_def example_kstate_def example_simps pre_trace_id_def)
  with 1 2 n show ?thesis by (simp add: key_def example_tracer_def)
qed

text \<open>C10: Identifiers in use. From a start with the counters of all CPUs in their ranges and an empty trace
  map, whatever calls follow on whatever CPUs, as long as no CPU has used up its range of 2^56 identifiers, no two threads hold the same identifier, and the entry count
  in the statistics is the number of entries.\<close>

theorem live_traces_distinct:
  assumes "trace_step\<^sup>*\<^sup>* ks0 ks"
    and "ks_tracer ks0 = (\<lambda>cpu. if cpu < 256 then Some (init_tracer_ctx cpu (uid_base_of now) (conf cpu)) else None)"
    and "ks_trace ks0 = Map.empty" "ks_stats ks0 = Some st0" "ts_trace_map_count st0 = 0"
  shows "inj_on (\<lambda>k. ti_thread_trace_id (the (ks_trace ks k))) (dom (ks_trace ks)) \<and>
    (\<forall>st. ks_stats ks = Some st \<longrightarrow> finite (dom (ks_trace ks)) \<and> ts_trace_map_count st = of_nat (card (dom (ks_trace ks))))"
proof -
  have "counters_ok ks0"
    using assms(2) by (auto simp: counters_ok_def init_tracer_ctx_def uid_base_take_bit intro: uid_start_range split: if_splits)
  moreover have "trace_ids_ok ks0" "trace_count_ok ks0"
    using assms(3-5) by (simp_all add: trace_ids_ok_def trace_count_ok_def counted_def)
  ultimately have "trace_ok ks" using trace_steps_ok [OF assms(1)] by (simp add: trace_ok_def)
  then show ?thesis
    by (auto simp: trace_ok_def trace_ids_ok_def trace_count_ok_def counted_def trace_id_at_def [abs_def])
qed

definition live_start :: kern_state where
  "live_start = example_kstate\<lparr>ks_tracer :=
     (\<lambda>cpu. if cpu < 256 then Some (init_tracer_ctx cpu (uid_base_of 100) example_tracer) else None)\<rparr>"

theorem live_traces_distinct_witness:
  "inj_on (\<lambda>k. ti_thread_trace_id (the (ks_trace (snd (trace_process (example_kenv True) None (example_conn T_INGRESS None) 0
      None (init_tracer_ctx 0 (uid_base_of 100) example_tracer) 0 \<lparr>tk_tgid = 77, tk_pid = 78, tk_goid = 0\<rparr> live_start)) k)))
    (dom (ks_trace (snd (trace_process (example_kenv True) None (example_conn T_INGRESS None) 0
      None (init_tracer_ctx 0 (uid_base_of 100) example_tracer) 0 \<lparr>tk_tgid = 77, tk_pid = 78, tk_goid = 0\<rparr> live_start))))"
proof -
  define key where "key = \<lparr>tk_tgid = 77, tk_pid = 78, tk_goid = (0::u64)\<rparr>"
  let ?t = "init_tracer_ctx 0 (uid_base_of 100) example_tracer"
  have n: "ks_trace live_start key = None" by (simp add: live_start_def example_kstate_def)
  have "tc_thread_trace_id ?t + 1 = 2" by code_simp
  then have r: "in_range (ke_cpu (example_kenv True)) (tc_thread_trace_id ?t + 1)"
    by (simp add: in_range_def example_kenv_def)
  have "trace_step live_start (snd (trace_process (example_kenv True) None (example_conn T_INGRESS None) 0
      (ks_trace live_start key) ?t 0 key live_start))"
    by (rule trace_step.intros [OF _ r]) (simp add: live_start_def example_kenv_def)
  then have "trace_step\<^sup>*\<^sup>* live_start (snd (trace_process (example_kenv True) None (example_conn T_INGRESS None) 0
      (ks_trace live_start key) ?t 0 key live_start))" by (rule r_into_rtranclp)
  from live_traces_distinct [OF this, of 100 "\<lambda>_. example_tracer" example_stats] show ?thesis
    unfolding n by (simp add: key_def live_start_def example_kstate_def example_stats_def)
qed

text \<open>The \<open>n\<close>-th ancestor of a goroutine.\<close>

fun nth_ancestor :: "nat \<Rightarrow> kern_state \<Rightarrow> u32 \<Rightarrow> u64 \<Rightarrow> u64 option" where
  "nth_ancestor 0 ks tgid g = Some g"
| "nth_ancestor (Suc n) ks tgid g =
     (case ks_go_ancestor ks (tgid, g) of None \<Rightarrow> None | Some g' \<Rightarrow> nth_ancestor n ks tgid g')"

lemma find_ancestor_Some:
  "find_ancestor n ks tgid g ts tmo = Some a \<Longrightarrow>
   \<exists>k<n. nth_ancestor k ks tgid g = Some a \<and> is_final_ancestor ks tgid a ts tmo \<and>
     (\<forall>j<k. \<forall>b. nth_ancestor j ks tgid g = Some b \<longrightarrow> \<not> is_final_ancestor ks tgid b ts tmo)"
proof (induction n arbitrary: g)
  case (Suc n)
  show ?case
  proof (cases "is_final_ancestor ks tgid g ts tmo")
    case True
    then show ?thesis using Suc.prems by (intro exI [of _ 0]) simp
  next
    case False
    then obtain g' where g': "ks_go_ancestor ks (tgid, g) = Some g'" "find_ancestor n ks tgid g' ts tmo = Some a"
      using Suc.prems by (auto split: option.splits)
    from Suc.IH [OF this(2)] obtain k where "k < n" "nth_ancestor k ks tgid g' = Some a"
      "is_final_ancestor ks tgid a ts tmo"
      "\<forall>j<k. \<forall>b. nth_ancestor j ks tgid g' = Some b \<longrightarrow> \<not> is_final_ancestor ks tgid b ts tmo" by blast
    then show ?thesis using g'(1) False by (intro exI [of _ "Suc k"]) (auto simp: less_Suc_eq_0_disj)
  qed
qed simp

lemma find_ancestor_None:
  "find_ancestor n ks tgid g ts tmo = None \<Longrightarrow> k < n \<Longrightarrow> nth_ancestor k ks tgid g = Some b \<Longrightarrow>
   \<not> is_final_ancestor ks tgid b ts tmo"
  by (induction n arbitrary: g k) (auto simp: less_Suc_eq_0_disj split: if_splits option.splits)

text \<open>C20: Goroutines. On a thread that runs a goroutine, the one that stands for a socket operation is the nearest one, among the current
  goroutine and its next five ancestors, that read or wrote a socket within the timeout; when there is none
  it is the current one, which is then marked with the time as far as the LRU map takes the entry. This is what the code
  does and not what the comment above \<^verbatim>\<open>get_rw_goid\<close> asks for: by its second condition, that no ancestor of the
  goroutine satisfies the first, the earliest such ancestor would stand for the operation.\<close>

theorem rw_goid_nearest:
  assumes "get_current_goroutine env ks = goid" "goid \<noteq> 0" "tgid = ucast (drop_bit 32 (ke_pid_tgid env))"
    and "get_rw_goid env tmo True ks = (g, ks')"
  shows "(\<exists>n<6. nth_ancestor n ks tgid goid = Some g \<and> is_final_ancestor ks tgid g (ke_ktime env KT_goid) tmo \<and>
      (\<forall>m<n. \<forall>a. nth_ancestor m ks tgid goid = Some a \<longrightarrow> \<not> is_final_ancestor ks tgid a (ke_ktime env KT_goid) tmo) \<and>
      ks' = ks) \<or>
    g = goid \<and> ks' = ks\<lparr>ks_go_rw_ts := lru_update (ke_map_full env M_go_rw_ts) (ke_go_rw_ts_evicted env) False (ks_go_rw_ts ks)
                                      (tgid, goid) (ke_ktime env KT_goid)\<rparr> \<and>
      (\<forall>n<6. \<forall>a. nth_ancestor n ks tgid goid = Some a \<longrightarrow> \<not> is_final_ancestor ks tgid a (ke_ktime env KT_goid) tmo)"
proof (cases "find_ancestor 6 ks tgid goid (ke_ktime env KT_goid) tmo")
  case None
  then show ?thesis using assms find_ancestor_None [OF None] by (auto simp: get_rw_goid_def Let_def)
next
  case (Some a)
  then have "g = a" "ks' = ks" using assms by (simp_all add: get_rw_goid_def Let_def)
  with find_ancestor_Some [OF Some] show ?thesis by blast
qed

theorem rw_goid_nearest_witness:
  "fst (get_rw_goid (example_kenv True) 100 True
     (example_kstate\<lparr>ks_goroutines := (\<lambda>_. Some 9), ks_go_ancestor := [(77, 9) \<mapsto> 4], ks_go_rw_ts := [(77, 4) \<mapsto> 950]\<rparr>)) = 4"
proof -
  define ks where "ks = example_kstate\<lparr>ks_goroutines := (\<lambda>_. Some 9), ks_go_ancestor := [(77, 9) \<mapsto> 4], ks_go_rw_ts := [(77, 4) \<mapsto> 950]\<rparr>"
  have tg: "(77 :: u32) = ucast (drop_bit 32 (ke_pid_tgid (example_kenv True)))" by code_simp
  have f: "is_final_ancestor ks 77 4 (ke_ktime (example_kenv True) KT_goid) 100" by (simp add: ks_def is_final_ancestor_def example_kenv_def)
  obtain g ks' where g: "get_rw_goid (example_kenv True) 100 True ks = (g, ks')" by (metis surj_pair)
  have a1: "nth_ancestor 1 ks 77 9 = Some 4" by (simp add: ks_def)
  have "\<not> is_final_ancestor ks 77 9 (ke_ktime (example_kenv True) KT_goid) 100" by (simp add: ks_def is_final_ancestor_def)
  moreover have "h = 9 \<or> h = 4" if "nth_ancestor n ks 77 9 = Some h" for n h
  proof (cases n)
    case (Suc m)
    then show ?thesis using that by (cases m) (simp_all add: ks_def)
  qed (use that in simp)
  moreover have cur: "get_current_goroutine (example_kenv True) ks = 9" by (simp add: ks_def get_current_goroutine_def)
  moreover have "(1::nat) < 6" by simp
  moreover have nz: "(9::u64) \<noteq> 0" by simp
  ultimately have "g = 4"
    using rw_goid_nearest [OF cur _ tg g, OF nz] f a1 by blast
  with g show ?thesis by (simp add: ks_def)
qed

end
