(* ===== verification/Push_Buffer.thy ===== *)
theory Push_Buffer
  imports Kern_State
begin

text \<open>
  The per-CPU push buffer between the kernel programs and the agent: the packed event header
  \<^verbatim>\<open>struct __socket_data\<close> as bytes, the copy of the payload from user memory (\<^verbatim>\<open>iovecs_copy\<close>,
  \<^verbatim>\<open>output_data_copy\<close>), the output routines and the periodic push of \<^verbatim>\<open>socket_trace.bpf.c\<close>. The buffer
  is a sequence of events, each a header followed by its payload, which is sent as a whole when it is full
  enough or old enough.
\<close>

section \<open>Enumerations as numbers\<close>

fun proto_num :: "traffic_protocol \<Rightarrow> u16" where
  "proto_num PROTO_UNKNOWN = 0" | "proto_num PROTO_OTHER = 1" | "proto_num PROTO_HTTP1 = 20"
| "proto_num PROTO_HTTP2 = 21" | "proto_num PROTO_DUBBO = 40" | "proto_num PROTO_SOFARPC = 43"
| "proto_num PROTO_FASTCGI = 44" | "proto_num PROTO_BRPC = 45" | "proto_num PROTO_TARS = 46"
| "proto_num PROTO_SOME_IP = 47" | "proto_num PROTO_ISO8583 = 48" | "proto_num PROTO_MYSQL = 60"
| "proto_num PROTO_POSTGRESQL = 61" | "proto_num PROTO_ORACLE = 62" | "proto_num PROTO_REDIS = 80"
| "proto_num PROTO_MONGO = 81" | "proto_num PROTO_MEMCACHED = 82" | "proto_num PROTO_KAFKA = 100"
| "proto_num PROTO_MQTT = 101" | "proto_num PROTO_AMQP = 102" | "proto_num PROTO_OPENWIRE = 103"
| "proto_num PROTO_NATS = 104" | "proto_num PROTO_PULSAR = 105" | "proto_num PROTO_ZMTP = 106"
| "proto_num PROTO_ROCKETMQ = 107" | "proto_num PROTO_WEBSPHEREMQ = 108" | "proto_num PROTO_DNS = 120"
| "proto_num PROTO_TLS = 121" | "proto_num PROTO_CUSTOM = 127" | "proto_num PROTO_DPDK_PKT = 199"

fun source_num :: "process_data_extra_source \<Rightarrow> u8" where
  "source_num DATA_SOURCE_SYSCALL = 0" | "source_num DATA_SOURCE_GO_TLS_UPROBE = 1"
| "source_num DATA_SOURCE_GO_HTTP2_UPROBE = 2" | "source_num DATA_SOURCE_OPENSSL_UPROBE = 3"
| "source_num DATA_SOURCE_IO_EVENT = 4" | "source_num DATA_SOURCE_GO_HTTP2_DATAFRAME_UPROBE = 5"
| "source_num DATA_SOURCE_RESERVED = 6" | "source_num DATA_SOURCE_DPDK = 7"
| "source_num DATA_SOURCE_UNIX_SOCKET = 8"

fun msg_num :: "message_type \<Rightarrow> 6 word" where
  "msg_num MSG_UNKNOWN = 0" | "msg_num MSG_REQUEST = 1" | "msg_num MSG_RESPONSE = 2"
| "msg_num MSG_REQUEST_END = 3" | "msg_num MSG_RESPONSE_END = 4" | "msg_num MSG_REASM_START = 5"
| "msg_num MSG_REASM_SEG = 6" | "msg_num MSG_COMMON = 7" | "msg_num MSG_PRESTORE = 8"
| "msg_num MSG_RECONFIRM = 9" | "msg_num MSG_CLOSE = 10" | "msg_num MSG_CLEAR = 11"

section \<open>The packed header\<close>

text \<open>The header of \<^verbatim>\<open>struct __socket_data\<close>, all fields before \<^verbatim>\<open>data\<close>. The structure is packed; \<^verbatim>\<open>direction\<close>,
  \<^verbatim>\<open>msg_type\<close> and \<^verbatim>\<open>is_tls\<close> share a byte. \<^verbatim>\<open>tcp_seq\<close> is also \<^verbatim>\<open>s_dev\<close> of file events.\<close>

record socket_data =
  sd_pid :: u32
  sd_tgid :: u32
  sd_coroutine_id :: u64
  sd_source :: u8
  sd_comm :: "u8 list"
  sd_socket_id :: u64
  sd_daddr :: "u8 list"
  sd_rcv_saddr :: "u8 list"
  sd_addr_len :: u8
  sd_l4_protocol :: u8
  sd_dport :: u16
  sd_num :: u16
  sd_extra_data :: "u8 list"
  sd_extra_data_count :: u32
  sd_tcp_seq :: u32
  sd_thread_trace_id :: u64
  sd_timestamp :: u64
  sd_cap_timestamp :: u64
  sd_direction :: bool
  sd_msg_type :: "6 word"
  sd_is_tls :: bool
  sd_syscall_len :: u64
  sd_data_seq :: u64
  sd_fd :: u32
  sd_data_type :: u16
  sd_data_len :: u16
  sd_socket_role :: u8

definition le16 :: "u16 \<Rightarrow> u8 list" where "le16 x = [ucast x, ucast (drop_bit 8 x)]"
definition le32 :: "u32 \<Rightarrow> u8 list" where
  "le32 x = [ucast x, ucast (drop_bit 8 x), ucast (drop_bit 16 x), ucast (drop_bit 24 x)]"
definition le64 :: "u64 \<Rightarrow> u8 list" where "le64 x = le32 (ucast x) @ le32 (ucast (drop_bit 32 x))"

definition flags_byte :: "bool \<Rightarrow> 6 word \<Rightarrow> bool \<Rightarrow> u8" where
  "flags_byte d m t = of_bool d OR push_bit 1 (ucast m) OR push_bit 7 (of_bool t)"

definition sd_bytes :: "socket_data \<Rightarrow> u8 list" where
  "sd_bytes v =
     le32 (sd_pid v) @ le32 (sd_tgid v) @ le64 (sd_coroutine_id v) @ [sd_source v] @ sd_comm v @
     le64 (sd_socket_id v) @ sd_daddr v @ sd_rcv_saddr v @ [sd_addr_len v, sd_l4_protocol v] @
     le16 (sd_dport v) @ le16 (sd_num v) @ sd_extra_data v @ le32 (sd_extra_data_count v) @
     le32 (sd_tcp_seq v) @ le64 (sd_thread_trace_id v) @ le64 (sd_timestamp v) @
     le64 (sd_cap_timestamp v) @ [flags_byte (sd_direction v) (sd_msg_type v) (sd_is_tls v)] @
     le64 (sd_syscall_len v) @ le64 (sd_data_seq v) @ le32 (sd_fd v) @ le16 (sd_data_type v) @
     le16 (sd_data_len v) @ [sd_socket_role v]"

definition SD_HEADER :: nat where "SD_HEADER = 153"

definition bytes_at :: "buf \<Rightarrow> nat \<Rightarrow> nat \<Rightarrow> u8 list" where
  "bytes_at b off n = map b [off..<off + n]"

definition st_bytes :: "buf \<Rightarrow> nat \<Rightarrow> u8 list \<Rightarrow> buf" where
  "st_bytes b off xs = write_at b off (buf_of xs) (length xs)"

definition sd_load :: "buf \<Rightarrow> nat \<Rightarrow> socket_data" where
  "sd_load b off =
     \<lparr>sd_pid = ld_u32 b off, sd_tgid = ld_u32 b (off + 4), sd_coroutine_id = ld_u64 b (off + 8),
      sd_source = b (off + 16), sd_comm = bytes_at b (off + 17) 16, sd_socket_id = ld_u64 b (off + 33),
      sd_daddr = bytes_at b (off + 41) 16, sd_rcv_saddr = bytes_at b (off + 57) 16,
      sd_addr_len = b (off + 73), sd_l4_protocol = b (off + 74), sd_dport = ld_u16 b (off + 75),
      sd_num = ld_u16 b (off + 77), sd_extra_data = bytes_at b (off + 79) 16,
      sd_extra_data_count = ld_u32 b (off + 95), sd_tcp_seq = ld_u32 b (off + 99),
      sd_thread_trace_id = ld_u64 b (off + 103), sd_timestamp = ld_u64 b (off + 111),
      sd_cap_timestamp = ld_u64 b (off + 119), sd_direction = bit (b (off + 127)) 0,
      sd_msg_type = ucast (drop_bit 1 (b (off + 127))), sd_is_tls = bit (b (off + 127)) 7,
      sd_syscall_len = ld_u64 b (off + 128), sd_data_seq = ld_u64 b (off + 136),
      sd_fd = ld_u32 b (off + 144), sd_data_type = ld_u16 b (off + 148),
      sd_data_len = ld_u16 b (off + 150), sd_socket_role = b (off + 152)\<rparr>"

definition sd_store :: "buf \<Rightarrow> nat \<Rightarrow> socket_data \<Rightarrow> buf" where
  "sd_store b off v = st_bytes b off (sd_bytes v)"

definition sd_wf :: "socket_data \<Rightarrow> bool" where
  "sd_wf v \<longleftrightarrow> length (sd_comm v) = 16 \<and> length (sd_daddr v) = 16 \<and> length (sd_rcv_saddr v) = 16 \<and>
     length (sd_extra_data v) = 16"

lemma length_le [simp]: "length (le16 x) = 2" "length (le32 y) = 4" "length (le64 z) = 8"
  by (simp_all add: le16_def le32_def le64_def)

lemma length_sd_bytes [simp]: "sd_wf v \<Longrightarrow> length (sd_bytes v) = SD_HEADER"
  by (simp add: sd_bytes_def sd_wf_def SD_HEADER_def)

lemma st_bytes_in: "k < length xs \<Longrightarrow> st_bytes b off xs (off + k) = xs ! k"
  by (simp add: st_bytes_def write_at_def buf_of_def)

lemma st_bytes_out: "i < off \<or> off + length xs \<le> i \<Longrightarrow> st_bytes b off xs i = b i"
  by (auto simp: st_bytes_def write_at_def)

lemma ld_u16_le: "b i = le16 x ! 0 \<Longrightarrow> b (i + 1) = le16 x ! 1 \<Longrightarrow> ld_u16 b i = x"
  by (rule bit_word_eqI) (auto simp: ld_u16_def le16_def bit_simps)

lemma ld_u32_le: "(\<And>k. k < 4 \<Longrightarrow> b (i + k) = le32 x ! k) \<Longrightarrow> ld_u32 b i = x"
proof (rule bit_word_eqI)
  fix n assume b: "\<And>k. k < 4 \<Longrightarrow> b (i + k) = le32 x ! k" and n: "n < LENGTH(32)"
  define k r where "k = n div 8" and "r = n mod 8"
  have kr: "n = 8 * k + r" "k < 4" "r < 8" using n by (auto simp: k_def r_def)
  have "bit (ld_u32 b i) n = bit (le32 x ! k) r"
    using bit_ld_u32 [OF kr(3,2)] b [OF kr(2)] by (simp add: kr(1))
  also have "\<dots> = bit x n"
  proof -
    consider "k = 0" | "k = 1" | "k = 2" | "k = 3" using kr(2) by force
    then show ?thesis using kr by cases (simp_all add: le32_def bit_simps add.commute)
  qed
  finally show "bit (ld_u32 b i) n = bit x n" .
qed

lemma ld_u64_le:
  assumes "\<And>k. k < 8 \<Longrightarrow> b (i + k) = le64 x ! k"
  shows "ld_u64 b i = x"
proof -
  have "ld_u32 b i = ucast x"
    using assms by (intro ld_u32_le) (simp add: le64_def nth_append)
  moreover have "ld_u32 b (i + 4) = ucast (drop_bit 32 x)"
  proof (rule ld_u32_le)
    fix k :: nat assume "k < 4"
    then show "b (i + 4 + k) = le32 (ucast (drop_bit 32 x)) ! k"
      using assms [of "4 + k"] by (simp add: le64_def nth_append add.assoc)
  qed
  ultimately show ?thesis
    by (intro bit_word_eqI) (auto simp: ld_u64_def bit_simps)
qed

text \<open>Reading a field back: the bytes of the field are a segment of what was stored.\<close>

definition segment :: "u8 list \<Rightarrow> nat \<Rightarrow> u8 list \<Rightarrow> bool" where
  "segment xs k ys \<longleftrightarrow> k + length ys \<le> length xs \<and> take (length ys) (drop k xs) = ys"

lemma segment_nth: "segment xs k ys \<Longrightarrow> j < length ys \<Longrightarrow> st_bytes b off xs (off + k + j) = ys ! j"
proof -
  assume s: "segment xs k ys" "j < length ys"
  then have "ys ! j = drop k xs ! j" unfolding segment_def by (metis nth_take)
  then show ?thesis using s st_bytes_in [of "k + j" xs b off] by (simp add: segment_def add.assoc)
qed

lemma segment_u8: "segment xs k [x] \<Longrightarrow> st_bytes b off xs (off + k) = x"
  using segment_nth [of xs k "[x]" 0] by simp

lemma segment_u16: "segment xs k (le16 x) \<Longrightarrow> ld_u16 (st_bytes b off xs) (off + k) = x"
  using segment_nth [of xs k "le16 x" 0 b off] segment_nth [of xs k "le16 x" 1 b off] by (simp add: ld_u16_le)

lemma segment_u32: "segment xs k (le32 x) \<Longrightarrow> ld_u32 (st_bytes b off xs) (off + k) = x"
  by (rule ld_u32_le) (simp add: segment_nth)

lemma segment_u64: "segment xs k (le64 x) \<Longrightarrow> ld_u64 (st_bytes b off xs) (off + k) = x"
  by (rule ld_u64_le) (simp add: segment_nth)

lemma segment_bytes: "segment xs k ys \<Longrightarrow> n = length ys \<Longrightarrow> bytes_at (st_bytes b off xs) (off + k) n = ys"
  by (rule nth_equalityI) (simp_all add: bytes_at_def segment_nth)

lemma flags_byte_bits:
  "bit (flags_byte d m t) 0 = d" "ucast (drop_bit 1 (flags_byte d m t)) = m" "bit (flags_byte d m t) 7 = t"
proof -
  show "bit (flags_byte d m t) 0 = d"
    by (simp only: flags_byte_def bit_or_iff bit_push_bit_iff) (simp add: bit_simps)
  have "\<not> bit m 6" using bit_imp_le_length [of m 6] by auto
  then show "bit (flags_byte d m t) 7 = t"
    by (simp only: flags_byte_def bit_or_iff bit_push_bit_iff) (simp add: bit_simps)
  show "ucast (drop_bit 1 (flags_byte d m t)) = m"
  proof (rule bit_word_eqI)
    fix n assume "n < LENGTH(6)"
    then show "bit (ucast (drop_bit 1 (flags_byte d m t)) :: 6 word) n = bit m n"
      by (simp only: flags_byte_def bit_or_iff bit_push_bit_iff bit_ucast_iff bit_drop_bit_eq comp_apply)
         (auto simp: bit_simps)
  qed
qed

lemma sd_segments:
  assumes "sd_wf v"
  shows "segment (sd_bytes v) 0 (le32 (sd_pid v))" "segment (sd_bytes v) 4 (le32 (sd_tgid v))"
    "segment (sd_bytes v) 8 (le64 (sd_coroutine_id v))" "segment (sd_bytes v) 16 [sd_source v]"
    "segment (sd_bytes v) 17 (sd_comm v)" "segment (sd_bytes v) 33 (le64 (sd_socket_id v))"
    "segment (sd_bytes v) 41 (sd_daddr v)" "segment (sd_bytes v) 57 (sd_rcv_saddr v)"
    "segment (sd_bytes v) 73 [sd_addr_len v]" "segment (sd_bytes v) 74 [sd_l4_protocol v]"
    "segment (sd_bytes v) 75 (le16 (sd_dport v))" "segment (sd_bytes v) 77 (le16 (sd_num v))"
    "segment (sd_bytes v) 79 (sd_extra_data v)" "segment (sd_bytes v) 95 (le32 (sd_extra_data_count v))"
    "segment (sd_bytes v) 99 (le32 (sd_tcp_seq v))" "segment (sd_bytes v) 103 (le64 (sd_thread_trace_id v))"
    "segment (sd_bytes v) 111 (le64 (sd_timestamp v))" "segment (sd_bytes v) 119 (le64 (sd_cap_timestamp v))"
    "segment (sd_bytes v) 127 [flags_byte (sd_direction v) (sd_msg_type v) (sd_is_tls v)]"
    "segment (sd_bytes v) 128 (le64 (sd_syscall_len v))" "segment (sd_bytes v) 136 (le64 (sd_data_seq v))"
    "segment (sd_bytes v) 144 (le32 (sd_fd v))" "segment (sd_bytes v) 148 (le16 (sd_data_type v))"
    "segment (sd_bytes v) 150 (le16 (sd_data_len v))" "segment (sd_bytes v) 152 [sd_socket_role v]"
  using assms by (simp_all add: segment_def sd_bytes_def sd_wf_def)

lemma sd_load_store [simp]:
  assumes "sd_wf v"
  shows "sd_load (sd_store b off v) off = v"
proof -
  note s = sd_segments [OF assms]
  have w: "length (sd_comm v) = 16" "length (sd_daddr v) = 16" "length (sd_rcv_saddr v) = 16" "length (sd_extra_data v) = 16"
    using assms by (simp_all add: sd_wf_def)
  have z: "ld_u32 (st_bytes b off (sd_bytes v)) off = sd_pid v"
    using segment_u32 [OF s(1), of b off] by simp
  show ?thesis
    unfolding sd_load_def sd_store_def z
    by (simp add: s(4,9,10,19,25)[THEN segment_u8] s(11,12,23,24)[THEN segment_u16] s(2,14,15,22)[THEN segment_u32]
        s(3,6,16,17,18,20,21)[THEN segment_u64] segment_bytes [OF s(5)] segment_bytes [OF s(7)]
        segment_bytes [OF s(8)] segment_bytes [OF s(13)] w flags_byte_bits del: One_nat_def)
qed

section \<open>Copying the payload\<close>

definition BURST_DATA_BUF_SIZE :: nat where "BURST_DATA_BUF_SIZE = 16384"
definition BUFFER_DATA_SZ :: nat where "BUFFER_DATA_SZ = 32760"

text \<open>\<^verbatim>\<open>sizeof(v_buff->data) - sizeof(*v)\<close>: beyond this length no event fits any more.\<close>

definition BUFFER_LIMIT :: u32 where "BUFFER_LIMIT = 16223"
definition MAX_EVENTS_BURST :: u32 where "MAX_EVENTS_BURST = 32"
definition LOOP_LIMIT :: nat where "LOOP_LIMIT = 18"

definition iovecs_copy ::
    "bpf_env \<Rightarrow> socket_data_buffer \<Rightarrow> data_args_t \<Rightarrow> u32 \<Rightarrow> u32 \<Rightarrow> u32 \<times> socket_data_buffer" where
  "iovecs_copy benv v_buff args real_len send_len =
     (let total_size = (if real_len \<ge> of_nat BURST_DATA_BUF_SIZE then of_nat BURST_DATA_BUF_SIZE else send_len);
          st = iov_loop LOOP_LIMIT 0 benv BUFFER_DATA_SZ BURST_DATA_BUF_SIZE (sb_len v_buff + of_nat SD_HEADER)
                 (da_iov args) (da_iovlen args) total_size
                 \<lparr>cs_data = sb_data v_buff, cs_bytes = 0, cs_first = 0, cs_first_len = 0\<rparr>
      in (cs_bytes st, v_buff\<lparr>sb_data := cs_data st\<rparr>))"

text \<open>The number of bytes to push, \<^verbatim>\<open>__len\<close>: at most the configured size, a signed \<^verbatim>\<open>int\<close> that is
  converted for the comparison, unless reassembly fixes it.\<close>

definition push_len :: "socket_data \<Rightarrow> u32 \<Rightarrow> u32 \<Rightarrow> u32" where
  "push_len v max_size reassembly_bytes =
     (let len = (if sd_syscall_len v > scast max_size then max_size else ucast (sd_syscall_len v))
      in if reassembly_bytes > 0 then reassembly_bytes else len)"

definition output_iov_data_copy ::
    "bpf_env \<Rightarrow> data_args_t \<Rightarrow> socket_data_buffer \<Rightarrow> socket_data \<Rightarrow> u32 \<Rightarrow> u32 \<Rightarrow> u32 \<times> socket_data_buffer" where
  "output_iov_data_copy benv args v_buff v max_size reassembly_bytes =
     (let len = push_len v max_size reassembly_bytes
      in iovecs_copy benv v_buff args len (len AND of_nat (BURST_DATA_BUF_SIZE - 1)))"

text \<open>A negative result is \<open>None\<close>. \<open>read\<close> reads the payload, from user memory or, for a file event, from the
  event buffer; one byte more than \<^verbatim>\<open>len\<close> is read, so that the length is never zero.\<close>

definition output_data_copy ::
    "bpf_env \<Rightarrow> data_args_t \<Rightarrow> bool \<Rightarrow> socket_data_buffer \<Rightarrow> socket_data \<Rightarrow> u32 \<Rightarrow> u32 \<Rightarrow> (nat \<Rightarrow> int \<times> buf)
      \<Rightarrow> u32 option \<times> socket_data_buffer" where
  "output_data_copy benv args vecs v_buff v max_size reassembly_bytes read =
     (let len = push_len v max_size reassembly_bytes;
          mlen = len AND of_nat (BURST_DATA_BUF_SIZE - 1);
          off = unat (sb_len v_buff) + SD_HEADER
      in if vecs then
           (case iovecs_copy benv v_buff args len mlen of (n, b) \<Rightarrow> (Some n, b))
         else
           (let n = (if len \<ge> of_nat BURST_DATA_BUF_SIZE then BURST_DATA_BUF_SIZE else unat mlen + 1);
                (ret, bytes) = read n;
                b = v_buff\<lparr>sb_data := write_at (sb_data v_buff) off bytes n\<rparr>
            in (if ret \<noteq> 0 then None
                else Some (if len \<ge> of_nat BURST_DATA_BUF_SIZE then of_nat BURST_DATA_BUF_SIZE else mlen), b)))"

section \<open>Sending the buffer\<close>

text \<open>The first \<open>n\<close> bytes of \<^verbatim>\<open>struct __socket_data_buffer\<close>.\<close>

definition sb_bytes :: "socket_data_buffer \<Rightarrow> nat \<Rightarrow> u8 list" where
  "sb_bytes b n =
     map (\<lambda>i. if i < 8 then (le32 (sb_events_num b) @ le32 (sb_len b)) ! i else sb_data b (i - 8)) [0..<n]"

definition buf_size :: "socket_data_buffer \<Rightarrow> u32" where
  "buf_size b = (sb_len b + 8) AND (32768 - 1)"

text \<open>The size passed to \<^verbatim>\<open>bpf_perf_event_output\<close>.\<close>

definition output_size :: "socket_data_buffer \<Rightarrow> nat" where
  "output_size b = (if buf_size b < 32768 \<and> buf_size b > 0 then unat (buf_size b) + 1 else 32768)"

definition PERIODIC_PUSH_DELAY_THRESHOLD_NS :: u64 where "PERIODIC_PUSH_DELAY_THRESHOLD_NS = 50000000"
definition MAX_PUSH_DELAY_TIME_NS :: u64 where "MAX_PUSH_DELAY_TIME_NS = 100000000"

text \<open>The caller resets the buffer whatever \<^verbatim>\<open>bpf_perf_event_output\<close> returns.\<close>

definition perf_output :: "kern_env \<Rightarrow> socket_data_buffer \<Rightarrow> kern_state \<Rightarrow> kern_state" where
  "perf_output env b ks =
     ks\<lparr>ks_out := ks_out ks @ [(ke_cpu env, sb_bytes b (output_size b), ke_perf_output env (length (ks_out ks)))]\<rparr>"

definition finalize_data_output ::
    "kern_env \<Rightarrow> u64 \<Rightarrow> u64 \<Rightarrow> socket_data_buffer \<Rightarrow> kern_state \<Rightarrow> kern_state" where
  "finalize_data_output env curr_time diff v_buff ks =
     (let ks1 = set_data_buf env (v_buff\<lparr>sb_events_num := 0, sb_len := 0\<rparr>) (perf_output env v_buff ks)
      in if diff > PERIODIC_PUSH_DELAY_THRESHOLD_NS
         then upd_tracer env (\<lambda>t. t\<lparr>tc_last_period_timestamp := tc_period_timestamp t,
                                   tc_period_timestamp := curr_time\<rparr>) ks1
         else ks1)"

text \<open>Accounting for an event whose payload is in place: its header, the length and the number of events.\<close>

definition append_event :: "socket_data \<Rightarrow> socket_data_buffer \<Rightarrow> socket_data_buffer" where
  "append_event v b =
     b\<lparr>sb_data := sd_store (sb_data b) (unat (sb_len b)) v,
       sb_len := sb_len b + of_nat SD_HEADER + ucast (sd_data_len v),
       sb_events_num := sb_events_num b + 1\<rparr>"

text \<open>\<open>head\<close> is the header of the event just output, found at \<^verbatim>\<open>v\<close> also after the buffer was sent.\<close>

definition output_extra_data_common ::
    "kern_env \<Rightarrow> data_args_t option \<Rightarrow> socket_data \<Rightarrow> u32 \<Rightarrow> u32 \<Rightarrow> kern_state \<Rightarrow> kern_state" where
  "output_extra_data_common env args head max_size reassembly_bytes ks =
     (case (args, current_data_buf env ks) of
        (Some a, Some v_buff) \<Rightarrow>
          if da_extra_iovlen a = 0 then ks
          else if sd_data_type head \<noteq> proto_num PROTO_DNS \<or> sd_l4_protocol head \<noteq> IPPROTO_UDP then ks
          else if sb_len v_buff > BUFFER_LIMIT then ks
          else
            (let a1 = a\<lparr>da_iov := da_extra_iov a, da_iovlen := da_extra_iovlen a\<rparr>;
                 extra_v = head\<lparr>sd_data_seq := sd_data_seq head + 1\<rparr>;
                 (n, b1) = output_iov_data_copy (infer_env env ks) a1 v_buff extra_v max_size reassembly_bytes;
                 extra_v1 = extra_v\<lparr>sd_data_len := ucast n\<rparr>
             in set_data_buf env (append_event extra_v1 b1) ks)
      | _ \<Rightarrow> ks)"

text \<open>The tail of both output programs, from \<^verbatim>\<open>skip_copy\<close> on: the event is counted, the buffer sent if it is
  late, full or followed by extra data, and the extra data appended.\<close>

definition output_finish ::
    "kern_env \<Rightarrow> data_args_t option \<Rightarrow> socket_data_buffer \<Rightarrow> socket_data \<Rightarrow> u32 \<Rightarrow> u32 \<Rightarrow> tracer_ctx_s \<Rightarrow> kern_state
      \<Rightarrow> kern_state" where
  "output_finish env args v_buff v max_size reassembly_bytes t ks =
     (let b1 = append_event v v_buff;
          curr_time = ke_ktime env KT_output;
          diff = curr_time - tc_last_period_timestamp t;
          extra = (case args of Some a \<Rightarrow> da_extra_iovlen a \<noteq> 0 | None \<Rightarrow> False);
          ks1 = (if diff > PERIODIC_PUSH_DELAY_THRESHOLD_NS \<or> sb_events_num b1 \<ge> MAX_EVENTS_BURST \<or> extra \<or>
                    of_nat BUFFER_DATA_SZ - sb_len b1 < (of_nat (SD_HEADER + BURST_DATA_BUF_SIZE) :: u32)
                 then finalize_data_output env curr_time diff b1 ks
                 else set_data_buf env b1 ks)
      in output_extra_data_common env args v max_size reassembly_bytes ks1)"

text \<open>The payload's reader for an event: the arguments' buffer, or the event buffer of a file event.\<close>

definition payload_reader ::
    "kern_env \<Rightarrow> kern_state \<Rightarrow> data_args_t \<Rightarrow> socket_data \<Rightarrow> (nat \<Rightarrow> int \<times> buf) option" where
  "payload_reader env ks a v =
     (if sd_source v = source_num DATA_SOURCE_IO_EVENT
      then map_option (\<lambda>b n. (0, b)) (ks_io_buffer ks (ke_cpu env))
      else Some (ke_read_user env (da_buf a)))"

text \<open>Both output programs between their checks and their exit: \<open>None\<close> as arguments is \<^verbatim>\<open>NULL\<close>.\<close>

definition output_event ::
    "kern_env \<Rightarrow> data_args_t option \<Rightarrow> bool \<Rightarrow> u32 \<Rightarrow> bool \<Rightarrow> u32 \<Rightarrow> socket_data_buffer \<Rightarrow> tracer_ctx_s \<Rightarrow> kern_state
      \<Rightarrow> kern_state" where
  "output_event env args vecs max_size is_close reassembly_bytes v_buff t ks =
     (let v = sd_load (sb_data v_buff) (unat (sb_len v_buff))
      in if sb_len v_buff > BUFFER_LIMIT then ks
         else if is_close then output_finish env args v_buff (v\<lparr>sd_data_len := 0\<rparr>) max_size reassembly_bytes t ks
         else
           (case args of
              None \<Rightarrow> ks
            | Some a \<Rightarrow>
                (case payload_reader env ks a v of
                   None \<Rightarrow> ks
                 | Some read \<Rightarrow>
                     (case output_data_copy (infer_env env ks) a vecs v_buff v max_size reassembly_bytes read of
                        (None, b1) \<Rightarrow> set_data_buf env b1 ks
                      | (Some copy_bytes, b1) \<Rightarrow>
                          output_finish env args b1 (v\<lparr>sd_data_len := ucast copy_bytes\<rparr>) max_size
                            reassembly_bytes t ks))))"

text \<open>\<^verbatim>\<open>__output_data_common\<close>, of the builds from 5.2 on.\<close>

definition output_data_common_5_2 ::
    "kern_env \<Rightarrow> data_args_t option \<Rightarrow> bool \<Rightarrow> u32 \<Rightarrow> bool \<Rightarrow> u32 \<Rightarrow> tracer_ctx_s \<Rightarrow> kern_state \<Rightarrow> kern_state" where
  "output_data_common_5_2 env args vecs max_size is_close reassembly_bytes t ks =
     upd_refcnt env (-1)
       (case current_data_buf env ks of
          None \<Rightarrow> ks
        | Some v_buff \<Rightarrow>
            if sb_len v_buff + of_nat SD_HEADER > of_nat BUFFER_DATA_SZ then ks
            else output_event env args vecs max_size is_close reassembly_bytes v_buff t ks)"

text \<open>\<^verbatim>\<open>output_data_common\<close>, a program of its own before 5.2, with the context it finds in the buffer. The
  size of that context is 248 bytes.\<close>

definition output_data_common :: "kern_env \<Rightarrow> kern_state \<Rightarrow> kern_state" where
  "output_data_common env ks =
     (let pt = ke_pid_tgid env
      in case current_tracer env ks of
           None \<Rightarrow> ks
         | Some t \<Rightarrow>
             (case current_data_buf env ks of
                None \<Rightarrow> del_write_args pt (del_read_args pt (upd_refcnt env (-1) ks))
              | Some v_buff \<Rightarrow>
                  if sb_len v_buff + of_nat SD_HEADER + 248 > of_nat BUFFER_DATA_SZ
                  then del_write_args pt (del_read_args pt (upd_refcnt env (-1) ks))
                  else
                    (let ctx = sb_context v_buff;
                         args = (if tl_dir ctx = T_INGRESS then ks_read_args ks pt else ks_write_args ks pt);
                         ks1 = upd_refcnt env (-1)
                                 (output_event env args (tl_vecs ctx) (tl_max_size_limit ctx) (tl_is_close ctx)
                                    (tl_push_reassembly_bytes ctx) v_buff t ks)
                     in if tl_dir ctx = T_INGRESS then del_read_args pt ks1 else del_write_args pt ks1)))"

text \<open>The tail call of \<^verbatim>\<open>PROG_OUTPUT_DATA\<close>. Every caller has raised the reference count; when the call fails it
  returns and leaves the count raised.\<close>

definition tail_output :: "kern_env \<Rightarrow> kern_state \<Rightarrow> kern_state" where
  "tail_output env ks = (if ke_tail_call env PROG_OUTPUT_DATA then output_data_common env ks else ks)"

text \<open>The periodic push, run by a \<^verbatim>\<open>getppid\<close> of the agent on every CPU.\<close>

definition push_socket_data :: "kern_env \<Rightarrow> kern_state \<Rightarrow> kern_state" where
  "push_socket_data env ks =
     (if \<not> check_pid_validity env then ks
      else
        (case (current_tracer env ks, ks_stats ks) of
           (Some t, Some st) \<Rightarrow>
             (let now = ke_ktime env KT_push;
                  diff = now - tc_period_timestamp t;
                  ks1 = upd_stats (\<lambda>st. st\<lparr>ts_period_event_total_time := ts_period_event_total_time st + diff,
                                          ts_period_event_count := ts_period_event_count st + 1\<rparr>)
                          (upd_tracer env (\<lambda>t. t\<lparr>tc_last_period_timestamp := tc_period_timestamp t,
                                                tc_period_timestamp := now\<rparr>) ks)
              in if tc_push_buffer_refcnt t \<noteq> 0
                 then upd_stats (\<lambda>st. st\<lparr>ts_push_conflict_count := ts_push_conflict_count st + 1\<rparr>) ks1
                 else
                   (case current_data_buf env ks1 of
                      None \<Rightarrow> ks1
                    | Some v_buff \<Rightarrow>
                        if sb_events_num v_buff > 0 then
                          (let ks2 = set_data_buf env (v_buff\<lparr>sb_events_num := 0, sb_len := 0\<rparr>)
                                       (perf_output env v_buff ks1)
                           in if diff > MAX_PUSH_DELAY_TIME_NS
                              then upd_stats (\<lambda>st. st\<lparr>ts_period_event_max_delay := ts_period_event_max_delay st + 1\<rparr>) ks2
                              else ks2)
                        else ks1))
         | _ \<Rightarrow> ks))"

end
