(* ===== verification/Push_Stream.thy ===== *)
theory Push_Stream
  imports Push_Buffer "HOL-Library.Sublist"
begin

text \<open>
  The push buffer as a stream of events. A buffer is read as the sequence of events that it holds, and a batch
  sent to the agent as the sequence that the agent decodes from it. Every copy stays inside the payload area of
  the buffer; every output program appends events at the end of the stream of its CPU; sending a batch moves
  events from the buffer to the agent and leaves the stream as it is.
\<close>

section \<open>The buffer as a sequence of events\<close>

type_synonym event = "socket_data \<times> u8 list"

definition event_at :: "buf \<Rightarrow> nat \<Rightarrow> event" where
  "event_at b off = (let v = sd_load b off in (v, bytes_at b (off + SD_HEADER) (unat (sd_data_len v))))"

definition next_event :: "buf \<Rightarrow> nat \<Rightarrow> nat" where
  "next_event b off = off + SD_HEADER + unat (sd_data_len (sd_load b off))"

fun load_events :: "nat \<Rightarrow> buf \<Rightarrow> nat \<Rightarrow> event list" where
  "load_events 0 b off = []"
| "load_events (Suc n) b off = event_at b off # load_events n b (next_event b off)"

fun events_end :: "nat \<Rightarrow> buf \<Rightarrow> nat \<Rightarrow> nat" where
  "events_end 0 b off = off"
| "events_end (Suc n) b off = events_end n b (next_event b off)"

lemma load_events_snoc: "load_events (Suc n) b off = load_events n b off @ [event_at b (events_end n b off)]"
  by (induction n arbitrary: off) simp_all

lemma events_end_snoc: "events_end (Suc n) b off = next_event b (events_end n b off)"
  by (induction n arbitrary: off) simp_all

lemma le_events_end: "off \<le> events_end n b off"
proof (induction n arbitrary: off)
  case (Suc n)
  have "off \<le> next_event b off" by (simp add: next_event_def)
  also have "\<dots> \<le> events_end n b (next_event b off)" by (rule Suc)
  finally show ?case by simp
qed simp

lemma ld_u32_cong: "agree_on n b b' \<Longrightarrow> i + 4 \<le> n \<Longrightarrow> ld_u32 b' i = ld_u32 b i"
  by (simp add: ld_u32_def agree_on_def)

lemma ld_u64_cong: "agree_on n b b' \<Longrightarrow> i + 8 \<le> n \<Longrightarrow> ld_u64 b' i = ld_u64 b i"
  by (simp add: ld_u64_def ld_u32_cong)

lemma ld_u16_cong: "agree_on n b b' \<Longrightarrow> i + 2 \<le> n \<Longrightarrow> ld_u16 b' i = ld_u16 b i"
  by (simp add: ld_u16_def agree_on_def)

lemma bytes_at_cong: "agree_on n b b' \<Longrightarrow> i + k \<le> n \<Longrightarrow> bytes_at b' i k = bytes_at b i k"
  by (simp add: bytes_at_def agree_on_def)

lemma sd_load_cong: "agree_on n b b' \<Longrightarrow> off + SD_HEADER \<le> n \<Longrightarrow> sd_load b' off = sd_load b off"
  by (simp add: sd_load_def SD_HEADER_def ld_u16_cong [of n b b'] ld_u32_cong [of n b b'] ld_u64_cong [of n b b']
      bytes_at_cong [of n b b'] agree_on_def [of n b b'])

lemma event_at_cong:
  assumes "agree_on n b b'" "next_event b off \<le> n"
  shows "event_at b' off = event_at b off" "next_event b' off = next_event b off"
  using assms sd_load_cong [OF assms(1), of off]
  by (simp_all add: event_at_def next_event_def Let_def bytes_at_cong [OF assms(1)])

lemma load_events_cong:
  assumes "agree_on m b b'" "events_end n b off \<le> m"
  shows "load_events n b' off = load_events n b off \<and> events_end n b' off = events_end n b off"
  using assms(2)
proof (induction n arbitrary: off)
  case (Suc n)
  have "next_event b off \<le> m" using Suc.prems le_events_end [of "next_event b off" n b] by simp
  then show ?case using Suc event_at_cong [OF assms(1)] by simp
qed simp

definition sb_events :: "socket_data_buffer \<Rightarrow> event list" where
  "sb_events b = load_events (unat (sb_events_num b)) (sb_data b) 0"

definition sb_wf :: "socket_data_buffer \<Rightarrow> bool" where
  "sb_wf b \<longleftrightarrow> events_end (unat (sb_events_num b)) (sb_data b) 0 = unat (sb_len b)"

text \<open>What the agent reads from a batch: the number of events, then the events from byte 8 on.\<close>

definition decode_batch :: "u8 list \<Rightarrow> event list" where
  "decode_batch xs = load_events (unat (ld_u32 (buf_of xs) 0)) (shift_buf (buf_of xs) 8) 0"

lemma output_size_enough:
  assumes "unat (sb_len b) \<le> BUFFER_DATA_SZ"
  shows "unat (sb_len b) + 8 \<le> output_size b" "output_size b \<le> 32768"
proof -
  have e: "unat (sb_len b + 8) = unat (sb_len b) + 8"
    using assms by (simp add: unat_word_ariths BUFFER_DATA_SZ_def)
  have "buf_size b = take_bit 15 (sb_len b + 8)"
    by (simp add: buf_size_def take_bit_eq_mask mask_eq_exp_minus_1)
  then have m: "unat (buf_size b) = (unat (sb_len b) + 8) mod 32768"
    by (simp add: unsigned_take_bit_eq take_bit_nat_def e)
  show "unat (sb_len b) + 8 \<le> output_size b" "output_size b \<le> 32768"
  proof -
    show "unat (sb_len b) + 8 \<le> output_size b"
      using assms m by (cases "unat (sb_len b) + 8 = 32768")
        (auto simp: output_size_def word_less_nat_alt BUFFER_DATA_SZ_def)
    show "output_size b \<le> 32768"
      by (auto simp: output_size_def word_less_nat_alt)
  qed
qed

lemma sb_bytes_data: "8 + i < n \<Longrightarrow> buf_of (sb_bytes b n) (8 + i) = sb_data b i"
  by (simp add: buf_of_def sb_bytes_def)

lemma sb_bytes_num: "8 \<le> n \<Longrightarrow> ld_u32 (buf_of (sb_bytes b n)) 0 = sb_events_num b"
  by (rule ld_u32_le) (simp add: buf_of_def sb_bytes_def nth_append)

lemma decode_output:
  assumes "sb_wf b" "unat (sb_len b) \<le> BUFFER_DATA_SZ"
  shows "decode_batch (sb_bytes b (output_size b)) = sb_events b"
proof -
  note sz = output_size_enough [OF assms(2)]
  have "agree_on (unat (sb_len b)) (sb_data b) (shift_buf (buf_of (sb_bytes b (output_size b))) 8)"
    using sz(1) by (simp add: agree_on_def sb_bytes_data)
  then show ?thesis
    using load_events_cong assms(1) sb_bytes_num [of "output_size b" b] sz(1)
    by (simp add: decode_batch_def sb_events_def sb_wf_def)
qed

lemma append_event_len:
  assumes "sb_len b \<le> BUFFER_LIMIT" "sd_data_len v \<le> 16384"
  shows "unat (sb_len (append_event v b)) = unat (sb_len b) + SD_HEADER + unat (sd_data_len v)"
  using assms
  by (simp add: append_event_def unat_word_ariths SD_HEADER_def BUFFER_LIMIT_def word_le_nat_alt)

lemma sd_store_out: "sd_wf v \<Longrightarrow> i < off \<or> off + SD_HEADER \<le> i \<Longrightarrow> sd_store b off v i = b i"
  by (simp add: sd_store_def st_bytes_out)

lemma append_event_wf:
  assumes "sb_wf b" "sb_len b \<le> BUFFER_LIMIT" "sd_data_len v \<le> 16384" "sd_wf v" "sb_events_num b < 32"
  shows "sb_wf (append_event v b)"
    "sb_events (append_event v b) =
       sb_events b @ [(v, bytes_at (sb_data b) (unat (sb_len b) + SD_HEADER) (unat (sd_data_len v)))]"
proof -
  let ?l = "unat (sb_len b)" and ?d = "sb_data b" and ?n = "unat (sb_events_num b)"
  define d where "d = sd_store ?d ?l v"
  have a: "agree_on ?l ?d d" using assms(4) by (simp add: d_def agree_on_def sd_store_out)
  have old: "load_events ?n d 0 = load_events ?n ?d 0" "events_end ?n d 0 = ?l"
    using load_events_cong [OF a] assms(1) by (simp_all add: sb_wf_def)
  have v: "sd_load d ?l = v" using assms(4) by (simp add: d_def)
  have p: "bytes_at d (?l + SD_HEADER) k = bytes_at ?d (?l + SD_HEADER) k" for k
    using assms(4) by (simp add: bytes_at_def d_def sd_store_out)
  have n: "unat (sb_events_num (append_event v b)) = Suc ?n"
    using assms(5) by (simp add: append_event_def unat_word_ariths word_less_nat_alt)
  have e: "sb_data (append_event v b) = d" by (simp add: append_event_def d_def)
  show "sb_wf (append_event v b)"
    unfolding sb_wf_def n e events_end_snoc old next_event_def v append_event_len [OF assms(2,3)] ..
  show "sb_events (append_event v b) = sb_events b @ [(v, bytes_at ?d (?l + SD_HEADER) (unat (sd_data_len v)))]"
    unfolding sb_events_def n e load_events_snoc old event_at_def v Let_def p ..
qed

section \<open>Copying stays inside the buffer\<close>

definition copy_in :: "nat \<Rightarrow> buf \<Rightarrow> u32 \<Rightarrow> copy_st \<Rightarrow> bool" where
  "copy_in lo d total_size st \<longleftrightarrow>
     cs_bytes st \<le> total_size \<and> (\<forall>i. i < lo \<or> BUFFER_DATA_SZ \<le> i \<longrightarrow> cs_data st i = d i)"

lemma iov_size_bound:
  assumes "unat r \<le> 16384"
  shows "unat (if (l::u64) < scast r then ucast l else r :: u32) \<le> unat r"
proof (cases "l < (scast r :: u64)")
  case True
  then have "unat l < unat r" using assms unat_scast_u32_u64 [of r] by (simp add: word_less_nat_alt)
  then show ?thesis
    using True assms by (simp add: unsigned_ucast_eq take_bit_nat_eq_self)
qed simp

lemma and_16383_le: "unat (w AND 16383 :: u32) \<le> 16383" "unat (w AND 16383 :: u32) \<le> unat w"
  using word_and_le1 [of w 16383] word_and_le2 [of w 16383] by (simp_all add: word_le_nat_alt)

lemma COPY_IOV_in:
  assumes "copy_in (unat off) d total_size st" "total_size \<le> 16384" "unat off \<le> 16376"
  shows "copy_in (unat off) d total_size (COPY_IOV env 32760 16384 off iov total_size st)"
proof -
  let ?r = "total_size - cs_bytes st" and ?l = "ld_u64 (read_user env (\<lambda>_. 0) 16 iov) 8"
  define sz where "sz = (\<lambda>l :: u64. if l < scast ?r then ucast l else ?r)"
  have r: "unat ?r = unat total_size - unat (cs_bytes st)" and t: "unat total_size \<le> 16384"
    and b: "unat (cs_bytes st) \<le> unat total_size"
    using assms by (simp_all add: copy_in_def word_le_nat_alt unat_sub)
  have sz: "unat (sz l) \<le> unat total_size - unat (cs_bytes st)" for l
    using iov_size_bound [of ?r l] r t unfolding sz_def by linarith
  have add: "cs_bytes st + x \<le> total_size" if "unat x \<le> unat total_size - unat (cs_bytes st)" for x
    using unat_add_le [of "cs_bytes st" x] that b by (simp add: word_le_nat_alt)
  have full: "cs_bytes st + 16384 \<le> total_size" if "ucast (sz l) \<ge> (16384 :: u64)" for l
    using that sz [of l] by (intro add) (simp add: word_le_nat_alt)
  have part: "cs_bytes st + (sz l AND 16383) \<le> total_size" for l
    using and_16383_le(2) [of "sz l"] sz [of l] by (intro add) linarith
  have len: "unat (off + cs_bytes st) = unat off + unat (cs_bytes st)"
    using assms(3) b t by (simp add: unat_word_ariths)
  have w: "i < unat off \<or> 32760 \<le> i \<Longrightarrow> unat off + unat (cs_bytes st) + n \<le> 32760 \<Longrightarrow>
      write_at x (unat off + unat (cs_bytes st)) src n i = x i" for i n x src
    by (auto simp: write_at_def)
  have pos: "unat off + unat (cs_bytes st) \<le> 16376" if "\<not> ucast (off + cs_bytes st) > (16376 :: u64)"
    using that by (simp add: word_less_nat_alt not_less len)
  have pb: "unat off + unat (cs_bytes st) + Suc (unat (x AND 16383)) \<le> 32760" if "\<not> ucast (off + cs_bytes st) > (16376 :: u64)" for x :: u32
    using pos [OF that] and_16383_le(1) [of x] by linarith
  show ?thesis
    using assms(1) full [of ?l, unfolded sz_def] part [of ?l, unfolded sz_def] pos pb
    unfolding COPY_IOV_def Let_def
    by (auto simp: copy_in_def len w BUFFER_DATA_SZ_def)
qed

lemma iov_loop_in:
  assumes "copy_in (unat off) d total_size st" "total_size \<le> 16384" "unat off \<le> 16376"
  shows "copy_in (unat off) d total_size (iov_loop k i env 32760 16384 off iov iovlen total_size st)"
  using assms(1) by (induction k arbitrary: i st) (simp_all add: COPY_IOV_in assms(2,3))

lemma limit_off: "sb_len b \<le> BUFFER_LIMIT \<Longrightarrow> unat (sb_len b + of_nat SD_HEADER) = unat (sb_len b) + SD_HEADER"
  by (simp add: unat_word_ariths SD_HEADER_def BUFFER_LIMIT_def word_le_nat_alt)

text \<open>What a copy may do: it returns at most 16384 bytes, and changes nothing but bytes of the payload area.\<close>

definition copy_result :: "socket_data_buffer \<Rightarrow> u32 \<Rightarrow> socket_data_buffer \<Rightarrow> bool" where
  "copy_result b n b' \<longleftrightarrow> unat n \<le> BURST_DATA_BUF_SIZE \<and> b' = b\<lparr>sb_data := sb_data b'\<rparr> \<and>
     (\<forall>i. i < unat (sb_len b) + SD_HEADER \<or> BUFFER_DATA_SZ \<le> i \<longrightarrow> sb_data b' i = sb_data b i)"

lemma iovecs_copy_result:
  assumes "sb_len b \<le> BUFFER_LIMIT" "send_len \<le> 16383" "iovecs_copy benv b args real_len send_len = (n, b')"
  shows "copy_result b n b'"
proof -
  define t where "t = (if real_len \<ge> of_nat BURST_DATA_BUF_SIZE then of_nat BURST_DATA_BUF_SIZE else send_len)"
  have t: "t \<le> 16384" using assms(2) by (auto simp: t_def BURST_DATA_BUF_SIZE_def word_le_nat_alt)
  let ?off = "sb_len b + of_nat SD_HEADER"
  let ?st = "iov_loop LOOP_LIMIT 0 benv 32760 16384 ?off (da_iov args) (da_iovlen args) t
      \<lparr>cs_data = sb_data b, cs_bytes = 0, cs_first = 0, cs_first_len = 0\<rparr>"
  have off: "unat ?off \<le> 16376"
    unfolding limit_off [OF assms(1)] using assms(1) by (simp add: SD_HEADER_def BUFFER_LIMIT_def word_le_nat_alt)
  have "copy_in (unat ?off) (sb_data b) t ?st"
    by (rule iov_loop_in [OF _ t off]) (simp add: copy_in_def)
  moreover have "n = cs_bytes ?st" "b' = b\<lparr>sb_data := cs_data ?st\<rparr>"
    using assms(3) by (simp_all add: iovecs_copy_def Let_def t_def BUFFER_DATA_SZ_def BURST_DATA_BUF_SIZE_def)
  ultimately show ?thesis
    using t assms(1) by (auto simp: copy_result_def copy_in_def limit_off BURST_DATA_BUF_SIZE_def word_le_nat_alt)
qed

lemma output_data_copy_result:
  assumes "sb_len b \<le> BUFFER_LIMIT" "output_data_copy benv args vecs b v max_size reasm read = (r, b')"
  shows "copy_result b (case r of None \<Rightarrow> 0 | Some n \<Rightarrow> n) b'"
proof (cases vecs)
  case True
  let ?len = "push_len v max_size reasm"
  obtain n b2 where c: "iovecs_copy benv b args ?len (?len AND 16383) = (n, b2)" by (metis surj_pair)
  have "?len AND 16383 \<le> 16383" using and_16383_le(1) [of ?len] by (simp add: word_le_nat_alt)
  from iovecs_copy_result [OF assms(1) this c] show ?thesis
    using assms(2) True c by (auto simp: output_data_copy_def BURST_DATA_BUF_SIZE_def)
next
  case False
  let ?len = "push_len v max_size reasm"
  have "unat (sb_len b) \<le> 16223" using assms(1) by (simp add: BUFFER_LIMIT_def word_le_nat_alt)
  then show ?thesis
    using assms(2) False and_16383_le(1) [of ?len]
    by (auto simp: output_data_copy_def copy_result_def Let_def split_beta write_at_def BURST_DATA_BUF_SIZE_def
        BUFFER_DATA_SZ_def SD_HEADER_def split: if_splits)
qed

section \<open>The stream of a CPU\<close>

text \<open>All events output on a CPU so far: those handed over to the perf ring, as the agent decodes them, then those in
  the buffer. The agent receives the batches that the ring took.\<close>

definition sent_events :: "nat \<Rightarrow> kern_state \<Rightarrow> event list" where
  "sent_events cpu ks = concat (map (\<lambda>(c, batch, taken). decode_batch batch) (filter (\<lambda>x. fst x = cpu) (ks_out ks)))"

definition received_events :: "nat \<Rightarrow> kern_state \<Rightarrow> event list" where
  "received_events cpu ks =
     concat (map (\<lambda>(c, batch, taken). if taken then decode_batch batch else []) (filter (\<lambda>x. fst x = cpu) (ks_out ks)))"

definition none_lost :: "nat \<Rightarrow> kern_state \<Rightarrow> bool" where
  "none_lost cpu ks \<longleftrightarrow> list_all (\<lambda>(c, batch, taken). c = cpu \<longrightarrow> taken) (ks_out ks)"

definition cpu_stream :: "nat \<Rightarrow> kern_state \<Rightarrow> event list" where
  "cpu_stream cpu ks =
     sent_events cpu ks @ (case ks_data_buf ks cpu of None \<Rightarrow> [] | Some b \<Rightarrow> sb_events b)"

definition sb_ok :: "socket_data_buffer \<Rightarrow> bool" where
  "sb_ok b \<longleftrightarrow> sb_wf b \<and> unat (sb_len b) \<le> SD_HEADER + BURST_DATA_BUF_SIZE \<and> sb_events_num b < 32"

lemma sd_wf_load [simp]: "sd_wf (sd_load b off)"
  by (simp add: sd_wf_def sd_load_def bytes_at_def)

lemma sd_wf_upd [simp]: "sd_wf (v\<lparr>sd_data_len := n\<rparr>) = sd_wf v" "sd_wf (v\<lparr>sd_data_seq := q\<rparr>) = sd_wf v"
  by (simp_all add: sd_wf_def)

lemma copy_result_events:
  assumes "copy_result b n b'" "sb_wf b"
  shows "sb_wf b'" "sb_events b' = sb_events b" "sb_len b' = sb_len b" "sb_events_num b' = sb_events_num b"
proof -
  have f: "sb_len b' = sb_len b" "sb_events_num b' = sb_events_num b"
    using assms(1) unfolding copy_result_def by (metis socket_data_buffer.select_convs socket_data_buffer.update_convs(3) socket_data_buffer.surjective)+
  have "agree_on (unat (sb_len b)) (sb_data b) (sb_data b')"
    using assms(1) by (simp add: copy_result_def agree_on_def)
  from load_events_cong [OF this] f assms(2)
  show "sb_wf b'" "sb_events b' = sb_events b" "sb_len b' = sb_len b" "sb_events_num b' = sb_events_num b"
    by (simp_all add: sb_wf_def sb_events_def)
qed

lemma sent_events_output:
  "sent_events cpu (perf_output env b ks) =
     sent_events cpu ks @ (if cpu = ke_cpu env then decode_batch (sb_bytes b (output_size b)) else [])"
  by (simp add: sent_events_def perf_output_def)

lemma received_subseq: "subseq (received_events cpu ks) (sent_events cpu ks)"
proof -
  have "subseq (concat (map (\<lambda>(c, batch, taken). if taken then decode_batch batch else []) xs))
      (concat (map (\<lambda>(c, batch, taken). decode_batch batch) xs))" for xs :: "(nat \<times> u8 list \<times> bool) list"
    by (induction xs) (auto intro: list_emb_append_mono)
  then show ?thesis unfolding received_events_def sent_events_def .
qed

lemma received_all: "none_lost cpu ks \<Longrightarrow> received_events cpu ks = sent_events cpu ks"
  unfolding received_events_def sent_events_def none_lost_def list_all_iff
  by (intro arg_cong [of _ _ concat] map_cong) auto

lemma sent_events_frame [simp]:
  "sent_events cpu (set_data_buf env b ks) = sent_events cpu ks"
  "sent_events cpu (upd_tracer env f ks) = sent_events cpu ks"
  "sent_events cpu (upd_stats g ks) = sent_events cpu ks"
  by (simp_all add: sent_events_def set_data_buf_def upd_tracer_def upd_stats_def)

lemma data_buf_frame [simp]:
  "ks_data_buf (upd_tracer env f ks) = ks_data_buf ks" "ks_data_buf (upd_stats g ks) = ks_data_buf ks"
  "ks_data_buf (perf_output env b ks) = ks_data_buf ks"
  "ks_data_buf (set_data_buf env b ks) = (ks_data_buf ks)(ke_cpu env \<mapsto> b)"
  by (simp_all add: upd_tracer_def upd_stats_def perf_output_def set_data_buf_def)

text \<open>What a step may do to the streams: events are appended to the stream of its CPU, its buffer stays
  well formed, and no other CPU is touched.\<close>

definition stream_step :: "nat \<Rightarrow> event list \<Rightarrow> kern_state \<Rightarrow> kern_state \<Rightarrow> bool" where
  "stream_step cpu es ks ks' \<longleftrightarrow>
     cpu_stream cpu ks' = cpu_stream cpu ks @ es \<and>
     (\<forall>b. ks_data_buf ks' cpu = Some b \<longrightarrow> sb_ok b) \<and>
     (\<forall>c. c \<noteq> cpu \<longrightarrow> cpu_stream c ks' = cpu_stream c ks \<and> ks_data_buf ks' c = ks_data_buf ks c)"

lemma stream_step_append:
  assumes "ks_data_buf ks (ke_cpu env) = Some b0" "sb_events b = sb_events b0 @ es" "sb_ok b"
  shows "stream_step (ke_cpu env) es ks (set_data_buf env b ks)"
  using assms by (simp add: stream_step_def cpu_stream_def)

lemma stream_step_flush:
  assumes "ks_data_buf ks (ke_cpu env) = Some b0" "sb_events b = sb_events b0 @ es" "sb_wf b"
    "unat (sb_len b) \<le> BUFFER_DATA_SZ"
  shows "stream_step (ke_cpu env) es ks (set_data_buf env (b\<lparr>sb_events_num := 0, sb_len := 0\<rparr>) (perf_output env b ks))"
proof -
  have z: "sb_events (b\<lparr>sb_events_num := 0, sb_len := 0\<rparr>) = []" "sb_ok (b\<lparr>sb_events_num := 0, sb_len := 0\<rparr>)"
    by (simp_all add: sb_events_def sb_ok_def sb_wf_def)
  then show ?thesis
    using assms decode_output [OF assms(3,4)]
    by (simp add: stream_step_def cpu_stream_def sent_events_output)
qed

lemma stream_step_trans:
  "stream_step cpu es ks ks1 \<Longrightarrow> stream_step cpu fs ks1 ks2 \<Longrightarrow> stream_step cpu (es @ fs) ks ks2"
  by (simp add: stream_step_def)

text \<open>Updates of other parts of the state.\<close>

lemma stream_frame [simp]:
  "cpu_stream cpu (upd_tracer env f ks) = cpu_stream cpu ks" "cpu_stream cpu (upd_stats g ks) = cpu_stream cpu ks"
  "cpu_stream cpu (del_read_args pt ks) = cpu_stream cpu ks" "cpu_stream cpu (del_write_args pt ks) = cpu_stream cpu ks"
  "ks_data_buf (del_read_args pt ks) = ks_data_buf ks" "ks_data_buf (del_write_args pt ks) = ks_data_buf ks"
  by (simp_all add: cpu_stream_def sent_events_def upd_tracer_def upd_stats_def del_read_args_def del_write_args_def)

lemma stream_step_frame:
  "stream_step cpu es ks ks' \<Longrightarrow> stream_step cpu es ks (upd_tracer env f ks')"
  "stream_step cpu es ks ks' \<Longrightarrow> stream_step cpu es ks (upd_stats g ks')"
  "stream_step cpu es ks ks' \<Longrightarrow> stream_step cpu es ks (del_read_args pt ks')"
  "stream_step cpu es ks ks' \<Longrightarrow> stream_step cpu es ks (del_write_args pt ks')"
  "stream_step cpu es ks ks' \<Longrightarrow> stream_step cpu es ks (upd_refcnt env d ks')"
  by (simp_all add: stream_step_def upd_refcnt_def)

lemma stream_step_refl: "(\<And>b. ks_data_buf ks cpu = Some b \<Longrightarrow> sb_ok b) \<Longrightarrow> stream_step cpu [] ks ks"
  by (simp add: stream_step_def)

lemma stream_step_finalize:
  assumes "ks_data_buf ks (ke_cpu env) = Some b0" "sb_events b = sb_events b0 @ es" "sb_wf b"
    "unat (sb_len b) \<le> BUFFER_DATA_SZ"
  shows "stream_step (ke_cpu env) es ks (finalize_data_output env ct df b ks)"
  using stream_step_flush [OF assms] by (simp add: finalize_data_output_def Let_def stream_step_frame)

lemma ucast_copied:
  assumes "unat (n :: u32) \<le> BURST_DATA_BUF_SIZE"
  shows "unat (ucast n :: u16) = unat n" "(ucast n :: u16) \<le> 16384"
proof -
  show "unat (ucast n :: u16) = unat n"
    using assms by (simp add: unsigned_ucast_eq take_bit_nat_eq_self_iff BURST_DATA_BUF_SIZE_def)
  then show "(ucast n :: u16) \<le> 16384" using assms by (simp add: word_le_nat_alt BURST_DATA_BUF_SIZE_def)
qed

text \<open>An event appended to a buffer with room leaves one that can be sent.\<close>

lemma append_event_fits:
  assumes "sb_len b \<le> BUFFER_LIMIT" "sd_data_len v \<le> 16384"
  shows "unat (sb_len (append_event v b)) \<le> BUFFER_DATA_SZ"
  unfolding append_event_len [OF assms] using assms
  by (simp add: BUFFER_LIMIT_def SD_HEADER_def BUFFER_DATA_SZ_def word_le_nat_alt)

text \<open>The extra event, if there is one.\<close>

definition extra_of :: "socket_data \<Rightarrow> event list \<Rightarrow> bool" where
  "extra_of v es \<longleftrightarrow> es = [] \<or>
     (\<exists>n bs. es = [(v\<lparr>sd_data_seq := sd_data_seq v + 1, sd_data_len := n\<rparr>, bs)] \<and> length bs = unat n)"

lemma output_extra_stream:
  assumes "ks_data_buf ks (ke_cpu env) = Some b" "sb_ok b" "sd_wf v"
    and "\<And>a. args = Some a \<Longrightarrow> da_extra_iovlen a \<noteq> 0 \<Longrightarrow> sb_events_num b = 0 \<and> sb_len b = 0"
  shows "\<exists>es. extra_of v es \<and> stream_step (ke_cpu env) es ks (output_extra_data_common env args v max_size reasm ks)"
proof -
  have same: "stream_step (ke_cpu env) [] ks ks" by (rule stream_step_refl) (use assms in simp)
  show ?thesis
  proof (cases args)
    case None
    then show ?thesis using same by (auto simp: output_extra_data_common_def extra_of_def)
  next
    case (Some a)
    show ?thesis
    proof (cases "da_extra_iovlen a = 0 \<or> sd_data_type v \<noteq> proto_num PROTO_DNS \<or> sd_l4_protocol v \<noteq> IPPROTO_UDP")
      case True
      then show ?thesis using same Some assms(1)
        by (auto simp: output_extra_data_common_def current_data_buf_def extra_of_def)
    next
      case False
      then have z: "sb_events_num b = 0" "sb_len b = 0" using assms(4) Some by simp_all
      have len: "sb_len b \<le> BUFFER_LIMIT" by (simp add: z BUFFER_LIMIT_def)
      define v1 where "v1 = v\<lparr>sd_data_seq := sd_data_seq v + 1\<rparr>"
      define a1 where "a1 = a\<lparr>da_iov := da_extra_iov a, da_iovlen := da_extra_iovlen a\<rparr>"
      obtain n b1 where c: "output_iov_data_copy (infer_env env ks) a1 b v1 max_size reasm = (n, b1)" by (metis surj_pair)
      have m: "push_len v1 max_size reasm AND 16383 \<le> 16383"
        using and_16383_le(1) [of "push_len v1 max_size reasm"] by (simp add: word_le_nat_alt)
      have r: "copy_result b n b1"
        by (rule iovecs_copy_result [OF len m]) (use c in \<open>simp add: output_iov_data_copy_def Let_def BURST_DATA_BUF_SIZE_def\<close>)
      have wf: "sb_wf b" using assms(2) by (simp add: sb_ok_def)
      note e = copy_result_events [OF r wf]
      have n: "unat n \<le> BURST_DATA_BUF_SIZE" using r by (simp add: copy_result_def)
      let ?v = "v1\<lparr>sd_data_len := ucast n\<rparr>"
      have vw: "sd_wf ?v" "sd_data_len ?v \<le> 16384"
        using assms(3) ucast_copied [OF n] by (simp_all add: v1_def)
      have ap: "sb_wf (append_event ?v b1)"
        "sb_events (append_event ?v b1) = sb_events b @ [(?v, bytes_at (sb_data b1) (unat (sb_len b1) + SD_HEADER) (unat n))]"
        using append_event_wf [OF e(1) _ vw(2,1)] e z len ucast_copied [OF n] by simp_all
      have l: "unat (sb_len (append_event ?v b1)) \<le> SD_HEADER + BURST_DATA_BUF_SIZE"
        using append_event_len [OF _ vw(2), of b1] e z n ucast_copied [OF n] by (simp add: BUFFER_LIMIT_def)
      have ok: "sb_ok (append_event ?v b1)" using ap(1) l z e by (simp add: sb_ok_def append_event_def)
      have "output_extra_data_common env args v max_size reasm ks = set_data_buf env (append_event ?v b1) ks"
        using Some False assms(1) c len
        by (simp add: output_extra_data_common_def current_data_buf_def a1_def v1_def not_less)
      then show ?thesis
        using stream_step_append [OF assms(1) ap(2) ok] ucast_copied [OF n]
        by (intro exI [of _ "[(?v, bytes_at (sb_data b1) (unat (sb_len b1) + SD_HEADER) (unat n))]"])
           (auto simp: extra_of_def v1_def bytes_at_def)
    qed
  qed
qed

lemma finalize_buffer:
  "ks_data_buf (finalize_data_output env ct df b ks) (ke_cpu env) = Some (b\<lparr>sb_events_num := 0, sb_len := 0\<rparr>)"
  by (simp add: finalize_data_output_def Let_def)

definition no_extra :: "data_args_t option \<Rightarrow> bool" where
  "no_extra args = (case args of None \<Rightarrow> True | Some a \<Rightarrow> da_extra_iovlen a = 0)"

lemma no_extra_same: "no_extra args \<Longrightarrow> output_extra_data_common env args v max_size reasm ks = ks"
  by (cases args; cases "current_data_buf env ks") (simp_all add: output_extra_data_common_def no_extra_def)

lemma output_finish_stream:
  assumes "ks_data_buf ks (ke_cpu env) = Some b0" "sb_ok b0" "sb_len b0 \<le> BUFFER_LIMIT" "copy_result b0 n b"
    and "sd_wf v" "sd_data_len v \<le> 16384"
  shows "\<exists>es. extra_of v es \<and> (no_extra args \<longrightarrow> es = []) \<and>
    stream_step (ke_cpu env) ((v, bytes_at (sb_data b) (unat (sb_len b0) + SD_HEADER) (unat (sd_data_len v))) # es) ks
      (output_finish env args b v max_size reasm t ks)"
proof -
  let ?e = "(v, bytes_at (sb_data b) (unat (sb_len b0) + SD_HEADER) (unat (sd_data_len v)))"
  have ok0: "sb_wf b0" "sb_events_num b0 < 32" using assms(2) by (simp_all add: sb_ok_def)
  note c = copy_result_events [OF assms(4) ok0(1)]
  define b1 where "b1 = append_event v b"
  have ap: "sb_wf b1" "sb_events b1 = sb_events b0 @ [?e]"
    using append_event_wf [OF c(1) _ assms(6,5)] c ok0 assms(3) by (simp_all add: b1_def)
  have fits: "unat (sb_len b1) \<le> BUFFER_DATA_SZ"
    unfolding b1_def by (rule append_event_fits) (use c assms in simp_all)
  define ct df where "ct = ke_ktime env KT_output" and "df = ct - tc_last_period_timestamp t"
  define full where "full \<longleftrightarrow> df > PERIODIC_PUSH_DELAY_THRESHOLD_NS \<or> sb_events_num b1 \<ge> MAX_EVENTS_BURST \<or>
      (case args of Some a \<Rightarrow> da_extra_iovlen a \<noteq> 0 | None \<Rightarrow> False) \<or>
      of_nat BUFFER_DATA_SZ - sb_len b1 < (of_nat (SD_HEADER + BURST_DATA_BUF_SIZE) :: u32)"
  define ks1 where "ks1 = (if full then finalize_data_output env ct df b1 ks else set_data_buf env b1 ks)"
  have step: "stream_step (ke_cpu env) [?e] ks ks1"
    and buf: "\<exists>b2. ks_data_buf ks1 (ke_cpu env) = Some b2 \<and> sb_ok b2 \<and>
      (\<forall>a. args = Some a \<longrightarrow> da_extra_iovlen a \<noteq> 0 \<longrightarrow> sb_events_num b2 = 0 \<and> sb_len b2 = 0)"
  proof -
    have z: "sb_ok (b1\<lparr>sb_events_num := 0, sb_len := 0\<rparr>)" by (simp add: sb_ok_def sb_wf_def)
    have ok1: "sb_ok b1" if "\<not> full"
    proof -
      have "of_nat BUFFER_DATA_SZ - sb_len b1 \<ge> (16537 :: u32)"
        using that by (simp add: full_def SD_HEADER_def BURST_DATA_BUF_SIZE_def not_less)
      moreover have "unat (of_nat BUFFER_DATA_SZ - sb_len b1) = 32760 - unat (sb_len b1)"
        using fits by (simp add: unat_sub word_le_nat_alt BUFFER_DATA_SZ_def)
      ultimately have "unat (sb_len b1) \<le> 16223" by (simp add: word_le_nat_alt)
      then show ?thesis using that ap(1) by (simp add: sb_ok_def full_def MAX_EVENTS_BURST_def SD_HEADER_def BURST_DATA_BUF_SIZE_def not_le)
    qed
    show "stream_step (ke_cpu env) [?e] ks ks1"
      using stream_step_finalize [OF assms(1) ap(2,1) fits] stream_step_append [OF assms(1) ap(2)] ok1
      by (simp add: ks1_def)
    show "\<exists>b2. ks_data_buf ks1 (ke_cpu env) = Some b2 \<and> sb_ok b2 \<and>
      (\<forall>a. args = Some a \<longrightarrow> da_extra_iovlen a \<noteq> 0 \<longrightarrow> sb_events_num b2 = 0 \<and> sb_len b2 = 0)"
      using z ok1 by (cases full) (auto simp: ks1_def finalize_buffer full_def)
  qed
  obtain es where es: "extra_of v es" "no_extra args \<longrightarrow> es = []"
    "stream_step (ke_cpu env) es ks1 (output_extra_data_common env args v max_size reasm ks1)"
  proof (cases "no_extra args")
    case True
    show ?thesis
      by (rule that [of "[]"]) (use True buf in \<open>auto simp: no_extra_same extra_of_def intro: stream_step_refl\<close>)
  next
    case False
    then show ?thesis
      using that buf output_extra_stream [OF _ _ assms(5), of ks1 env _ args max_size reasm] by blast
  qed
  moreover have "output_finish env args b v max_size reasm t ks = output_extra_data_common env args v max_size reasm ks1"
    by (simp add: output_finish_def Let_def ks1_def full_def b1_def ct_def df_def)
  ultimately show ?thesis using stream_step_trans [OF step es(3)] by (intro exI [of _ es]) simp
qed

text \<open>The events of one output: none when the buffer has no room or the payload cannot be read, else the
  event with the header found in the buffer, its length and its payload, and the extra event.\<close>

definition outputs_event :: "socket_data \<Rightarrow> event list \<Rightarrow> bool" where
  "outputs_event v es \<longleftrightarrow> es = [] \<or>
     (\<exists>n bs xs. es = (v\<lparr>sd_data_len := n\<rparr>, bs) # xs \<and> length bs = unat n \<and> extra_of (v\<lparr>sd_data_len := n\<rparr>) xs)"

lemma output_event_stream:
  assumes "ks_data_buf ks (ke_cpu env) = Some b" "sb_ok b"
  shows "\<exists>es. outputs_event (sd_load (sb_data b) (unat (sb_len b))) es \<and>
    stream_step (ke_cpu env) es ks (output_event env args vecs max_size is_close reasm b t ks)"
proof (cases "sb_len b > BUFFER_LIMIT")
  case True
  then show ?thesis
    using stream_step_refl [of ks "ke_cpu env"] assms by (auto simp: output_event_def outputs_event_def)
next
  case False
  then have len: "sb_len b \<le> BUFFER_LIMIT" by simp
  let ?v = "sd_load (sb_data b) (unat (sb_len b))"
  have same: "stream_step (ke_cpu env) [] ks ks" by (rule stream_step_refl) (use assms in simp)
  have ev: "outputs_event ?v ((?v\<lparr>sd_data_len := n\<rparr>, bytes_at d o1 (unat n)) # es)" if "extra_of (?v\<lparr>sd_data_len := n\<rparr>) es" for n d o1 es
    using that by (auto simp: outputs_event_def bytes_at_def)
  show ?thesis
  proof (cases is_close)
    case True
    have r: "copy_result b 0 b" by (simp add: copy_result_def)
    show ?thesis
      using output_finish_stream [OF assms len r, of "?v\<lparr>sd_data_len := 0\<rparr>" args max_size reasm t] ev [of 0] True False
      by (auto simp: output_event_def)
  next
    case nc: False
    show ?thesis
    proof (cases "\<exists>a read. args = Some a \<and> payload_reader env ks a ?v = Some read")
      case False
      then have "output_event env args vecs max_size is_close reasm b t ks = ks"
        using nc len by (auto simp: output_event_def Let_def split: option.split)
      then show ?thesis using same by (auto simp: outputs_event_def)
    next
      case True
      then obtain a read where a: "args = Some a" "payload_reader env ks a ?v = Some read" by blast
      obtain r b1 where c: "output_data_copy (infer_env env ks) a vecs b ?v max_size reasm read = (r, b1)" by (metis surj_pair)
      note res = output_data_copy_result [OF len c]
      have wf: "sb_wf b" using assms(2) by (simp add: sb_ok_def)
      show ?thesis
      proof (cases r)
        case None
        have "sb_ok b1" using copy_result_events [OF res wf] assms(2) by (simp add: sb_ok_def)
        then have "stream_step (ke_cpu env) [] ks (set_data_buf env b1 ks)"
          using copy_result_events [OF res wf] by (intro stream_step_append [OF assms(1)]) simp_all
        then show ?thesis using a c None nc len by (auto simp: output_event_def outputs_event_def Let_def)
      next
        case (Some n)
        have n: "unat n \<le> BURST_DATA_BUF_SIZE" using res Some by (simp add: copy_result_def)
        show ?thesis
          using output_finish_stream [OF assms len res, of "?v\<lparr>sd_data_len := ucast n\<rparr>" args max_size reasm t]
            ev [of "ucast n"] ucast_copied [OF n] a c Some nc len
          by (auto simp: output_event_def Let_def)
      qed
    qed
  qed
qed

section \<open>The output programs\<close>

definition buffer_ok :: "nat \<Rightarrow> kern_state \<Rightarrow> bool" where
  "buffer_ok cpu ks \<longleftrightarrow> (case ks_data_buf ks cpu of None \<Rightarrow> True | Some b \<Rightarrow> sb_ok b)"

text \<open>The header that the output programs find at the end of the buffer.\<close>

definition pending_header :: "nat \<Rightarrow> kern_state \<Rightarrow> socket_data option" where
  "pending_header cpu ks =
     (case ks_data_buf ks cpu of None \<Rightarrow> None | Some b \<Rightarrow> Some (sd_load (sb_data b) (unat (sb_len b))))"

definition output_of :: "socket_data option \<Rightarrow> event list \<Rightarrow> bool" where
  "output_of v es = (case v of None \<Rightarrow> es = [] | Some v \<Rightarrow> outputs_event v es)"

lemma outputs_none [simp]: "outputs_event v []" "output_of w []"
  by (simp_all add: outputs_event_def output_of_def split: option.split)

lemma stream_step_same: "buffer_ok cpu ks \<Longrightarrow> stream_step cpu [] ks ks"
  by (rule stream_step_refl) (simp add: buffer_ok_def)

lemma output_5_2_stream:
  assumes "buffer_ok (ke_cpu env) ks"
  shows "\<exists>es. output_of (pending_header (ke_cpu env) ks) es \<and>
    stream_step (ke_cpu env) es ks (output_data_common_5_2 env args vecs max_size is_close reasm t ks)"
proof (cases "ks_data_buf ks (ke_cpu env)")
  case None
  then show ?thesis using stream_step_same [OF assms] outputs_none(2)
    by (auto simp: output_data_common_5_2_def current_data_buf_def intro!: exI [of _ "[]"] stream_step_frame)
next
  case (Some b)
  then have "sb_ok b" using assms by (simp add: buffer_ok_def)
  from output_event_stream [OF Some this, of args vecs max_size is_close reasm t] obtain es where
    es: "outputs_event (sd_load (sb_data b) (unat (sb_len b))) es"
    "stream_step (ke_cpu env) es ks (output_event env args vecs max_size is_close reasm b t ks)" by blast
  show ?thesis
  proof (cases "sb_len b + of_nat SD_HEADER > of_nat BUFFER_DATA_SZ")
    case True
    have "stream_step (ke_cpu env) [] ks (upd_refcnt env (-1) ks)"
      by (intro stream_step_frame stream_step_same assms)
    then show ?thesis using Some True outputs_none(2)
      by (intro exI [of _ "[]"]) (simp add: output_data_common_5_2_def current_data_buf_def)
  next
    case False
    then show ?thesis using Some es
      by (intro exI [of _ es])
        (simp add: output_data_common_5_2_def current_data_buf_def output_of_def pending_header_def stream_step_frame)
  qed
qed

lemma output_pre_5_2_stream:
  assumes "buffer_ok (ke_cpu env) ks"
  shows "\<exists>es. output_of (pending_header (ke_cpu env) ks) es \<and>
    stream_step (ke_cpu env) es ks (output_data_common env ks)"
proof (cases "\<exists>b t. ks_data_buf ks (ke_cpu env) = Some b \<and> ks_tracer ks (ke_cpu env) = Some t \<and>
    \<not> sb_len b + of_nat SD_HEADER + 248 > of_nat BUFFER_DATA_SZ")
  case False
  then have "stream_step (ke_cpu env) [] ks (output_data_common env ks)"
    using stream_step_same [OF assms]
    by (cases "ks_data_buf ks (ke_cpu env)"; cases "ks_tracer ks (ke_cpu env)")
      (auto simp: output_data_common_def Let_def current_data_buf_def current_tracer_def intro!: stream_step_frame)
  then show ?thesis using outputs_none(2) by blast
next
  case True
  then obtain b t where b: "ks_data_buf ks (ke_cpu env) = Some b" "ks_tracer ks (ke_cpu env) = Some t"
    "\<not> sb_len b + of_nat SD_HEADER + 248 > of_nat BUFFER_DATA_SZ" by blast
  then have "sb_ok b" using assms by (simp add: buffer_ok_def)
  from output_event_stream [OF b(1) this] show ?thesis
    using b by (fastforce simp: output_data_common_def Let_def current_data_buf_def current_tracer_def output_of_def
        pending_header_def intro!: stream_step_frame)
qed

lemma push_stream:
  assumes "buffer_ok (ke_cpu env) ks"
  shows "stream_step (ke_cpu env) [] ks (push_socket_data env ks)"
proof -
  have flush: "stream_step (ke_cpu env) [] ks' (set_data_buf env (b\<lparr>sb_events_num := 0, sb_len := 0\<rparr>) (perf_output env b ks'))"
    if "ks_data_buf ks' (ke_cpu env) = Some b" "sb_ok b" for ks' b
    by (rule stream_step_flush) (use that in \<open>simp_all add: sb_ok_def BUFFER_DATA_SZ_def SD_HEADER_def BURST_DATA_BUF_SIZE_def\<close>)
  have ok: "sb_ok b" if "ks_data_buf ks (ke_cpu env) = Some b" for b using assms that by (simp add: buffer_ok_def)
  have base: "stream_step (ke_cpu env) [] ks (upd_stats g (upd_tracer env f ks))" for g f
    by (intro stream_step_frame stream_step_same assms)
  have fl2: "stream_step (ke_cpu env) [] ks (set_data_buf env (b\<lparr>sb_events_num := 0, sb_len := 0\<rparr>)
      (perf_output env b (upd_stats g (upd_tracer env f ks))))" if "ks_data_buf ks (ke_cpu env) = Some b" for b g f
    using stream_step_trans [OF base flush [of "upd_stats g (upd_tracer env f ks)" b]] that ok by simp
  show ?thesis
    using stream_step_same [OF assms]
    by (auto simp: push_socket_data_def Let_def current_data_buf_def split: option.split
        intro!: base fl2 stream_step_frame)
qed

text \<open>C5: The push buffer refines a stream of events per CPU. With a well-formed buffer, each output program
  (of the kernels from 5.2 on and of those before) appends to the stream of its CPU, the events decoded
  from what was handed over to the perf ring followed by those waiting, either nothing or the event whose header was prepared,
  with its payload length filled in, and at most one extra event with the next sequence number; the periodic push
  changes no stream. In each case the buffer stays well formed and no other CPU is affected: no event is lost,
  duplicated, reordered or altered by batching.\<close>

theorem push_stream_refines:
  assumes "buffer_ok (ke_cpu env) ks"
  shows "(\<exists>es. output_of (pending_header (ke_cpu env) ks) es \<and>
      stream_step (ke_cpu env) es ks (output_data_common_5_2 env args vecs max_size is_close reasm t ks)) \<and>
    (\<exists>es. output_of (pending_header (ke_cpu env) ks) es \<and>
      stream_step (ke_cpu env) es ks (output_data_common env ks)) \<and>
    stream_step (ke_cpu env) [] ks (push_socket_data env ks)"
  using output_5_2_stream [OF assms] output_pre_5_2_stream [OF assms] push_stream [OF assms] by blast

lemma example_buffer_ok: "buffer_ok cpu example_kstate"
  by (simp add: buffer_ok_def example_kstate_def example_buffer_def sb_ok_def sb_wf_def)

theorem push_stream_refines_witness:
  "buffer_ok (ke_cpu (example_kenv True)) example_kstate \<and>
   (\<exists>es. output_of (pending_header 0 example_kstate) es \<and>
      stream_step 0 es example_kstate
        (output_data_common_5_2 (example_kenv True) None False 1024 True 0 example_tracer example_kstate))"
  using push_stream_refines [OF example_buffer_ok, of "example_kenv True" None False 1024 True 0 example_tracer]
    example_buffer_ok by (auto simp: example_kenv_def)

lemma push_len_small:
  assumes "unat max_size < 2 ^ 31" "unat (sd_syscall_len v) < BURST_DATA_BUF_SIZE" "unat (sd_syscall_len v) \<le> unat max_size"
  shows "push_len v max_size 0 = ucast (sd_syscall_len v)"
proof -
  have "unat (scast max_size :: u64) = unat max_size" by (rule unat_scast_u32_u64) (use assms in simp)
  then show ?thesis using assms by (simp add: push_len_def Let_def word_less_nat_alt)
qed

text \<open>When the buffer has room and the payload is short enough and readable, the output appends exactly one event: the
  prepared header with its length, and the bytes at the address in the arguments.\<close>

lemma output_plain_stream:
  assumes "ks_data_buf ks (ke_cpu env) = Some b" "sb_ok b" "sb_len b \<le> BUFFER_LIMIT"
    and "v = sd_load (sb_data b) (unat (sb_len b))" "sd_source v \<noteq> source_num DATA_SOURCE_IO_EVENT"
    and "da_extra_iovlen a = 0" "n = unat (sd_syscall_len v)" "n < BURST_DATA_BUF_SIZE"
    and "unat max_size < 2 ^ 31" "n \<le> unat max_size" "ke_read_user env (da_buf a) (n + 1) = (0, bytes)"
  shows "stream_step (ke_cpu env) [(v\<lparr>sd_data_len := of_nat n\<rparr>, bytes_at bytes 0 n)] ks
     (output_data_common_5_2 env (Some a) False max_size False 0 t ks)"
proof -
  define w where "w = (ucast (sd_syscall_len v) :: u32)"
  have w: "unat w = n" using assms(7,8) by (simp add: w_def unsigned_ucast_eq take_bit_nat_eq_self_iff BURST_DATA_BUF_SIZE_def)
  have pl: "push_len v max_size 0 = w" unfolding w_def by (rule push_len_small) (use assms in simp_all)
  have "w AND 16383 = take_bit 14 w" by (simp add: take_bit_eq_mask mask_eq_exp_minus_1)
  then have m: "w AND 16383 = w" using w assms(8) by (simp add: word_unat_eq_iff unsigned_take_bit_eq take_bit_nat_eq_self BURST_DATA_BUF_SIZE_def)
  have lt: "\<not> w \<ge> 16384" using w assms(8) by (simp add: word_le_nat_alt BURST_DATA_BUF_SIZE_def)
  define b1 where "b1 = b\<lparr>sb_data := write_at (sb_data b) (unat (sb_len b) + SD_HEADER) bytes (n + 1)\<rparr>"
  have c: "output_data_copy (infer_env env ks) a False b v max_size 0 (ke_read_user env (da_buf a)) = (Some w, b1)"
    using assms(11) lt m w by (simp add: output_data_copy_def pl b1_def BURST_DATA_BUF_SIZE_def)
  note r = output_data_copy_result [OF assms(3) c]
  have u: "ucast w = (of_nat n :: u16)" "unat (of_nat n :: u16) = n"
    using w assms(8) by (simp_all add: word_unat_eq_iff unsigned_ucast_eq unsigned_of_nat take_bit_nat_eq_self BURST_DATA_BUF_SIZE_def)
  have d: "bytes_at (sb_data b1) (unat (sb_len b) + SD_HEADER) n = bytes_at bytes 0 n"
    by (rule nth_equalityI) (simp_all add: b1_def bytes_at_def write_at_def)
  have "of_nat n \<le> (16384 :: u16)" using u(2) assms(8) by (simp add: word_le_nat_alt BURST_DATA_BUF_SIZE_def)
  moreover have "sd_wf v" using assms(4) by simp
  ultimately have "stream_step (ke_cpu env) [(v\<lparr>sd_data_len := of_nat n\<rparr>, bytes_at bytes 0 n)] ks
      (output_finish env (Some a) b1 (v\<lparr>sd_data_len := of_nat n\<rparr>) max_size 0 t ks)"
    using output_finish_stream [OF assms(1,2,3) r, of "v\<lparr>sd_data_len := of_nat n\<rparr>" "Some a" max_size 0 t] assms(6) u(2) d
    by (auto simp: no_extra_def)
  moreover have "\<not> sb_len b + of_nat SD_HEADER > of_nat BUFFER_DATA_SZ"
    using limit_off [OF assms(3)] assms(3) by (simp add: word_less_nat_alt word_le_nat_alt BUFFER_LIMIT_def BUFFER_DATA_SZ_def SD_HEADER_def)
  moreover have "output_event env (Some a) False max_size False 0 b t ks =
      output_finish env (Some a) b1 (v\<lparr>sd_data_len := of_nat n\<rparr>) max_size 0 t ks"
    using c u(1) assms(3,4,5) by (simp add: output_event_def Let_def payload_reader_def not_less)
  ultimately show ?thesis
    using assms(1) by (simp add: output_data_common_5_2_def current_data_buf_def stream_step_frame)
qed

text \<open>When no output is under way on a CPU, the periodic push sends every event that was waiting there.\<close>

lemma push_delivers:
  assumes "check_pid_validity env" "ks_tracer ks (ke_cpu env) = Some t" "ks_stats ks = Some st"
    and "tc_push_buffer_refcnt t = 0" "ks_data_buf ks (ke_cpu env) = Some b" "sb_ok b"
  shows "sent_events (ke_cpu env) (push_socket_data env ks) = cpu_stream (ke_cpu env) ks \<and>
    (\<exists>b'. ks_data_buf (push_socket_data env ks) (ke_cpu env) = Some b' \<and> sb_events_num b' = 0)"
proof -
  have fit: "unat (sb_len b) \<le> BUFFER_DATA_SZ"
    using assms(6) by (simp add: sb_ok_def SD_HEADER_def BURST_DATA_BUF_SIZE_def BUFFER_DATA_SZ_def)
  have wf: "sb_wf b" using assms(6) by (simp add: sb_ok_def)
  show ?thesis
  proof (cases "sb_events_num b > 0")
    case True
    then show ?thesis
      using assms(1-5) decode_output [OF wf fit]
      by (simp add: push_socket_data_def Let_def current_data_buf_def current_tracer_def sent_events_output
          cpu_stream_def)
  next
    case False
    then have z: "sb_events_num b = 0" by (simp add: word_gt_0)
    then have "sb_events b = []" by (simp add: sb_events_def)
    then show ?thesis
      using assms(1-5) z
      by (simp add: push_socket_data_def Let_def current_data_buf_def current_tracer_def cpu_stream_def)
  qed
qed

end
