(* ===== verification/Data_Submit.thy ===== *)
theory Data_Submit
  imports Trace_Process Push_Stream
begin

text \<open>
  From an inferred message to an event: \<^verbatim>\<open>__data_submit\<close> of \<^verbatim>\<open>socket_trace.bpf.c\<close>, which keeps the socket map, asks
  the tracing component for the identifier of the thread's trace, prepares the header of the event at the end of the
  push buffer and, from 5.2 on, outputs it. The classes of inference (\<^verbatim>\<open>infer_l7_class_1\<close> to \<^verbatim>\<open>_3\<close>) and the
  programs that the builds before 5.2 chain by tail calls are here too.
\<close>

section \<open>Small pieces\<close>

datatype submit_result = SUBMIT_OK | SUBMIT_INVALID | SUBMIT_ABORT

datatype infer_act = INFER_FINISH | INFER_CONTINUE | INFER_TERMINATE

text \<open>A write of some bytes at the start of an array.\<close>

definition overwrite :: "u8 list \<Rightarrow> u8 list \<Rightarrow> u8 list" where
  "overwrite xs ys = ys @ drop (length ys) xs"

text \<open>\<^verbatim>\<open>port\<close> is the low half of the union with \<^verbatim>\<open>correlation_id\<close>; \<^verbatim>\<open>ipaddr\<close> shares the bytes of \<^verbatim>\<open>prev_data\<close>.\<close>

definition si_port :: "socket_info_s \<Rightarrow> u16" where
  "si_port s = ucast (si_correlation_id s)"

definition set_port :: "u16 \<Rightarrow> socket_info_s \<Rightarrow> socket_info_s" where
  "set_port p s = s\<lparr>si_correlation_id := push_bit 16 (drop_bit 16 (si_correlation_id s)) OR ucast p\<rparr>"

definition get_socket_info :: "kern_env \<Rightarrow> kern_state \<Rightarrow> conn_info_s \<Rightarrow> socket_data \<Rightarrow> socket_data option" where
  "get_socket_info env ks c v =
     (if ci_sk_type c = SOCK_UNIX then Some (v\<lparr>sd_addr_len := 0\<rparr>)
      else if ci_sk c = 0 then None
      else
        (case current_offset env ks of
           None \<Rightarrow> None
         | Some offset \<Rightarrow>
             (let rd = (\<lambda>off n. bytes_at (snd (ke_read_kernel env (ci_sk c + ucast off) n)) 0 n)
              in if ci_skc_family c = PF_INET
                 then Some (v\<lparr>sd_rcv_saddr := overwrite (sd_rcv_saddr v) (rd (mo_sock_saddr offset) 4),
                              sd_daddr := overwrite (sd_daddr v) (rd (mo_sock_daddr offset) 4),
                              sd_addr_len := 4\<rparr>)
                 else if ci_skc_family c = PF_INET6
                 then Some (v\<lparr>sd_rcv_saddr := overwrite (sd_rcv_saddr v) (rd (mo_sock_ip6saddr offset) 16),
                              sd_daddr := overwrite (sd_daddr v) (rd (mo_sock_ip6daddr offset) 16),
                              sd_addr_len := 16\<rparr>)
                 else None)))"

section \<open>Submitting data\<close>

text \<open>The entry for a socket seen for the first time; \<open>old\<close> is the entry it replaces, made by \<^verbatim>\<open>socket()\<close> or
  by a message that was only stored.\<close>

definition new_socket_info ::
    "kern_env \<Rightarrow> tracer_ctx_s \<Rightarrow> conn_info_s \<Rightarrow> data_args_t \<Rightarrow> u32 \<Rightarrow> u64 \<Rightarrow> process_data_extra \<Rightarrow> socket_info_s" where
  "new_socket_info env t c args syscall_len time_stamp extra =
     (let peer = (case ci_socket_info_ptr c of
                    Some s \<Rightarrow> if ci_direction c = T_EGRESS \<and> \<not> ci_no_trace c \<and> si_peer_fd s > 0
                              then si_peer_fd s else 0
                  | None \<Rightarrow> 0);
          reasm = is_proto_reasm_enabled env (ci_protocol c);
          s1 = sock_zero\<lparr>si_peer_fd := peer, si_no_trace := ci_no_trace c, si_uid := tc_socket_id t + 1,
                 si_l7_proto := ci_protocol c, si_is_tls := ci_protocol c = PROTO_TLS,
                 si_allow_reassembly := reasm,
                 si_reasm_bytes := (if reasm then min (tc_data_limit_max t) syscall_len else 0),
                 si_direction := ci_direction c, si_pre_direction := ci_direction c, si_role := ci_role c,
                 si_data_source := ex_source extra, si_update_time := ucast (time_stamp div NS_PER_SEC),
                 si_need_reconfirm := ci_need_reconfirm c, si_correlation_id := ci_correlation_id c\<rparr>;
          s2 = (if tp_l4_protocol (ci_tuple c) = IPPROTO_UDP then
                  (let s = (if da_port args > 0
                            then set_port (da_port args)
                                   (s1\<lparr>si_prev_data := write_at (si_prev_data s1) 0 (da_addr args) 16,
                                       si_udp_pre_set_addr := True\<rparr>)
                            else s1)
                   in if da_extra_iovlen args > 0 then s\<lparr>si_seq := 1\<rparr> else s)
                else s1)
      in if ci_message_type c = MSG_PRESTORE
         then s2\<lparr>si_prev_data := write_at (si_prev_data s2) 0 (ci_prev_buf c) 16,
                 si_prev_data_len := ci_prev_count c, si_uid := 0\<rparr>
         else s2)"

definition add_socket_info :: "kern_env \<Rightarrow> u64 \<Rightarrow> conn_info_s \<Rightarrow> socket_info_s \<Rightarrow> kern_state \<Rightarrow> kern_state" where
  "add_socket_info env conn_key c sk_info ks =
     (let ks1 = upd_tracer env (\<lambda>t. t\<lparr>tc_socket_id := tc_socket_id t + 1\<rparr>) ks;
          (ret, m) = map_update (ke_map_full env M_socket_info) (ks_socket_info ks1) conn_key sk_info;
          ks2 = ks1\<lparr>ks_socket_info := m\<rparr>
      in if ci_socket_info_ptr c = None \<and> ret = 0
         then upd_stats (\<lambda>st. st\<lparr>ts_socket_map_count := ts_socket_map_count st + 1\<rparr>) ks2
         else ks2)"

text \<open>The update of the entry \<open>s\<close> of a known socket, with the number of bytes to push for reassembly.\<close>

definition touch_socket ::
    "tracer_ctx_s \<Rightarrow> conn_info_s \<Rightarrow> u32 \<Rightarrow> u64 \<Rightarrow> process_data_extra \<Rightarrow> socket_info_s \<Rightarrow> u32 \<times> socket_info_s" where
  "touch_socket t c syscall_len time_stamp extra s =
     (let s1 = (if si_l7_proto s = PROTO_TLS \<or> si_l7_proto s = PROTO_UNKNOWN
                then s\<lparr>si_l7_proto := ci_protocol c, si_data_source := ex_source extra\<rparr> else s);
          s2 = s1\<lparr>si_seq := si_seq s1 + 1, si_direction := ci_direction c,
                  si_update_time := ucast (time_stamp div NS_PER_SEC)\<rparr>;
          s3 = (if ci_direction c = T_EGRESS \<and> si_trace_id s2 \<noteq> 0 then s2\<lparr>si_trace_id := 0\<rparr> else s2);
          s4 = (if \<not> ci_is_reasm_seg c then s3\<lparr>si_reasm_bytes := 0, si_finish_reasm := False\<rparr> else s3);
          data_max_sz = tc_data_limit_max t
      in if si_allow_reassembly s4 \<and> si_reasm_bytes s4 < data_max_sz
         then (let send = min (data_max_sz - si_reasm_bytes s4) syscall_len
               in (send, s4\<lparr>si_reasm_bytes := si_reasm_bytes s4 + send\<rparr>))
         else (0, s4))"

text \<open>NGINX: a response from the backend hands its trace to the frontend socket.\<close>

definition pass_trace_to_peer :: "u32 \<Rightarrow> conn_info_s \<Rightarrow> socket_info_s \<Rightarrow> u64 \<Rightarrow> kern_state \<Rightarrow> kern_state" where
  "pass_trace_to_peer tgid c s thread_trace_id ks =
     (if si_peer_fd s \<noteq> 0 \<and> ci_direction c = T_INGRESS then
        (let key = gen_conn_key_id (ucast tgid) (ucast (si_peer_fd s))
         in if is_socket_info_valid (ks_socket_info ks key)
            then upd_socket key (\<lambda>p. p\<lparr>si_trace_id := thread_trace_id\<rparr>) ks else ks)
      else ks)"

definition set_peer_address :: "conn_info_s \<Rightarrow> data_args_t \<Rightarrow> socket_data \<Rightarrow> socket_data" where
  "set_peer_address c args v =
     (if tp_l4_protocol (ci_tuple c) = IPPROTO_UDP \<and> da_port args > 0 then
        (if ci_skc_family c = PF_INET
         then v\<lparr>sd_daddr := overwrite (sd_daddr v) (bytes_at (da_addr args) 0 4), sd_addr_len := 4\<rparr>
         else if ci_skc_family c = PF_INET6 then
           (if ld_u64 (da_addr args) 0 = 0 \<and> ld_u32 (da_addr args) 8 = 0xffff0000
            then v\<lparr>sd_daddr := overwrite (sd_daddr v) (bytes_at (da_addr args) 12 4), sd_addr_len := 4\<rparr>
            else v\<lparr>sd_daddr := overwrite (sd_daddr v) (bytes_at (da_addr args) 0 16), sd_addr_len := 16\<rparr>)
         else v)
      else v)"

text \<open>The sequence number and the bytes kept from an earlier read.\<close>

definition set_tcp_seq ::
    "conn_info_s \<Rightarrow> data_args_t \<Rightarrow> process_data_extra \<Rightarrow> socket_data \<Rightarrow> socket_data" where
  "set_tcp_seq c args extra v =
     (let tcp = (tp_l4_protocol (ci_tuple c) = IPPROTO_TCP);
          seq = (if ex_source extra = DATA_SOURCE_GO_TLS_UPROBE \<or> ex_source extra = DATA_SOURCE_OPENSSL_UPROBE \<or> tcp
                 then da_tcp_seq args else 0);
          split_dns = (tcp \<and> ci_protocol c = PROTO_DNS \<and> ci_prev_count c = 2);
          seq1 = (if split_dns then seq - 2 else seq);
          prev_count = (if split_dns then 0 else ci_prev_count c)
      in if prev_count > 0
         then v\<lparr>sd_extra_data := bytes_at (ci_prev_buf c) 0 16, sd_extra_data_count := prev_count,
                sd_tcp_seq := seq1 - prev_count\<rparr>
         else v\<lparr>sd_extra_data_count := 0, sd_tcp_seq := seq1\<rparr>)"

definition fill_header ::
    "kern_env \<Rightarrow> kern_state \<Rightarrow> conn_info_s \<Rightarrow> data_args_t \<Rightarrow> u32 \<Rightarrow> u64 \<Rightarrow> process_data_extra
      \<Rightarrow> u64 \<Rightarrow> bool \<Rightarrow> u64 \<Rightarrow> u64 \<Rightarrow> u64 \<Rightarrow> socket_data \<Rightarrow> socket_data" where
  "fill_header env ks c args syscall_len time_stamp extra uid allow_reassembly seq thread_trace_id goid v =
     (let pid_tgid = ke_pid_tgid env;
          tgid = ucast (drop_bit 32 pid_tgid) :: u32;
          role = ks_socket_role ks (gen_conn_key_id (drop_bit 32 pid_tgid) (ucast (ci_fd c)));
          v1 = v\<lparr>sd_l4_protocol := tp_l4_protocol (ci_tuple c), sd_dport := tp_dport (ci_tuple c),
                 sd_num := tp_num (ci_tuple c), sd_data_type := proto_num (ci_protocol c)\<rparr>;
          v2 = set_peer_address c args v1;
          v3 = v2\<lparr>sd_socket_role := (case role of Some r \<Rightarrow> ucast r | None \<Rightarrow> 0), sd_socket_id := uid,
                  sd_data_seq := seq, sd_tgid := tgid, sd_is_tls := False, sd_pid := ucast pid_tgid,
                  sd_fd := da_fd args,
                  sd_timestamp := (if ci_direction c = T_INGRESS then ke_ktime env KT_ingress else time_stamp),
                  sd_cap_timestamp := ke_ktime env KT_capture, sd_direction := (ci_direction c = T_INGRESS),
                  sd_syscall_len := ucast syscall_len,
                  sd_msg_type := msg_num (if allow_reassembly
                                          then (if ci_is_reasm_seg c then MSG_REASM_SEG else MSG_REASM_START)
                                          else MSG_COMMON),
                  sd_thread_trace_id := thread_trace_id, sd_comm := bytes_at (snd (ke_comm env)) 0 16\<rparr>;
          v4 = set_tcp_seq c args extra v3
      in v4\<lparr>sd_coroutine_id := goid,
            sd_source := source_num (if ci_sk_type c = SOCK_UNIX then DATA_SOURCE_UNIX_SOCKET else ex_source extra)\<rparr>)"

definition upd_infer_cache :: "kern_env \<Rightarrow> traffic_protocol \<Rightarrow> kern_state \<Rightarrow> kern_state" where
  "upd_infer_cache env protocol ks =
     (let pid = ucast (ke_pid_tgid env) :: u32;
          cache_key = drop_bit 16 pid
      in ks\<lparr>ks_infer_cache := (ks_infer_cache ks)
               (cache_key := map_option (\<lambda>p. p(ucast pid := protocol)) (ks_infer_cache ks cache_key))\<rparr>)"

text \<open>The events of a program before 5.2 keep their context beside the prepared header.\<close>

definition output_context :: "u32 \<Rightarrow> u32 \<Rightarrow> bool \<Rightarrow> bool \<Rightarrow> traffic_direction \<Rightarrow> tail_calls_context \<Rightarrow> tail_calls_context" where
  "output_context max_size reasm vecs is_close dir ctx =
     ctx\<lparr>tl_max_size_limit := max_size, tl_push_reassembly_bytes := reasm, tl_vecs := vecs, tl_is_close := is_close,
         tl_dir := dir\<rparr>"

text \<open>What the socket contributes to the event: its identifier, whether it is reassembled, the sequence number of the
  event, the bytes to push and the trace. \<open>sk_info\<close> is the entry just made for a new socket.\<close>

definition socket_update ::
    "kern_env \<Rightarrow> tracer_ctx_s \<Rightarrow> conn_info_s \<Rightarrow> u32 \<Rightarrow> u64 \<Rightarrow> process_data_extra \<Rightarrow> socket_info_s \<Rightarrow> u64 \<Rightarrow> kern_state
      \<Rightarrow> u64 \<times> bool \<times> u64 \<times> u32 \<times> u64 \<times> kern_state" where
  "socket_update env t c syscall_len time_stamp extra sk_info thread_trace_id ks =
     (let tgid = ucast (drop_bit 32 (ke_pid_tgid env)) :: u32;
          conn_key = gen_conn_key_id (drop_bit 32 (ke_pid_tgid env)) (ucast (ci_fd c));
          fresh = (si_uid sk_info, si_allow_reassembly sk_info, 0, 0, thread_trace_id, ks)
      in case ci_socket_info_ptr c of
           None \<Rightarrow> fresh
         | Some s \<Rightarrow>
             if \<not> is_socket_info_valid (Some s) then fresh
             else
               (case touch_socket t c syscall_len time_stamp extra s of
                  (send, s') \<Rightarrow>
                    (si_uid s, si_allow_reassembly s, si_seq s', send,
                     (if ci_direction c = T_EGRESS \<and> si_trace_id s \<noteq> 0 then si_trace_id s else thread_trace_id),
                     pass_trace_to_peer tgid c s thread_trace_id (upd_socket conn_key (\<lambda>_. s') ks))))"

text \<open>The part of \<^verbatim>\<open>__data_submit\<close> that works on the push buffer. The reference count is raised before the checks
  and lowered again when one of them fails.\<close>

definition submit_event ::
    "kern_env \<Rightarrow> tracer_ctx_s \<Rightarrow> conn_info_s \<Rightarrow> data_args_t \<Rightarrow> bool \<Rightarrow> u32 \<Rightarrow> u64 \<Rightarrow> process_data_extra
      \<Rightarrow> socket_info_s \<Rightarrow> u64 \<Rightarrow> u64 \<Rightarrow> kern_state \<Rightarrow> submit_result \<times> kern_state" where
  "submit_event env t c args vecs syscall_len time_stamp extra sk_info thread_trace_id goid ks =
     (case current_data_buf env ks of
        None \<Rightarrow> (SUBMIT_INVALID, ks)
      | Some v_buff \<Rightarrow>
          if sb_len v_buff > BUFFER_LIMIT then (SUBMIT_INVALID, ks)
          else
            (case get_socket_info env ks c (sd_load (sb_data v_buff) (unat (sb_len v_buff))) of
               None \<Rightarrow> (SUBMIT_INVALID, ks)
             | Some v \<Rightarrow>
                 (let (uid, allow, seq, send, trace_id, ks1) =
                        socket_update env t c syscall_len time_stamp extra sk_info thread_trace_id ks;
                      send1 = (if allow \<and> \<not> ci_is_reasm_seg c then 0 else send);
                      v1 = fill_header env ks1 c args syscall_len time_stamp extra uid allow seq trace_id goid v;
                      b1 = v_buff\<lparr>sb_data := sd_store (sb_data v_buff) (unat (sb_len v_buff)) v1\<rparr>;
                      ks2 = upd_refcnt env 1 ks1
                  in if ke_ver_5_2_plus env
                     then (SUBMIT_OK,
                           output_data_common_5_2 env (Some args) vecs (tc_data_limit_max t) False send1 t
                             (upd_infer_cache env (ci_protocol c) (set_data_buf env b1 ks2)))
                     else (SUBMIT_OK,
                           set_data_buf env
                             (b1\<lparr>sb_context := output_context (tc_data_limit_max t) send1 vecs False (ci_direction c)
                                                (sb_context b1)\<rparr>) ks2))))"

definition DNS_AAAA_TYPE_ID :: u16 where "DNS_AAAA_TYPE_ID = 0x1c"

text \<open>The trace key and the trace of the thread. From 5.2 on no key is made for a socket that is not traced.\<close>

definition submit_trace ::
    "kern_env \<Rightarrow> tracer_ctx_s \<Rightarrow> conn_info_s \<Rightarrow> u64 \<Rightarrow> process_data_extra \<Rightarrow> kern_state \<Rightarrow> u64 \<times> u64 \<times> kern_state" where
  "submit_trace env t c time_stamp extra ks =
     (let sock = ci_socket_info_ptr c;
          no_key = (ke_ver_5_2_plus env \<and> ci_no_trace c);
          (trace_key, ks1) =
            (if no_key then (\<lparr>tk_tgid = 0, tk_pid = 0, tk_goid = 0\<rparr>, ks)
             else get_trace_key env (ucast (tc_go_tracing_timeout t)) True ks);
          trace_info_ptr = (if no_key then None else ks_trace ks1 trace_key);
          socket_id = (case sock of
                         Some s \<Rightarrow> if is_socket_info_valid sock then si_uid s else tc_socket_id t + 1
                       | None \<Rightarrow> tc_socket_id t + 1);
          (trace_id, ks2) =
            (if ci_message_type c \<noteq> MSG_PRESTORE \<and> ci_message_type c \<noteq> MSG_RECONFIRM \<and> \<not> ci_no_trace c \<and>
                (tc_go_tracing_timeout t \<noteq> 0 \<or> \<not> ex_is_go_process extra) \<and>
                \<not> (ci_protocol c = PROTO_DNS \<and> ci_dns_q_type c = DNS_AAAA_TYPE_ID)
             then trace_process env sock c socket_id trace_info_ptr t time_stamp trace_key ks1
             else (0, ks1))
      in (tk_goid trace_key, trace_id, ks2))"

text \<open>The entry of a socket that is not known yet. A backend socket of NGINX takes the trace prepared by \<^verbatim>\<open>socket()\<close>.\<close>

definition submit_register ::
    "kern_env \<Rightarrow> tracer_ctx_s \<Rightarrow> conn_info_s \<Rightarrow> data_args_t \<Rightarrow> u32 \<Rightarrow> u64 \<Rightarrow> process_data_extra \<Rightarrow> u64 \<Rightarrow> kern_state
      \<Rightarrow> u64 \<times> kern_state" where
  "submit_register env t c args syscall_len time_stamp extra trace_id ks =
     (let sock = ci_socket_info_ptr c;
          conn_key = gen_conn_key_id (drop_bit 32 (ke_pid_tgid env)) (ucast (ci_fd c))
      in if is_socket_info_valid sock then (trace_id, ks)
         else
           ((case sock of
               Some s \<Rightarrow> if ci_direction c = T_EGRESS \<and> \<not> ci_no_trace c \<and> si_peer_fd s > 0
                         then si_trace_id s else trace_id
             | None \<Rightarrow> trace_id),
            add_socket_info env conn_key c (new_socket_info env t c args syscall_len time_stamp extra) ks))"

definition data_submit_common ::
    "kern_env \<Rightarrow> conn_info_s \<Rightarrow> data_args_t \<Rightarrow> bool \<Rightarrow> u32 \<Rightarrow> u64 \<Rightarrow> process_data_extra \<Rightarrow> kern_state
      \<Rightarrow> submit_result \<times> kern_state" where
  "data_submit_common env c0 args vecs syscall_len time_stamp extra ks =
     (if ci_sk c0 = 0 \<or> ci_message_type c0 = MSG_UNKNOWN then (SUBMIT_INVALID, ks)
      else
        (case current_tracer env ks of
           None \<Rightarrow> (SUBMIT_INVALID, ks)
         | Some t \<Rightarrow>
             if ci_message_type c0 = MSG_CLEAR
             then (SUBMIT_INVALID,
                   delete_socket_info (gen_conn_key_id (drop_bit 32 (ke_pid_tgid env)) (ucast (ci_fd c0)))
                     (ci_socket_info_ptr c0) ks)
             else if ks_stats ks = None then (SUBMIT_INVALID, ks)
             else
               (let c = (if tc_disable_tracing t then c0\<lparr>ci_no_trace := True\<rparr> else c0);
                    (goid, trace_id, ks1) = submit_trace env t c time_stamp extra ks;
                    (trace_id1, ks2) = submit_register env t c args syscall_len time_stamp extra trace_id ks1
                in if ci_message_type c = MSG_PRESTORE \<or> ci_message_type c = MSG_RECONFIRM then (SUBMIT_INVALID, ks2)
                   else submit_event env t c args vecs syscall_len time_stamp extra
                          (new_socket_info env t c args syscall_len time_stamp extra) trace_id1 goid ks2)))"

section \<open>Inference and submission as programs\<close>

text \<open>Inference works on the connection, on the socket's entry through the pointer in it, and on the map of HTTP/2
  sequence numbers: its results go back to the maps.\<close>

definition store_inference :: "kern_env \<Rightarrow> conn_info_s \<Rightarrow> http2_seq_map \<Rightarrow> kern_state \<Rightarrow> kern_state" where
  "store_inference env c q ks =
     (let key = gen_conn_key_id (drop_bit 32 (ke_pid_tgid env)) (ucast (ci_fd c));
          ks1 = (case ci_socket_info_ptr c of None \<Rightarrow> ks | Some s \<Rightarrow> upd_socket key (\<lambda>_. s) ks)
      in ks1\<lparr>ks_http2_seq := q\<rparr>)"

definition infer_l7_class_1 ::
    "kern_env \<Rightarrow> data_args_t \<Rightarrow> u64 \<Rightarrow> process_data_extra \<Rightarrow> tail_calls_context \<Rightarrow> conn_info_s \<Rightarrow> kern_state
      \<Rightarrow> infer_act \<times> tail_calls_context \<times> conn_info_s \<times> kern_state" where
  "infer_l7_class_1 env args count extra ctx c ks =
     (case infer_protocol_1 (infer_env env ks) args (tl_infer_buf ctx) count extra (c, ks_http2_seq ks) of
        (m, err_code, ib, c1, q) \<Rightarrow>
          (let ctx1 = ctx\<lparr>tl_infer_buf := ib\<rparr>;
               ks1 = store_inference env c1 q (set_ctx_info env ctx1 ks)
           in if err_code = -1 then (INFER_TERMINATE, ctx1, c1, ks1)
              else if pm_protocol m = PROTO_UNKNOWN \<and> pm_type m = MSG_UNKNOWN
              then (INFER_CONTINUE, ctx1, c1\<lparr>ci_protocol := PROTO_UNKNOWN\<rparr>, ks1)
              else (INFER_FINISH, ctx1, c1\<lparr>ci_protocol := pm_protocol m, ci_message_type := pm_type m\<rparr>, ks1)))"

definition infer_l7_class_2 ::
    "kern_env \<Rightarrow> tail_calls_context \<Rightarrow> conn_info_s \<Rightarrow> kern_state \<Rightarrow> infer_act \<times> conn_info_s \<times> kern_state" where
  "infer_l7_class_2 env ctx c ks =
     (case infer_protocol_2 (infer_env env ks) (id_data (tl_infer_buf ctx)) (ucast (ci_count c)) (c, ks_http2_seq ks) of
        (m, c1, q) \<Rightarrow>
          (let ks1 = store_inference env c1 q ks
           in if pm_protocol m = PROTO_UNKNOWN \<and> pm_type m = MSG_UNKNOWN
              then (INFER_CONTINUE, c1\<lparr>ci_protocol := PROTO_UNKNOWN\<rparr>, ks1)
              else (INFER_FINISH, c1\<lparr>ci_protocol := pm_protocol m, ci_message_type := pm_type m\<rparr>, ks1)))"

definition infer_l7_class_3 ::
    "kern_env \<Rightarrow> tail_calls_context \<Rightarrow> conn_info_s \<Rightarrow> kern_state \<Rightarrow> infer_act \<times> conn_info_s \<times> kern_state" where
  "infer_l7_class_3 env ctx c ks =
     (case infer_protocol_3 (infer_env env ks) (id_data (tl_infer_buf ctx)) (ucast (ci_count c)) (c, ks_http2_seq ks) of
        (m, c1, q) \<Rightarrow>
          (let ks1 = store_inference env c1 q ks
           in if pm_protocol m = PROTO_UNKNOWN \<and> pm_type m = MSG_UNKNOWN
              then (INFER_TERMINATE, c1\<lparr>ci_protocol := PROTO_UNKNOWN\<rparr>, ks1)
              else (INFER_FINISH, c1\<lparr>ci_protocol := pm_protocol m, ci_message_type := pm_type m\<rparr>, ks1)))"

text \<open>The programs that follow by tail calls take the connection from the context and look its socket up again.\<close>

definition resume_conn :: "kern_env \<Rightarrow> tail_calls_context \<Rightarrow> kern_state \<Rightarrow> conn_info_s" where
  "resume_conn env ctx ks =
     (let c = tl_conn_info ctx
      in c\<lparr>ci_socket_info_ptr :=
              ks_socket_info ks (gen_conn_key_id (drop_bit 32 (ke_pid_tgid env)) (ucast (ci_fd c)))\<rparr>)"

definition is_message :: "conn_info_s \<Rightarrow> bool" where
  "is_message c \<longleftrightarrow> ci_protocol c \<noteq> PROTO_UNKNOWN \<or> ci_message_type c \<noteq> MSG_UNKNOWN"

definition del_args :: "kern_env \<Rightarrow> kern_state \<Rightarrow> kern_state" where
  "del_args env ks = del_write_args (ke_pid_tgid env) (del_read_args (ke_pid_tgid env) ks)"

definition del_dir_args :: "kern_env \<Rightarrow> traffic_direction \<Rightarrow> kern_state \<Rightarrow> kern_state" where
  "del_dir_args env dir ks =
     (if dir = T_INGRESS then del_read_args (ke_pid_tgid env) ks else del_write_args (ke_pid_tgid env) ks)"

definition proto_infer_2 :: "kern_env \<Rightarrow> kern_state \<Rightarrow> infer_act \<times> kern_state" where
  "proto_infer_2 env ks =
     (case ks_ctx_info ks (ke_cpu env) of
        None \<Rightarrow> (INFER_TERMINATE, del_args env ks)
      | Some ctx \<Rightarrow>
          (case infer_l7_class_2 env ctx (resume_conn env ctx ks) ks of
             (act, c, ks1) \<Rightarrow>
               if act = INFER_CONTINUE then (INFER_CONTINUE, set_ctx_info env (ctx\<lparr>tl_conn_info := c\<rparr>) ks1)
               else if is_message c then (INFER_FINISH, set_ctx_info env (ctx\<lparr>tl_conn_info := c\<rparr>) ks1)
               else (INFER_TERMINATE, del_args env ks1)))"

definition proto_infer_3 :: "kern_env \<Rightarrow> kern_state \<Rightarrow> infer_act \<times> kern_state" where
  "proto_infer_3 env ks =
     (case ks_ctx_info ks (ke_cpu env) of
        None \<Rightarrow> (INFER_TERMINATE, del_args env ks)
      | Some ctx \<Rightarrow>
          (case infer_l7_class_3 env ctx (resume_conn env ctx ks) ks of
             (act, c, ks1) \<Rightarrow>
               if act \<noteq> INFER_FINISH then (INFER_TERMINATE, del_dir_args env (tl_dir ctx) ks1)
               else if is_message c then (INFER_FINISH, set_ctx_info env (ctx\<lparr>tl_conn_info := c\<rparr>) ks1)
               else (INFER_TERMINATE, del_dir_args env (tl_dir ctx) ks1)))"

definition data_submit :: "kern_env \<Rightarrow> kern_state \<Rightarrow> submit_result \<times> kern_state" where
  "data_submit env ks =
     (case ks_ctx_info ks (ke_cpu env) of
        None \<Rightarrow> (SUBMIT_ABORT, ks)
      | Some ctx \<Rightarrow>
          (let c = resume_conn env ctx ks
           in case (if ci_direction c = T_INGRESS then ks_read_args ks (ke_pid_tgid env)
                    else ks_write_args ks (ke_pid_tgid env)) of
                None \<Rightarrow> (SUBMIT_ABORT, ks)
              | Some args \<Rightarrow>
                  data_submit_common env c args (ex_vecs (tl_extra ctx)) (tl_bytes_count ctx) (da_enter_ts args)
                    (tl_extra ctx) ks))"

end
