(* ===== verification/Files_Rw.thy ===== *)
theory Files_Rw
  imports Trace_Process Push_Stream
begin

text \<open>
  File events, \<^verbatim>\<open>files_rw.bpf.c\<close>: a read or write of a regular file by a traced thread is reported with its
  latency, the position in the file, the mount and the path, which is collected by walking from the directory entry
  of the file to the root.
\<close>

section \<open>Files\<close>

datatype file_type = FILE_TYPE_ERROR | FILE_TYPE_REGULAR | FILE_TYPE_VIRTUAL

definition fd_to_file :: "kern_env \<Rightarrow> u32 \<Rightarrow> member_fields_offset option \<Rightarrow> u64" where
  "fd_to_file env fd_num offset =
     (case offset of
        None \<Rightarrow> 0
      | Some off \<Rightarrow> get_socket_file_addr_with_check env (ke_current_task env) fd_num (mo_task_files off)
                     (ucast (mo_files_struct_fdt off)))"

definition file_to_i_mode :: "kern_env \<Rightarrow> u64 \<Rightarrow> member_fields_offset \<Rightarrow> u32" where
  "file_to_i_mode env file offset =
     (if file = 0 then 0
      else
        (let f_inode = rk_u64 env (file + ucast (mo_file_f_inode offset))
         in if f_inode = 0 then 0 else rk_u32 env (f_inode + ucast (mo_inode_i_mode offset))))"

definition S_ISREG :: "u32 \<Rightarrow> bool" where
  "S_ISREG m \<longleftrightarrow> m AND 0xF000 = 0x8000"

definition check_file_type :: "kern_env \<Rightarrow> u64 \<Rightarrow> member_fields_offset option \<Rightarrow> file_type" where
  "check_file_type env file offset =
     (case offset of
        None \<Rightarrow> FILE_TYPE_ERROR
      | Some off \<Rightarrow>
          if file = 0 then FILE_TYPE_ERROR
          else
            (let f_op = rk_u64 env (file + ucast (mo_file_f_op off))
             in if f_op = 0 then FILE_TYPE_ERROR
                else if rk_u64 env (f_op + ucast (mo_file_operations_read_iter off)) = 0 then FILE_TYPE_VIRTUAL
                else FILE_TYPE_REGULAR))"

text \<open>An offset that is \<^verbatim>\<open>NULL\<close> is looked up in the map.\<close>

definition offset_or_lookup :: "kern_env \<Rightarrow> kern_state \<Rightarrow> member_fields_offset option \<Rightarrow> member_fields_offset option" where
  "offset_or_lookup env ks off_ptr = (case off_ptr of Some off \<Rightarrow> Some off | None \<Rightarrow> current_offset env ks)"

definition is_readable_file :: "kern_env \<Rightarrow> kern_state \<Rightarrow> u32 \<Rightarrow> bool \<Rightarrow> member_fields_offset option \<Rightarrow> bool" where
  "is_readable_file env ks fd disable_vfile_collect off_ptr =
     (let offset = offset_or_lookup env ks off_ptr;
          file = fd_to_file env fd offset
      in case offset of
           None \<Rightarrow> False
         | Some off \<Rightarrow>
             file \<noteq> 0 \<and> \<not> (disable_vfile_collect \<and> check_file_type env file offset \<noteq> FILE_TYPE_REGULAR) \<and>
             S_ISREG (file_to_i_mode env file off))"

section \<open>Mounts\<close>

definition INVALID_OFFSET :: u16 where "INVALID_OFFSET = 0xFFFF"

definition get_mount_ptr :: "kern_env \<Rightarrow> u64 \<Rightarrow> member_fields_offset \<Rightarrow> u64" where
  "get_mount_ptr env file off =
     (let vfsmount = rk_u64 env (file + ucast (mo_file_f_path off) + ucast (mo_path_mnt off))
      in if vfsmount = 0 then 0 else vfsmount - ucast (mo_mount_mnt off))"

text \<open>\<^verbatim>\<open>struct __io_event_buffer\<close> is packed: \<^verbatim>\<open>bytes_count\<close> at 0, \<^verbatim>\<open>operation\<close> at 4, \<^verbatim>\<open>latency\<close> at 8, \<^verbatim>\<open>offset\<close> at
  16, \<^verbatim>\<open>mnt_id\<close> at 24, \<^verbatim>\<open>mntns_id\<close> at 28, \<^verbatim>\<open>len\<close> at 32 and \<^verbatim>\<open>filename\<close> at 36.\<close>

definition FILE_PATH_SZ :: nat where "FILE_PATH_SZ = 512"
definition DENTRY_NAME_SIZE :: nat where "DENTRY_NAME_SIZE = 256"
definition IO_FILENAME :: nat where "IO_FILENAME = 36"
definition IO_EVENT_BUFFER_SZ :: nat where "IO_EVENT_BUFFER_SZ = IO_FILENAME + FILE_PATH_SZ"
definition MAX_DIRECTORY_DEPTH :: nat where "MAX_DIRECTORY_DEPTH = 18"

definition get_mount_ids :: "kern_env \<Rightarrow> u64 \<Rightarrow> member_fields_offset \<Rightarrow> buf \<Rightarrow> buf" where
  "get_mount_ids env file off buffer =
     (let b1 = st_bytes (st_bytes buffer 28 (le32 0)) 24 (le32 (-1));
          mount = get_mount_ptr env file off
      in if mount = 0 then b1
         else
           (let b2 = (if mo_mount_mnt_id off \<noteq> INVALID_OFFSET
                      then st_bytes b1 24 (le32 (rk_u32 env (mount + ucast (mo_mount_mnt_id off)))) else b1)
            in if mo_mount_mnt_ns off = INVALID_OFFSET then b2
               else
                 (let mnt_ns = rk_u64 env (mount + ucast (mo_mount_mnt_ns off))
                  in if mnt_ns = 0 then b2
                     else st_bytes b2 28 (le32 (rk_u32 env (mnt_ns + ucast (mo_mnt_namespace_ns off) +
                                                              ucast (mo_ns_common_inum off)))))))"

definition mnt_id_offsets :: "u16 list" where "mnt_id_offsets = [0x10c, 0x114, 0x11c, 0x124]"
definition mnt_ns_offsets :: "u16 list" where "mnt_ns_offsets = [0xe0, 0xe8]"

definition mount_offsets_invalid :: "member_fields_offset \<Rightarrow> member_fields_offset" where
  "mount_offsets_invalid off =
     off\<lparr>mo_mount_mnt_id := INVALID_OFFSET, mo_mount_mnt_ns := INVALID_OFFSET,
         mo_mnt_namespace_ns := INVALID_OFFSET, mo_files_infer_done := True\<rparr>"

fun infer_mnt_ns :: "u16 list \<Rightarrow> kern_env \<Rightarrow> u64 \<Rightarrow> member_fields_offset \<Rightarrow> int \<times> member_fields_offset" where
  "infer_mnt_ns [] env mount off = (-1, off\<lparr>mo_files_infer_done := True\<rparr>)"
| "infer_mnt_ns (o1 # os) env mount off =
     (let mnt_ns = rk_u64 env (mount + ucast o1);
          found = (\<lambda>ns. (0, off\<lparr>mo_mount_mnt_ns := o1, mo_mnt_namespace_ns := ns, mo_files_infer_done := True\<rparr>))
      in if mnt_ns = 0 then infer_mnt_ns os env mount off
         else if rk_u32 env (mnt_ns + ucast (mo_ns_common_inum off)) = ke_adapt_mntns_id env then found 0
         else if rk_u32 env (mnt_ns + 8 + ucast (mo_ns_common_inum off)) = ke_adapt_mntns_id env then found 8
         else infer_mnt_ns os env mount off)"

definition infer_mount_offset :: "kern_env \<Rightarrow> u32 \<Rightarrow> member_fields_offset \<Rightarrow> int \<times> member_fields_offset" where
  "infer_mount_offset env fd off =
     (if mo_files_infer_done off then (0, off)
      else
        (case ke_adapt_id env of
           None \<Rightarrow> (-1, mount_offsets_invalid off)
         | Some adapt_id \<Rightarrow>
             if adapt_id \<noteq> ke_pid_tgid env then (-1, off)
             else
               (let file = fd_to_file env fd (Some off);
                    mount = get_mount_ptr env file off
                in if file = 0 \<or> mount = 0 then (-1, mount_offsets_invalid off)
                   else
                     (let off1 = off\<lparr>mo_mount_mnt_id :=
                                  (case find (\<lambda>o1. rk_u32 env (mount + ucast o1) = ke_adapt_mnt_id env) mnt_id_offsets of
                                     Some o1 \<Rightarrow> o1 | None \<Rightarrow> INVALID_OFFSET),
                                 mo_mount_mnt_ns := INVALID_OFFSET, mo_mnt_namespace_ns := INVALID_OFFSET\<rparr>
                      in infer_mnt_ns mnt_ns_offsets env mount off1))))"

section \<open>The path\<close>

text \<open>The names of the entries from the file up, each with its terminating zero. The string helper returns the
  number of bytes with the zero, or a negative code after clearing the destination; the sum is a \<^verbatim>\<open>__u32\<close>.\<close>

fun dentry_walk :: "nat \<Rightarrow> kern_env \<Rightarrow> member_fields_offset \<Rightarrow> u64 \<Rightarrow> u32 \<Rightarrow> buf \<Rightarrow> u32 \<times> buf" where
  "dentry_walk 0 env off dentry len b = (len, b)"
| "dentry_walk (Suc k) env off dentry len b =
     (if unat len + DENTRY_NAME_SIZE > FILE_PATH_SZ then (len, b)
      else
        (let name = rk_u64 env (dentry + ucast (mo_dentry_name off));
             (ret, bytes) = ke_read_kernel_str env name DENTRY_NAME_SIZE;
             b1 = write_at b (IO_FILENAME + unat len) bytes (if ret < 0 then DENTRY_NAME_SIZE else nat ret);
             len1 = len + of_int ret;
             parent = rk_u64 env (dentry + ucast (mo_dentry_d_parent off))
         in if parent = dentry \<or> parent = 0 then (len1, b1) else dentry_walk k env off parent len1 b1))"

definition set_file_metric_data ::
    "kern_env \<Rightarrow> kern_state \<Rightarrow> u32 \<Rightarrow> member_fields_offset option \<Rightarrow> buf \<times> socket_data \<Rightarrow> buf \<times> socket_data" where
  "set_file_metric_data env ks fd off_ptr bv =
     (case bv of (buffer, v) \<Rightarrow>
        (let offset = offset_or_lookup env ks off_ptr;
             file = fd_to_file env fd offset
         in case offset of
              None \<Rightarrow> (buffer, v)
            | Some off \<Rightarrow>
                if file = 0 then (buffer, v)
                else
                  (let f_inode = rk_u64 env (file + ucast (mo_file_f_inode off))
                   in if f_inode = 0 then (buffer, v)
                      else
                        (let i_sb = rk_u64 env (f_inode + ucast (mo_inode_i_sb off))
                         in if i_sb = 0 then (buffer, v)
                            else
                              (let v1 = v\<lparr>sd_tcp_seq := rk_u32 env (i_sb + ucast (mo_super_block_s_dev off))\<rparr>;
                                   b1 = st_bytes buffer 16 (le64 (rk_u64 env (file + ucast (mo_file_f_pos off))));
                                   dentry = rk_u64 env (file + ucast (mo_file_dentry off));
                                   b2 = get_mount_ids env file off b1;
                                   (len, b3) = dentry_walk MAX_DIRECTORY_DEPTH env off dentry 0 b2
                               in (st_bytes b3 32 (le32 len), v1))))))"

section \<open>The event\<close>

definition TIME_ROLLBACK_DEFAULT_LATENCY_NS :: u64 where "TIME_ROLLBACK_DEFAULT_LATENCY_NS = 50000"

definition set_io_buffer :: "kern_env \<Rightarrow> buf \<Rightarrow> kern_state \<Rightarrow> kern_state" where
  "set_io_buffer env b ks = ks\<lparr>ks_io_buffer := (ks_io_buffer ks)(ke_cpu env \<mapsto> b)\<rparr>"

definition io_latency :: "u64 \<Rightarrow> u64 \<Rightarrow> u64" where
  "io_latency enter_ts curr_ts = (if curr_ts < enter_ts then TIME_ROLLBACK_DEFAULT_LATENCY_NS else curr_ts - enter_ts)"

definition io_header :: "kern_env \<Rightarrow> data_args_t \<Rightarrow> u64 \<Rightarrow> u64 \<Rightarrow> socket_data \<Rightarrow> socket_data" where
  "io_header env args goid trace_id v =
     v\<lparr>sd_fd := da_fd args, sd_tgid := ucast (drop_bit 32 (ke_pid_tgid env)), sd_pid := ucast (ke_pid_tgid env),
       sd_coroutine_id := goid, sd_timestamp := da_enter_ts args, sd_cap_timestamp := ke_ktime env KT_io_capture,
       sd_syscall_len := of_nat IO_EVENT_BUFFER_SZ, sd_source := source_num DATA_SOURCE_IO_EVENT,
       sd_thread_trace_id := trace_id, sd_msg_type := msg_num MSG_COMMON,
       sd_comm := bytes_at (snd (ke_comm env)) 0 16\<rparr>"

text \<open>Whether the event is wanted: the collection mode, a file of the right kind, and a latency that is long
  enough. The result is the latency.\<close>

definition io_event_wanted ::
    "kern_env \<Rightarrow> kern_state \<Rightarrow> tracer_ctx_s \<Rightarrow> member_fields_offset option \<Rightarrow> data_args_t \<Rightarrow> u64 \<Rightarrow> u64 option" where
  "io_event_wanted env ks t offset args trace_id =
     (if trace_id = 0 \<and> tc_io_event_collect_mode t = 1 then None
      else if \<not> is_readable_file env ks (da_fd args) (\<not> tc_virtual_file_collect_enabled t) offset then None
      else
        (let latency = io_latency (da_enter_ts args) (ke_ktime env KT_io)
         in if latency < tc_io_event_minimal_duration t then None else Some latency))"

text \<open>The second component tells whether the program went on to the output program by a tail call, and so does not
  return to its caller. When the tail call fails it returns, the reference count still raised.\<close>

definition trace_io_event_common ::
    "kern_env \<Rightarrow> member_fields_offset option \<Rightarrow> data_args_t \<Rightarrow> traffic_direction \<Rightarrow> kern_state \<Rightarrow> kern_state \<times> bool" where
  "trace_io_event_common env offset args direction ks =
     (if sint (da_bytes_count args) \<le> 0 then (ks, False)
      else
        (case current_tracer env ks of
           None \<Rightarrow> (ks, False)
         | Some t \<Rightarrow>
             if tc_io_event_collect_mode t = 0 then (ks, False)
             else
               (let (trace_key, ks1) = get_trace_key env (ucast (tc_go_tracing_timeout t)) False ks;
                    trace_id = (case ks_trace ks1 trace_key of Some ti \<Rightarrow> ti_thread_trace_id ti | None \<Rightarrow> 0)
                in case (io_event_wanted env ks1 t offset args trace_id, ks_io_buffer ks1 (ke_cpu env)) of
                     (Some latency, Some buffer) \<Rightarrow>
                       (let b1 = st_bytes (st_bytes (st_bytes buffer 0 (le32 (ucast (da_bytes_count args))))
                                   8 (le64 latency)) 4 (le32 (if direction = T_INGRESS then 1 else 0));
                            ks2 = set_io_buffer env b1 ks1
                        in case current_data_buf env ks2 of
                             None \<Rightarrow> (ks2, False)
                           | Some v_buff \<Rightarrow>
                               if sb_len v_buff > BUFFER_LIMIT then (ks2, False)
                               else
                                 (let (b2, v) = set_file_metric_data env ks2 (da_fd args) offset (b1, sd_load (\<lambda>_. 0) 0);
                                      v1 = io_header env args (tk_goid trace_key) trace_id v;
                                      vb = v_buff\<lparr>sb_data := sd_store (sb_data v_buff) (unat (sb_len v_buff)) v1\<rparr>;
                                      ks3 = upd_refcnt env 1 (set_io_buffer env b2 ks2)
                                  in if ke_ver_5_2_plus env
                                     then (output_data_common_5_2 env (Some args) False (tc_data_limit_max t) False 0 t
                                             (set_data_buf env vb ks3), False)
                                     else (tail_output env
                                             (set_data_buf env
                                                (vb\<lparr>sb_context := (sb_context vb)
                                                       \<lparr>tl_max_size_limit := tc_data_limit_max t,
                                                        tl_push_reassembly_bytes := 0, tl_vecs := False,
                                                        tl_is_close := False, tl_dir := direction\<rparr>\<rparr>) ks3),
                                           ke_tail_call env PROG_OUTPUT_DATA)))
                   | _ \<Rightarrow> (ks1, False))))"

section \<open>System calls on files\<close>

definition do_sys_enter_pread :: "kern_env \<Rightarrow> u32 \<Rightarrow> syscall_src_func \<Rightarrow> kern_state \<Rightarrow> kern_state" where
  "do_sys_enter_pread env fd fn ks =
     (case current_offset env ks of
        None \<Rightarrow> ks
      | Some off \<Rightarrow>
          put_read_args env (ke_pid_tgid env)
            (empty_args\<lparr>da_source_fn := fn, da_fd := fd, da_enter_ts := ke_ktime env KT_enter\<rparr>)
            (set_offset env (snd (infer_mount_offset env fd off)) ks))"

definition do_sys_exit_pread :: "kern_env \<Rightarrow> u64 \<Rightarrow> kern_state \<Rightarrow> kern_state" where
  "do_sys_exit_pread env bytes_count ks =
     (case current_offset env ks of
        None \<Rightarrow> ks
      | Some off \<Rightarrow>
          (case ks_read_args ks (ke_pid_tgid env) of
             None \<Rightarrow> del_read_args (ke_pid_tgid env) ks
           | Some args \<Rightarrow>
               (let args1 = args\<lparr>da_bytes_count := bytes_count\<rparr>;
                    ks1 = ks\<lparr>ks_read_args := (ks_read_args ks)(ke_pid_tgid env \<mapsto> args1)\<rparr>
                in case trace_io_event_common env (Some off) args1 T_INGRESS ks1 of
                     (ks2, tail) \<Rightarrow> if tail then ks2 else del_read_args (ke_pid_tgid env) ks2)))"

definition do_sys_enter_pwrite :: "kern_env \<Rightarrow> u32 \<Rightarrow> syscall_src_func \<Rightarrow> kern_state \<Rightarrow> kern_state" where
  "do_sys_enter_pwrite env fd fn ks =
     (case current_offset env ks of
        None \<Rightarrow> ks
      | Some off \<Rightarrow>
          put_write_args env (ke_pid_tgid env)
            (empty_args\<lparr>da_source_fn := fn, da_fd := fd, da_enter_ts := ke_ktime env KT_enter\<rparr>) ks)"

definition do_sys_exit_pwrite :: "kern_env \<Rightarrow> u64 \<Rightarrow> kern_state \<Rightarrow> kern_state" where
  "do_sys_exit_pwrite env bytes_count ks =
     (case current_offset env ks of
        None \<Rightarrow> ks
      | Some off \<Rightarrow>
          (case ks_write_args ks (ke_pid_tgid env) of
             None \<Rightarrow> del_write_args (ke_pid_tgid env) ks
           | Some args \<Rightarrow>
               (let args1 = args\<lparr>da_bytes_count := bytes_count\<rparr>;
                    ks1 = ks\<lparr>ks_write_args := (ks_write_args ks)(ke_pid_tgid env \<mapsto> args1)\<rparr>
                in case trace_io_event_common env (Some off) args1 T_EGRESS ks1 of
                     (ks2, tail) \<Rightarrow> if tail then ks2 else del_write_args (ke_pid_tgid env) ks2)))"

text \<open>The program reached by tail calls when a descriptor is not a socket.\<close>

definition io_event :: "kern_env \<Rightarrow> kern_state \<Rightarrow> kern_state" where
  "io_event env ks =
     (case ks_read_args ks (ke_pid_tgid env) of
        Some args \<Rightarrow>
          (case trace_io_event_common env None args T_INGRESS ks of
             (ks1, tail) \<Rightarrow> if tail then ks1 else del_read_args (ke_pid_tgid env) ks1)
      | None \<Rightarrow>
          (case ks_write_args ks (ke_pid_tgid env) of
             Some args \<Rightarrow>
               (case trace_io_event_common env None args T_EGRESS ks of
                  (ks1, tail) \<Rightarrow> if tail then ks1 else del_write_args (ke_pid_tgid env) ks1)
           | None \<Rightarrow> ks))"

end
