(* ===== verification/Syscalls.thy ===== *)
theory Syscalls
  imports Kern_Offsets Data_Submit Files_Rw
begin

text \<open>
  The programs at the entry and exit of system calls, in the tracepoint builds. At the entry of a read or write the
  arguments are stashed under the thread's identifier; at its exit \<^verbatim>\<open>process_data\<close> decides whether the data
  belongs to a socket, infers the protocol and submits the message. From 5.2 on all of that is one program; before,
  it continues in the tail-called programs, and does not return to the handler unless a tail call fails. \<^verbatim>\<open>close\<close>, \<^verbatim>\<open>socket\<close>, \<^verbatim>\<open>accept\<close> and
  \<^verbatim>\<open>connect\<close> keep the maps of sockets and roles.
\<close>

section \<open>Processing the data of a system call\<close>

definition preprocess_for_uprobe :: "kern_env \<Rightarrow> traffic_direction \<Rightarrow> u32 \<Rightarrow> u64 \<Rightarrow> kern_state \<Rightarrow> kern_state" where
  "preprocess_for_uprobe env dir fd count ks =
     (if skip_http2_kprobe (infer_env env ks) \<and> dir = T_INGRESS then
        (let tcp_seq_end = get_tcp_read_seq env ks fd;
             key = (ucast (drop_bit 32 (ke_pid_tgid env)), fd, tcp_seq_end)
         in ks\<lparr>ks_http2_seq := lru_update (ke_map_full env M_http2_tcp_seq) (ke_http2_seq_evicted env) True
                                (ks_http2_seq ks) key (tcp_seq_end - ucast count)\<rparr>)
      else ks)"

text \<open>What \<^verbatim>\<open>process_data\<close> tells its caller: -1, -2, 0, or that the next program was tail-called.\<close>

datatype process_result = PD_REJECTED | PD_IO_EVENT | PD_DONE | PD_INFER_2

text \<open>The port of a datagram whose socket is not connected: that of the call, or that of an earlier call.\<close>

definition udp_peer_port :: "data_args_t \<Rightarrow> conn_info_s \<Rightarrow> data_args_t \<times> conn_info_s" where
  "udp_peer_port args c =
     (if tp_l4_protocol (ci_tuple c) = IPPROTO_UDP \<and> tp_dport (ci_tuple c) = 0 then
        (let c1 = c\<lparr>ci_tuple := (ci_tuple c)\<lparr>tp_dport := da_port args\<rparr>\<rparr>
         in case ci_socket_info_ptr c1 of
              Some s \<Rightarrow>
                if da_port args = 0 \<and> is_socket_info_valid (Some s) \<and> si_udp_pre_set_addr s
                then (args\<lparr>da_port := si_port s, da_addr := write_at (da_addr args) 0 (si_prev_data s) 16\<rparr>,
                      c\<lparr>ci_tuple := (ci_tuple c)\<lparr>tp_dport := si_port s\<rparr>\<rparr>)
                else (args, c1)
            | None \<Rightarrow> (args, c1))
      else (args, c))"

definition port_listed :: "buf option \<Rightarrow> conn_info_s \<Rightarrow> bool" where
  "port_listed bm c =
     (case bm of
        None \<Rightarrow> False
      | Some b \<Rightarrow> is_set_bitmap b (tp_dport (ci_tuple c)) \<or> is_set_bitmap b (tp_num (ci_tuple c)))"

text \<open>The part of \<^verbatim>\<open>process_data\<close> on a socket whose connection is set up. When the tail call of the next inference
  program fails, the program goes on with what it has inferred so far.\<close>

definition process_conn ::
    "kern_env \<Rightarrow> traffic_direction \<Rightarrow> data_args_t \<Rightarrow> u64 \<Rightarrow> process_data_extra \<Rightarrow> bool \<Rightarrow> conn_info_s \<Rightarrow> kern_state
      \<Rightarrow> process_result \<times> kern_state" where
  "process_conn env direction args bytes_count extra disable_kprobe c ks =
     (case ks_ctx_info ks (ke_cpu env) of
        None \<Rightarrow> (PD_REJECTED, ks)
      | Some ctx \<Rightarrow>
          if port_listed (ke_kprobe_port_bitmap env 1) c then (PD_REJECTED, ks)
          else
            (let c1 = (if port_listed (ke_kprobe_port_bitmap env 0) c then c\<lparr>ci_protocol := PROTO_CUSTOM\<rparr> else c);
                 (act, ctx1, c2, ks1) = infer_l7_class_1 env args bytes_count extra ctx c1 ks;
                 ctx2 = (if act = INFER_CONTINUE then ctx1\<lparr>tl_dir := direction\<rparr> else ctx1);
                 save = (\<lambda>c. set_ctx_info env (ctx2\<lparr>tl_conn_info := c, tl_extra := extra,
                                                  tl_bytes_count := ucast bytes_count\<rparr>));
                 c3 = (if ci_protocol c2 = PROTO_CUSTOM \<and> ci_enable_reasm c2 then c2\<lparr>ci_is_reasm_seg := True\<rparr> else c2)
             in if act = INFER_TERMINATE then (PD_REJECTED, ks1)
                else if ke_ver_5_2_plus env then
                  (if is_message c3
                   then (PD_DONE, snd (data_submit_common env c3 args (ex_vecs extra) (ucast bytes_count)
                                         (da_enter_ts args) extra ks1))
                   else (PD_REJECTED, ks1))
                else if disable_kprobe \<and> ex_source extra = DATA_SOURCE_SYSCALL then (PD_REJECTED, ks1)
                else if act = INFER_CONTINUE \<and> ke_tail_call env PROG_PROTO_INFER_2 then (PD_INFER_2, save c2 ks1)
                else
                  (let ks2 = (if act = INFER_CONTINUE then save c2 ks1 else ks1)
                   in if is_message c3 then (PD_DONE, save c3 ks2) else (PD_REJECTED, ks2))))"

definition process_data ::
    "kern_env \<Rightarrow> traffic_direction \<Rightarrow> data_args_t \<Rightarrow> u64 \<Rightarrow> process_data_extra \<Rightarrow> kern_state
      \<Rightarrow> process_result \<times> data_args_t \<times> kern_state" where
  "process_data env direction args bytes_count extra ks =
     (if \<not> ex_vecs extra \<and> da_buf args = 0 then (PD_REJECTED, args, ks)
      else if ex_vecs extra \<and> (da_iov args = 0 \<or> da_iovlen args = 0) then (PD_REJECTED, args, ks)
      else if sint (ucast bytes_count :: u32) \<le> 0 then (PD_REJECTED, args, ks)
      else
        (case current_offset env ks of
           None \<Rightarrow> (PD_REJECTED, args, ks)
         | Some offset \<Rightarrow>
             if mo_ready offset = 0 then (PD_REJECTED, args, ks)
             else
               (let sk = get_socket_from_fd env (da_fd args) offset;
                    (sock_state, c) = is_tcp_udp_data env sk offset conn_zero
                in if sk = 0 \<or> sock_state = SOCK_CHECK_TYPE_ERROR then
                     (if ke_ver_5_2_plus env
                      then (PD_REJECTED, args, fst (trace_io_event_common env (Some offset) args direction ks))
                      else (PD_IO_EVENT, args, ks))
                   else
                     (let ks1 = (if ke_ver_5_2_plus env
                                 then preprocess_for_uprobe env direction (da_fd args) bytes_count ks else ks)
                      in if ke_ver_5_2_plus env \<and> mo_kprobe_invalid offset \<and> ex_source extra = DATA_SOURCE_SYSCALL
                         then (PD_REJECTED, args, ks1)
                         else
                           (let c1 = (if sock_state = SOCK_CHECK_TYPE_UNIX then c\<lparr>ci_sk_type := SOCK_UNIX\<rparr> else c);
                                c2 = init_conn_info env ks1 (ucast (drop_bit 32 (ke_pid_tgid env))) (da_fd args) sk offset c1;
                                (args1, c3) = udp_peer_port args c2;
                                (r, ks2) = process_conn env direction args1 bytes_count extra (mo_kprobe_invalid offset)
                                             (c3\<lparr>ci_direction := direction\<rparr>) ks1
                            in (r, args1, ks2))))))"

section \<open>Chains of tail-called programs\<close>

text \<open>Before 5.2: submission, followed by the output of the event, or by the check for a file event. The programs
  that follow a uprobe are kprobes, where an event that cannot be submitted is dropped. A program whose tail call fails
  returns at once: after \<^verbatim>\<open>SUBMIT_OK\<close> the reference count stays raised and the header prepared is never output.\<close>

definition run_data_submit :: "bool \<Rightarrow> kern_env \<Rightarrow> kern_state \<Rightarrow> kern_state" where
  "run_data_submit kp env ks =
     (case data_submit env ks of
        (SUBMIT_OK, ks1) \<Rightarrow> tail_output env ks1
      | (SUBMIT_ABORT, ks1) \<Rightarrow> ks1
      | (SUBMIT_INVALID, ks1) \<Rightarrow> if kp then del_args env ks1
                                 else if ke_tail_call env PROG_IO_EVENT then io_event env ks1 else ks1)"

definition run_proto_infer_3 :: "bool \<Rightarrow> kern_env \<Rightarrow> kern_state \<Rightarrow> kern_state" where
  "run_proto_infer_3 kp env ks =
     (case proto_infer_3 env ks of
        (act, ks1) \<Rightarrow>
          if act = INFER_FINISH \<and> ke_tail_call env PROG_DATA_SUBMIT then run_data_submit kp env ks1 else ks1)"

definition run_proto_infer_2 :: "bool \<Rightarrow> kern_env \<Rightarrow> kern_state \<Rightarrow> kern_state" where
  "run_proto_infer_2 kp env ks =
     (case proto_infer_2 env ks of
        (INFER_CONTINUE, ks1) \<Rightarrow> if ke_tail_call env PROG_PROTO_INFER_3 then run_proto_infer_3 kp env ks1 else ks1
      | (INFER_FINISH, ks1) \<Rightarrow> if ke_tail_call env PROG_DATA_SUBMIT then run_data_submit kp env ks1 else ks1
      | (INFER_TERMINATE, ks1) \<Rightarrow> ks1)"

definition set_dir_args :: "kern_env \<Rightarrow> traffic_direction \<Rightarrow> data_args_t \<Rightarrow> kern_state \<Rightarrow> kern_state" where
  "set_dir_args env dir args ks =
     (if dir = T_INGRESS then ks\<lparr>ks_read_args := (ks_read_args ks)(ke_pid_tgid env \<mapsto> args)\<rparr>
      else ks\<lparr>ks_write_args := (ks_write_args ks)(ke_pid_tgid env \<mapsto> args)\<rparr>)"

text \<open>\<^verbatim>\<open>process_syscall_data\<close> and \<^verbatim>\<open>process_syscall_data_vecs\<close> with the deletion of the arguments that every exit
  handler does when control returns to it, as it does when the tail call of the next program fails. The arguments are in the map, so that a change of the port by
  \<^verbatim>\<open>process_data\<close> is seen by the later programs.\<close>

definition process_syscall_data ::
    "bool \<Rightarrow> kern_env \<Rightarrow> traffic_direction \<Rightarrow> data_args_t \<Rightarrow> u64 \<Rightarrow> kern_state \<Rightarrow> kern_state" where
  "process_syscall_data vecs env direction args bytes_count ks =
     (let extra = \<lparr>ex_vecs = vecs, ex_is_go_process = is_current_go_process env, ex_source = DATA_SOURCE_SYSCALL\<rparr>;
          ks0 = set_dir_args env direction args ks;
          (r, args1, ks1) = process_data env direction args bytes_count extra ks0;
          ks2 = set_dir_args env direction args1 ks1
      in if ke_ver_5_2_plus env then del_dir_args env direction ks1
         else
           (case r of
              PD_DONE \<Rightarrow>
                if ke_tail_call env PROG_DATA_SUBMIT then run_data_submit False env ks2 else del_dir_args env direction ks2
            | PD_IO_EVENT \<Rightarrow>
                if ke_tail_call env PROG_IO_EVENT then io_event env ks2 else del_dir_args env direction ks2
            | PD_INFER_2 \<Rightarrow> run_proto_infer_2 False env ks2
            | PD_REJECTED \<Rightarrow> del_dir_args env direction ks2))"

section \<open>Reads and writes\<close>

definition write_enter_args :: "kern_env \<Rightarrow> kern_state \<Rightarrow> syscall_src_func \<Rightarrow> u32 \<Rightarrow> data_args_t" where
  "write_enter_args env ks fn fd =
     empty_args\<lparr>da_source_fn := fn, da_fd := fd, da_enter_ts := ke_ktime env KT_enter,
                da_tcp_seq := get_tcp_write_seq env ks fd\<rparr>"

definition read_enter_args :: "kern_env \<Rightarrow> kern_state \<Rightarrow> syscall_src_func \<Rightarrow> u32 \<Rightarrow> data_args_t" where
  "read_enter_args env ks fn fd =
     empty_args\<lparr>da_source_fn := fn, da_fd := fd, da_enter_ts := ke_ktime env KT_enter,
                da_tcp_seq := get_tcp_read_seq env ks fd\<rparr>"

text \<open>\<^verbatim>\<open>ipaddr_ptr\<close> shares the first eight bytes of \<^verbatim>\<open>addr\<close>.\<close>

definition ipaddr_ptr :: "data_args_t \<Rightarrow> u64" where
  "ipaddr_ptr a = ld_u64 (da_addr a) 0"

definition set_ipaddr_ptr :: "u64 \<Rightarrow> data_args_t \<Rightarrow> data_args_t" where
  "set_ipaddr_ptr p a = a\<lparr>da_addr := st_bytes (da_addr a) 0 (le64 p)\<rparr>"

definition take_peer_address :: "kern_env \<Rightarrow> data_args_t \<Rightarrow> data_args_t" where
  "take_peer_address env a =
     (if ipaddr_ptr a \<noteq> 0 then extract_network_address_info env (ipaddr_ptr a) (set_ipaddr_ptr 0 a) else a)"

definition do_sys_enter_write :: "kern_env \<Rightarrow> u32 \<Rightarrow> u64 \<Rightarrow> kern_state \<Rightarrow> kern_state" where
  "do_sys_enter_write env fd buf ks =
     put_write_args env (ke_pid_tgid env) ((write_enter_args env ks SYSCALL_FUNC_WRITE fd)\<lparr>da_buf := buf\<rparr>) ks"

definition do_sys_exit_write :: "kern_env \<Rightarrow> u64 \<Rightarrow> kern_state \<Rightarrow> kern_state" where
  "do_sys_exit_write env bytes_count ks =
     (case ks_write_args ks (ke_pid_tgid env) of
        None \<Rightarrow> del_write_args (ke_pid_tgid env) ks
      | Some a \<Rightarrow> process_syscall_data False env T_EGRESS (a\<lparr>da_bytes_count := bytes_count\<rparr>) bytes_count ks)"

definition do_sys_enter_read :: "kern_env \<Rightarrow> u32 \<Rightarrow> u64 \<Rightarrow> kern_state \<Rightarrow> kern_state" where
  "do_sys_enter_read env fd buf ks =
     put_read_args env (ke_pid_tgid env) ((read_enter_args env ks SYSCALL_FUNC_READ fd)\<lparr>da_buf := buf\<rparr>) ks"

definition do_sys_exit_read :: "kern_env \<Rightarrow> u64 \<Rightarrow> kern_state \<Rightarrow> kern_state" where
  "do_sys_exit_read env bytes_count ks =
     (case ks_read_args ks (ke_pid_tgid env) of
        None \<Rightarrow> del_read_args (ke_pid_tgid env) ks
      | Some a \<Rightarrow> process_syscall_data False env T_INGRESS (a\<lparr>da_bytes_count := bytes_count\<rparr>) bytes_count ks)"

definition do_sys_enter_sendto :: "kern_env \<Rightarrow> u32 \<Rightarrow> u64 \<Rightarrow> u64 \<Rightarrow> kern_state \<Rightarrow> kern_state" where
  "do_sys_enter_sendto env sockfd buf u_addr ks =
     (case infer_offset_phase_1 env sockfd ks of
        (ready, ks1) \<Rightarrow>
          if \<not> ready then ks1
          else put_write_args env (ke_pid_tgid env)
                 (extract_network_address_info env u_addr
                    ((write_enter_args env ks1 SYSCALL_FUNC_SENDTO sockfd)\<lparr>da_buf := buf\<rparr>)) ks1)"

definition do_sys_exit_sendto :: "kern_env \<Rightarrow> u64 \<Rightarrow> kern_state \<Rightarrow> kern_state" where
  "do_sys_exit_sendto env bytes_count ks =
     (case ks_write_args ks (ke_pid_tgid env) of
        None \<Rightarrow> ks
      | Some a \<Rightarrow> process_syscall_data False env T_EGRESS (a\<lparr>da_bytes_count := bytes_count\<rparr>) bytes_count ks)"

definition MSG_PEEK :: u32 where "MSG_PEEK = 2"

definition do_sys_enter_recvfrom :: "kern_env \<Rightarrow> u32 \<Rightarrow> u64 \<Rightarrow> u32 \<Rightarrow> u64 \<Rightarrow> kern_state \<Rightarrow> kern_state" where
  "do_sys_enter_recvfrom env sockfd buf flags u_addr ks =
     (if flags AND MSG_PEEK \<noteq> 0 then ks
      else
        (let a = (read_enter_args env ks SYSCALL_FUNC_RECVFROM sockfd)\<lparr>da_buf := buf\<rparr>
         in put_read_args env (ke_pid_tgid env) (if u_addr \<noteq> 0 then set_ipaddr_ptr u_addr a else a) ks))"

definition do_sys_exit_recvfrom :: "kern_env \<Rightarrow> u64 \<Rightarrow> kern_state \<Rightarrow> kern_state" where
  "do_sys_exit_recvfrom env bytes_count ks =
     (case ks_read_args ks (ke_pid_tgid env) of
        None \<Rightarrow> ks
      | Some a \<Rightarrow>
          process_syscall_data False env T_INGRESS (take_peer_address env (a\<lparr>da_bytes_count := bytes_count\<rparr>)) bytes_count ks)"

section \<open>Messages and vectors\<close>

text \<open>\<^verbatim>\<open>struct user_msghdr\<close>: \<^verbatim>\<open>msg_name\<close> at 0, \<^verbatim>\<open>msg_iov\<close> at 16, \<^verbatim>\<open>msg_iovlen\<close> at 24, 56 bytes. \<^verbatim>\<open>struct mmsghdr\<close>:
  the header, then \<^verbatim>\<open>msg_len\<close> at 56, 64 bytes.\<close>

definition enter_sendmsg :: "kern_env \<Rightarrow> u32 \<Rightarrow> u64 \<Rightarrow> kern_state \<Rightarrow> kern_state" where
  "enter_sendmsg env sockfd msghdr_ptr ks =
     (if msghdr_ptr = 0 then ks
      else
        (let msghdr = snd (ke_read_user env msghdr_ptr 56);
             a = (write_enter_args env ks SYSCALL_FUNC_SENDMSG sockfd)
                   \<lparr>da_iov := ld_u64 msghdr 16, da_iovlen := ld_u64 msghdr 24\<rparr>
         in put_write_args env (ke_pid_tgid env) (set_ipaddr_ptr (ld_u64 msghdr 0) a) ks))"

definition exit_sendmsg :: "kern_env \<Rightarrow> u64 \<Rightarrow> kern_state \<Rightarrow> kern_state" where
  "exit_sendmsg env bytes_count ks =
     (case ks_write_args ks (ke_pid_tgid env) of
        None \<Rightarrow> ks
      | Some a \<Rightarrow>
          process_syscall_data True env T_EGRESS (take_peer_address env (a\<lparr>da_bytes_count := bytes_count\<rparr>)) bytes_count ks)"

definition enter_sendmmsg :: "kern_env \<Rightarrow> u32 \<Rightarrow> u64 \<Rightarrow> u32 \<Rightarrow> kern_state \<Rightarrow> kern_state" where
  "enter_sendmmsg env sockfd msgvec_ptr vlen ks =
     (if msgvec_ptr = 0 \<or> vlen < 1 then ks
      else
        (let msgvec = snd (ke_read_user env msgvec_ptr 64);
             a = (write_enter_args env ks SYSCALL_FUNC_SENDMMSG sockfd)
                   \<lparr>da_iov := ld_u64 msgvec 16, da_iovlen := ld_u64 msgvec 24, da_msg_len := msgvec_ptr + 56\<rparr>;
             second = snd (ke_read_user env (msgvec_ptr + 64) 64)
         in put_write_args env (ke_pid_tgid env)
              (if vlen \<ge> 2 then a\<lparr>da_extra_iov := ld_u64 second 16, da_extra_iovlen := ld_u64 second 24\<rparr> else a) ks))"

text \<open>The length is read from the \<^verbatim>\<open>msg_len\<close> of the first message; as many bytes are read as a pointer has.\<close>

definition exit_sendmmsg :: "kern_env \<Rightarrow> u32 \<Rightarrow> kern_state \<Rightarrow> kern_state" where
  "exit_sendmmsg env num_msgs ks =
     (case ks_write_args ks (ke_pid_tgid env) of
        None \<Rightarrow> del_write_args (ke_pid_tgid env) ks
      | Some a \<Rightarrow>
          if sint num_msgs > 0
          then process_syscall_data True env T_EGRESS a (ld_u64 (snd (ke_read_user env (da_msg_len a) 8)) 0) ks
          else del_write_args (ke_pid_tgid env) ks)"

definition enter_recvmsg :: "kern_env \<Rightarrow> u32 \<Rightarrow> u64 \<Rightarrow> u32 \<Rightarrow> kern_state \<Rightarrow> kern_state" where
  "enter_recvmsg env sockfd msghdr_ptr flags ks =
     (if flags AND MSG_PEEK \<noteq> 0 \<or> msghdr_ptr = 0 then ks
      else
        (let msghdr = snd (ke_read_user env msghdr_ptr 56);
             a = (read_enter_args env ks SYSCALL_FUNC_RECVMSG sockfd)
                   \<lparr>da_iov := ld_u64 msghdr 16, da_iovlen := ld_u64 msghdr 24\<rparr>
         in put_read_args env (ke_pid_tgid env) (set_ipaddr_ptr (ld_u64 msghdr 0) a) ks))"

definition exit_recvmsg :: "kern_env \<Rightarrow> u64 \<Rightarrow> kern_state \<Rightarrow> kern_state" where
  "exit_recvmsg env bytes_count ks =
     (case ks_read_args ks (ke_pid_tgid env) of
        None \<Rightarrow> ks
      | Some a \<Rightarrow>
          process_syscall_data True env T_INGRESS (take_peer_address env (a\<lparr>da_bytes_count := bytes_count\<rparr>)) bytes_count ks)"

definition enter_recvmmsg :: "kern_env \<Rightarrow> u32 \<Rightarrow> u64 \<Rightarrow> u32 \<Rightarrow> u32 \<Rightarrow> kern_state \<Rightarrow> kern_state" where
  "enter_recvmmsg env sockfd msgvec vlen flags ks =
     (if flags AND MSG_PEEK \<noteq> 0 \<or> msgvec = 0 \<or> vlen < 1 then ks
      else
        put_read_args env (ke_pid_tgid env)
          ((read_enter_args env ks SYSCALL_FUNC_RECVMMSG sockfd)
             \<lparr>da_iov := ld_u64 (snd (ke_read_user env (msgvec + 16) 8)) 0,
              da_iovlen := ld_u64 (snd (ke_read_user env (msgvec + 24) 8)) 0, da_msg_len := msgvec + 56\<rparr>) ks)"

definition exit_recvmmsg :: "kern_env \<Rightarrow> u32 \<Rightarrow> kern_state \<Rightarrow> kern_state" where
  "exit_recvmmsg env num_msgs ks =
     (case ks_read_args ks (ke_pid_tgid env) of
        None \<Rightarrow> del_read_args (ke_pid_tgid env) ks
      | Some a \<Rightarrow>
          if sint num_msgs > 0
          then process_syscall_data True env T_INGRESS a (ld_u64 (snd (ke_read_user env (da_msg_len a) 8)) 0) ks
          else del_read_args (ke_pid_tgid env) ks)"

definition enter_writev :: "kern_env \<Rightarrow> u32 \<Rightarrow> u64 \<Rightarrow> u32 \<Rightarrow> kern_state \<Rightarrow> kern_state" where
  "enter_writev env fd iov iovlen ks =
     put_write_args env (ke_pid_tgid env)
       ((write_enter_args env ks SYSCALL_FUNC_WRITEV fd)\<lparr>da_iov := iov, da_iovlen := scast iovlen\<rparr>) ks"

definition exit_writev :: "kern_env \<Rightarrow> u64 \<Rightarrow> kern_state \<Rightarrow> kern_state" where
  "exit_writev env bytes_count ks =
     (case ks_write_args ks (ke_pid_tgid env) of
        None \<Rightarrow> del_write_args (ke_pid_tgid env) ks
      | Some a \<Rightarrow> process_syscall_data True env T_EGRESS (a\<lparr>da_bytes_count := bytes_count\<rparr>) bytes_count ks)"

definition enter_readv :: "kern_env \<Rightarrow> u32 \<Rightarrow> u64 \<Rightarrow> u32 \<Rightarrow> kern_state \<Rightarrow> kern_state" where
  "enter_readv env fd iov iovlen ks =
     put_read_args env (ke_pid_tgid env)
       ((read_enter_args env ks SYSCALL_FUNC_READV fd)\<lparr>da_iov := iov, da_iovlen := scast iovlen\<rparr>) ks"

definition exit_readv :: "kern_env \<Rightarrow> u64 \<Rightarrow> kern_state \<Rightarrow> kern_state" where
  "exit_readv env bytes_count ks =
     (case ks_read_args ks (ke_pid_tgid env) of
        None \<Rightarrow> del_read_args (ke_pid_tgid env) ks
      | Some a \<Rightarrow> process_syscall_data True env T_INGRESS (a\<lparr>da_bytes_count := bytes_count\<rparr>) bytes_count ks)"

section \<open>The life of a socket\<close>

definition push_close_event ::
    "kern_env \<Rightarrow> u64 \<Rightarrow> u64 \<Rightarrow> traffic_protocol \<Rightarrow> u32 \<Rightarrow> process_data_extra_source \<Rightarrow> kern_state \<Rightarrow> kern_state" where
  "push_close_event env uid seq l7_proto fd source ks =
     (case (current_tracer env ks, current_data_buf env ks) of
        (Some t, Some v_buff) \<Rightarrow>
          if sb_len v_buff > BUFFER_LIMIT then ks
          else
            (let now = ke_ktime env KT_close;
                 v = (sd_load (\<lambda>_. 0) 0)
                       \<lparr>sd_socket_id := uid, sd_tgid := ucast (drop_bit 32 (ke_pid_tgid env)),
                        sd_pid := ucast (ke_pid_tgid env), sd_timestamp := now, sd_cap_timestamp := now,
                        sd_source := source_num source, sd_syscall_len := 0, sd_data_seq := seq,
                        sd_msg_type := msg_num MSG_CLOSE, sd_data_type := proto_num l7_proto, sd_fd := fd,
                        sd_comm := bytes_at (snd (ke_comm env)) 0 16\<rparr>;
                 b1 = v_buff\<lparr>sb_data := sd_store (sb_data v_buff) (unat (sb_len v_buff)) v\<rparr>;
                 ks1 = upd_refcnt env 1 ks
             in if ke_ver_5_2_plus env
                then output_data_common_5_2 env None False (tc_data_limit_max t) True 0 t (set_data_buf env b1 ks1)
                else tail_output env
                       (set_data_buf env
                          (b1\<lparr>sb_context := (sb_context b1)
                                \<lparr>tl_max_size_limit := tc_data_limit_max t, tl_vecs := False, tl_is_close := True,
                                 tl_dir := T_INGRESS\<rparr>\<rparr>) ks1))
      | _ \<Rightarrow> ks)"

definition enter_close :: "kern_env \<Rightarrow> u32 \<Rightarrow> kern_state \<Rightarrow> kern_state" where
  "enter_close env fd ks =
     (if sint fd \<le> 2 then ks
      else if current_offset env ks = None then ks
      else
        (case infer_offset_phase_2 env fd ks of
           (ready, ks1) \<Rightarrow>
             if \<not> ready then ks1
             else
               (let conn_key = gen_conn_key_id (drop_bit 32 (ke_pid_tgid env)) (scast fd)
                in case ks_socket_info ks1 conn_key of
                     None \<Rightarrow> ks1\<lparr>ks_socket_role := snd (map_delete (ks_socket_role ks1) conn_key)\<rparr>
                   | Some s0 \<Rightarrow>
                       (let s = (if si_uid s0 \<noteq> 0 then s0\<lparr>si_seq := si_seq s0 + 1\<rparr> else s0);
                            source = (if si_uid s0 \<noteq> 0 then si_data_source s0 else DATA_SOURCE_SYSCALL);
                            ks2 = delete_socket_info conn_key (Some s) (upd_socket conn_key (\<lambda>_. s) ks1)
                        in push_close_event env (si_uid s) (si_seq s) (si_l7_proto s) fd source ks2))))"

definition is_nginx :: "kern_env \<Rightarrow> bool" where
  "is_nginx env \<longleftrightarrow> bytes_at (snd (ke_comm env)) 0 6 = map byte ''nginx'' @ [0]"

definition exit_socket :: "kern_env \<Rightarrow> u64 \<Rightarrow> kern_state \<Rightarrow> kern_state" where
  "exit_socket env fd ks =
     (if \<not> is_nginx env then ks
      else
        (case get_trace_key env 0 True ks of
           (key, ks1) \<Rightarrow>
             (case ks_trace ks1 key of
                None \<Rightarrow> ks1
              | Some trace \<Rightarrow>
                  if ti_peer_fd trace \<noteq> 0 \<and> ti_peer_fd trace \<noteq> ucast fd then
                    (let sk_info = sock_zero\<lparr>si_peer_fd := ti_peer_fd trace, si_trace_id := ti_thread_trace_id trace\<rparr>;
                         conn_key = gen_conn_key_id (drop_bit 32 (ke_pid_tgid env)) fd;
                         (ret, m) = map_update (ke_map_full env M_socket_info) (ks_socket_info ks1) conn_key sk_info;
                         ks2 = ks1\<lparr>ks_socket_info := m\<rparr>
                     in if ret = 0
                        then upd_stats (\<lambda>st. st\<lparr>ts_socket_map_count := ts_socket_map_count st + 1\<rparr>) ks2 else ks2)
                  else ks1)))"

definition set_socket_role :: "kern_env \<Rightarrow> u32 \<Rightarrow> u32 \<Rightarrow> kern_state \<Rightarrow> kern_state" where
  "set_socket_role env sockfd role ks =
     ks\<lparr>ks_socket_role := snd (map_update (ke_map_full env M_socket_role) (ks_socket_role ks)
                                (gen_conn_key_id (drop_bit 32 (ke_pid_tgid env)) (scast sockfd)) role)\<rparr>"

definition exit_accept :: "kern_env \<Rightarrow> u32 \<Rightarrow> kern_state \<Rightarrow> kern_state" where
  "exit_accept env sockfd ks = set_socket_role env sockfd 2 ks"

definition enter_connect :: "kern_env \<Rightarrow> u32 \<Rightarrow> kern_state \<Rightarrow> kern_state" where
  "enter_connect env sockfd ks = set_socket_role env sockfd 1 ks"

end
