(* ===== verification/Kern_Runs.thy ===== *)
theory Kern_Runs
  imports Syscalls "HOL-Library.Sublist"
begin

text \<open>
  Runs of the programs. A step either is quiet, that is, leaves the push buffers, the output and the reference counts
  alone, or emits events at the end of the stream of its CPU. Every handler is shown to do one or the other, so that
  the facts hold for any sequence of system calls on any CPUs.
\<close>

section \<open>Steps that output nothing\<close>

definition refcnts :: "kern_state \<Rightarrow> nat \<Rightarrow> u32 option" where
  "refcnts ks cpu = map_option tc_push_buffer_refcnt (ks_tracer ks cpu)"

definition quiet :: "kern_state \<Rightarrow> kern_state \<Rightarrow> bool" where
  "quiet ks ks' \<longleftrightarrow> ks_data_buf ks' = ks_data_buf ks \<and> ks_out ks' = ks_out ks \<and> refcnts ks' = refcnts ks"

lemma quiet_refl [simp]: "quiet ks ks"
  by (simp add: quiet_def)

lemma quiet_trans: "quiet ks ks1 \<Longrightarrow> quiet ks1 ks2 \<Longrightarrow> quiet ks ks2"
  by (simp add: quiet_def)

lemma refcnts_upd_tracer:
  "(\<And>t. tc_push_buffer_refcnt (f t) = tc_push_buffer_refcnt t) \<Longrightarrow> refcnts (upd_tracer env f ks) = refcnts ks"
  by (rule ext) (simp add: refcnts_def upd_tracer_def option.map_comp o_def)

lemma quiet_upd_tracer:
  "quiet ks ks' \<Longrightarrow> (\<And>t. tc_push_buffer_refcnt (f t) = tc_push_buffer_refcnt t) \<Longrightarrow> quiet ks (upd_tracer env f ks')"
  using refcnts_upd_tracer [of f env ks'] by (simp add: quiet_def) (simp add: upd_tracer_def)

text \<open>Updates of fields other than the buffers, the output and the tracers.\<close>

lemma quiet_upd:
  "quiet ks (ks'\<lparr>ks_offset := a\<rparr>) = quiet ks ks'" "quiet ks (ks'\<lparr>ks_stats := b\<rparr>) = quiet ks ks'"
  "quiet ks (ks'\<lparr>ks_socket_info := c\<rparr>) = quiet ks ks'" "quiet ks (ks'\<lparr>ks_socket_role := d\<rparr>) = quiet ks ks'"
  "quiet ks (ks'\<lparr>ks_trace := e\<rparr>) = quiet ks ks'" "quiet ks (ks'\<lparr>ks_read_args := f\<rparr>) = quiet ks ks'"
  "quiet ks (ks'\<lparr>ks_write_args := g\<rparr>) = quiet ks ks'" "quiet ks (ks'\<lparr>ks_go_rw_ts := h\<rparr>) = quiet ks ks'"
  "quiet ks (ks'\<lparr>ks_infer_cache := i\<rparr>) = quiet ks ks'" "quiet ks (ks'\<lparr>ks_http2_seq := j\<rparr>) = quiet ks ks'"
  "quiet ks (ks'\<lparr>ks_ctx_info := k\<rparr>) = quiet ks ks'" "quiet ks (ks'\<lparr>ks_io_buffer := l\<rparr>) = quiet ks ks'"
  by (simp_all add: quiet_def refcnts_def fun_eq_iff)

lemma quiet_ops [simp]:
  "quiet ks (upd_stats g ks') = quiet ks ks'" "quiet ks (upd_socket key p ks') = quiet ks ks'"
  "quiet ks (del_read_args pt ks') = quiet ks ks'" "quiet ks (del_write_args pt ks') = quiet ks ks'"
  "quiet ks (put_read_args env pt a ks') = quiet ks ks'" "quiet ks (put_write_args env pt a ks') = quiet ks ks'"
  "quiet ks (set_offset env off ks') = quiet ks ks'" "quiet ks (set_ctx_info env c ks') = quiet ks ks'"
  "quiet ks (set_io_buffer env b ks') = quiet ks ks'" "quiet ks (upd_infer_cache env pr ks') = quiet ks ks'"
  "quiet ks (set_dir_args env dir a ks') = quiet ks ks'" "quiet ks (del_args env ks') = quiet ks ks'"
  "quiet ks (del_dir_args env dir ks') = quiet ks ks'" "quiet ks (set_socket_role env fd r ks') = quiet ks ks'"
  by (simp_all add: quiet_upd upd_stats_def upd_socket_def del_read_args_def del_write_args_def put_read_args_def
      put_write_args_def set_offset_def set_ctx_info_def set_io_buffer_def upd_infer_cache_def Let_def set_dir_args_def
      del_args_def del_dir_args_def set_socket_role_def)

lemma quiet_goid: "quiet ks (snd (get_rw_goid env timeout io ks))"
  by (auto simp: get_rw_goid_def Let_def quiet_upd split: option.split)

lemma quiet_trace_key: "quiet ks (snd (get_trace_key env timeout io ks))"
  using quiet_goid [of ks env "timeout * NS_PER_SEC" io] by (auto simp: get_trace_key_def Let_def split: prod.split)

lemma quiet_trace_process: "quiet ks (snd (trace_process env sock c sid ti t ts key ks))"
  by (auto simp: trace_process_def Let_def quiet_upd intro!: quiet_upd_tracer split: traffic_direction.split option.split prod.split)

lemma quiet_delete_socket_info: "quiet ks (delete_socket_info key p ks)"
  by (auto simp: delete_socket_info_def Let_def quiet_upd split: option.split prod.split)

lemma quiet_add_socket_info: "quiet ks (add_socket_info env key c s ks)"
  by (auto simp: add_socket_info_def Let_def quiet_upd intro!: quiet_upd_tracer split: prod.split)

lemma quiet_pass_trace: "quiet ks (pass_trace_to_peer tgid c s i ks)"
  by (simp add: pass_trace_to_peer_def Let_def)

lemma quiet_store_inference: "quiet ks ks' \<Longrightarrow> quiet ks (store_inference env c q ks')"
  by (auto simp: store_inference_def Let_def quiet_upd split: option.split)

lemma quiet_class_1: "infer_l7_class_1 env args count extra ctx c ks = (act, ctx1, c1, ks1) \<Longrightarrow> quiet ks ks1"
  by (auto simp: infer_l7_class_1_def Let_def intro!: quiet_store_inference split: prod.splits if_splits)

lemma quiet_class_2: "infer_l7_class_2 env ctx c ks = (act, c1, ks1) \<Longrightarrow> quiet ks ks1"
  by (auto simp: infer_l7_class_2_def Let_def intro!: quiet_store_inference split: prod.splits if_splits)

lemma quiet_class_3: "infer_l7_class_3 env ctx c ks = (act, c1, ks1) \<Longrightarrow> quiet ks ks1"
  by (auto simp: infer_l7_class_3_def Let_def intro!: quiet_store_inference split: prod.splits if_splits)

lemma quiet_proto_infer_2: "quiet ks (snd (proto_infer_2 env ks))"
  by (auto simp: proto_infer_2_def dest!: quiet_class_2 split: option.split prod.split)

lemma quiet_proto_infer_3: "quiet ks (snd (proto_infer_3 env ks))"
  by (auto simp: proto_infer_3_def dest!: quiet_class_3 split: option.split prod.split)

lemma quiet_phase_1: "quiet ks (snd (infer_offset_phase_1 env fd ks))"
  by (auto simp: infer_offset_phase_1_def Let_def split: option.split prod.split)

lemma quiet_phase_2: "quiet ks (snd (infer_offset_phase_2 env fd ks))"
  by (auto simp: infer_offset_phase_2_def Let_def split: option.split prod.split)

lemma quiet_preprocess: "quiet ks (preprocess_for_uprobe env dir fd count ks)"
  by (simp add: preprocess_for_uprobe_def Let_def quiet_upd)

lemma quiet_exit_socket: "quiet ks (exit_socket env fd ks)"
  using quiet_trace_key [of ks env 0 True]
  by (auto simp: exit_socket_def Let_def quiet_upd split: option.split prod.split)

section \<open>Steps that output events\<close>

text \<open>A program reaches the output: from 5.2 on by a call, before by a tail call, which may fail.\<close>

definition output_reached :: "kern_env \<Rightarrow> bool" where
  "output_reached env \<longleftrightarrow> ke_ver_5_2_plus env \<or> ke_tail_call env PROG_OUTPUT_DATA"

definition emits :: "kern_env \<Rightarrow> kern_state \<Rightarrow> kern_state \<Rightarrow> bool" where
  "emits env ks ks' \<longleftrightarrow> (\<exists>es. stream_step (ke_cpu env) es ks ks') \<and>
     (\<forall>c. (c = ke_cpu env \<longrightarrow> output_reached env) \<longrightarrow> refcnts ks' c = refcnts ks c)"

lemma quiet_stream: "quiet ks ks' \<Longrightarrow> cpu_stream c ks' = cpu_stream c ks \<and> ks_data_buf ks' = ks_data_buf ks"
  by (simp add: quiet_def cpu_stream_def sent_events_def)

lemma quiet_step: "buffer_ok cpu ks \<Longrightarrow> quiet ks ks' \<Longrightarrow> stream_step cpu [] ks ks'"
  using quiet_stream [of ks ks'] by (auto simp: stream_step_def buffer_ok_def)

lemma quiet_emits: "buffer_ok (ke_cpu env) ks \<Longrightarrow> quiet ks ks' \<Longrightarrow> emits env ks ks'"
  using quiet_step [of "ke_cpu env" ks ks'] by (auto simp: emits_def quiet_def)

lemma quiet_ok: "quiet ks ks' \<Longrightarrow> buffer_ok cpu ks' = buffer_ok cpu ks"
  by (simp add: quiet_def buffer_ok_def)

lemma emits_trans: "emits env ks ks1 \<Longrightarrow> emits env ks1 ks2 \<Longrightarrow> emits env ks ks2"
  using stream_step_trans by (fastforce simp: emits_def)

lemma step_ok: "stream_step cpu es ks ks' \<Longrightarrow> buffer_ok cpu ks'"
  by (simp add: stream_step_def buffer_ok_def split: option.split)

lemma emits_ok: "emits env ks ks' \<Longrightarrow> buffer_ok (ke_cpu env) ks'"
  by (auto simp: emits_def dest: step_ok)

lemma emits_quiet: "emits env ks ks1 \<Longrightarrow> quiet ks1 ks2 \<Longrightarrow> emits env ks ks2"
  using emits_trans quiet_emits emits_ok by blast

lemma quiet_then: "buffer_ok (ke_cpu env) ks \<Longrightarrow> quiet ks ks1 \<Longrightarrow> (buffer_ok (ke_cpu env) ks1 \<Longrightarrow> emits env ks1 ks2) \<Longrightarrow> emits env ks ks2"
  using emits_trans quiet_emits quiet_ok by blast

text \<open>The reference count: raised when a header is prepared, lowered by the output.\<close>

lemma refcnts_upd_refcnt: "refcnts (upd_refcnt env d ks) = (refcnts ks)(ke_cpu env := map_option ((+) d) (refcnts ks (ke_cpu env)))"
  by (rule ext) (simp add: refcnts_def upd_refcnt_def upd_tracer_def option.map_comp o_def add.commute)

lemma refcnts_back: "refcnts (upd_refcnt env (-1) ks1) = refcnts ks" if "refcnts ks1 = refcnts (upd_refcnt env 1 ks)"
  using that by (simp add: refcnts_upd_refcnt option.map_comp o_def option.map_ident fun_eq_iff)

lemma refcnts_frame [simp]:
  "refcnts (set_data_buf env b ks) = refcnts ks" "refcnts (perf_output env b ks) = refcnts ks"
  "refcnts (del_read_args pt ks) = refcnts ks" "refcnts (del_write_args pt ks) = refcnts ks"
  "refcnts (upd_stats g ks) = refcnts ks"
  by (simp_all add: refcnts_def fun_eq_iff upd_stats_def set_data_buf_def perf_output_def del_read_args_def del_write_args_def)

lemma refcnts_finalize [simp]: "refcnts (finalize_data_output env ct df b ks) = refcnts ks"
  by (simp add: finalize_data_output_def Let_def refcnts_upd_tracer)

lemma refcnts_extra [simp]: "refcnts (output_extra_data_common env args v m r ks) = refcnts ks"
  by (auto simp: output_extra_data_common_def Let_def split: option.split prod.split)

lemma refcnts_output_finish [simp]: "refcnts (output_finish env args b v m r t ks) = refcnts ks"
  by (simp add: output_finish_def Let_def)

lemma refcnts_output_event [simp]: "refcnts (output_event env args vecs m cl r b t ks) = refcnts ks"
  by (simp add: output_event_def Let_def split: option.split prod.split)

lemma refcnts_upd_refcnt_cong: "refcnts ks = refcnts ks' \<Longrightarrow> refcnts (upd_refcnt env d ks) = refcnts (upd_refcnt env d ks')"
  by (simp add: refcnts_upd_refcnt)

lemma refcnts_output_5_2: "refcnts (output_data_common_5_2 env args vecs m cl r t ks) = refcnts (upd_refcnt env (-1) ks)"
  unfolding output_data_common_5_2_def
  by (intro refcnts_upd_refcnt_cong) (simp split: option.split)

lemma refcnts_output_pre_5_2: "refcnts (output_data_common env ks) = refcnts (upd_refcnt env (-1) ks)"
proof (cases "ks_tracer ks (ke_cpu env)")
  case None
  then show ?thesis by (simp add: output_data_common_def current_tracer_def refcnts_upd_refcnt fun_eq_iff) (simp add: refcnts_def)
next
  case (Some t)
  then show ?thesis
    by (auto simp: output_data_common_def current_tracer_def Let_def intro: refcnts_upd_refcnt_cong split: option.split)
qed

lemma emits_output_5_2:
  assumes "stream_step (ke_cpu env) es ks ks1" "refcnts ks1 = refcnts (upd_refcnt env 1 ks)"
  shows "emits env ks (output_data_common_5_2 env args vecs m cl r t ks1)"
  using output_5_2_stream [OF step_ok [OF assms(1)], of args vecs m cl r t] stream_step_trans [OF assms(1)]
    refcnts_back [OF assms(2)] refcnts_output_5_2 [of env args vecs m cl r t ks1]
  by (auto simp: emits_def)

lemma emits_output_pre_5_2:
  assumes "stream_step (ke_cpu env) es ks ks1" "refcnts ks1 = refcnts (upd_refcnt env 1 ks)"
  shows "emits env ks (output_data_common env ks1)"
  using output_pre_5_2_stream [OF step_ok [OF assms(1)]] stream_step_trans [OF assms(1)]
    refcnts_back [OF assms(2)] refcnts_output_pre_5_2 [of env ks1]
  by (auto simp: emits_def)

text \<open>A header prepared behind the events of the buffer.\<close>

lemma prepared_step:
  assumes "ks_data_buf ks (ke_cpu env) = Some b" "sb_ok b" "agree_on (unat (sb_len b)) (sb_data b) d"
  shows "stream_step (ke_cpu env) [] ks (set_data_buf env (b\<lparr>sb_data := d, sb_context := x\<rparr>) ks)"
proof (rule stream_step_append [OF assms(1)])
  have "sb_wf b" using assms(2) by (simp add: sb_ok_def)
  then show "sb_events (b\<lparr>sb_data := d, sb_context := x\<rparr>) = sb_events b @ []" "sb_ok (b\<lparr>sb_data := d, sb_context := x\<rparr>)"
    using load_events_cong [OF assms(3), of "unat (sb_events_num b)" 0] assms(2)
    by (simp_all add: sb_events_def sb_ok_def sb_wf_def)
qed

lemma store_agrees: "sd_wf v \<Longrightarrow> agree_on off b (sd_store b off v)"
  by (simp add: agree_on_def sd_store_out)

section \<open>Submission\<close>

lemma length_overwrite [simp]: "length ys \<le> length xs \<Longrightarrow> length (overwrite xs ys) = length xs"
  by (simp add: overwrite_def)

lemma length_bytes_at [simp]: "length (bytes_at b off n) = n"
  by (simp add: bytes_at_def)

lemma wf_get_socket_info: "get_socket_info env ks c v = Some v' \<Longrightarrow> sd_wf v \<Longrightarrow> sd_wf v'"
  by (auto simp: get_socket_info_def Let_def sd_wf_def split: if_splits option.splits)

lemma wf_set_peer_address: "sd_wf v \<Longrightarrow> sd_wf (set_peer_address c args v)"
  by (simp add: set_peer_address_def sd_wf_def)

lemma wf_set_tcp_seq: "sd_wf v \<Longrightarrow> sd_wf (set_tcp_seq c args extra v)"
  by (simp add: set_tcp_seq_def Let_def sd_wf_def)

lemma sd_wf_fields [simp]:
  "sd_wf (v\<lparr>sd_l4_protocol := a\<rparr>) = sd_wf v" "sd_wf (v\<lparr>sd_dport := b\<rparr>) = sd_wf v"
  "sd_wf (v\<lparr>sd_num := b\<rparr>) = sd_wf v" "sd_wf (v\<lparr>sd_data_type := b\<rparr>) = sd_wf v"
  "sd_wf (v\<lparr>sd_socket_role := a\<rparr>) = sd_wf v" "sd_wf (v\<lparr>sd_socket_id := d\<rparr>) = sd_wf v"
  "sd_wf (v\<lparr>sd_tgid := c\<rparr>) = sd_wf v" "sd_wf (v\<lparr>sd_is_tls := e\<rparr>) = sd_wf v" "sd_wf (v\<lparr>sd_pid := c\<rparr>) = sd_wf v"
  "sd_wf (v\<lparr>sd_fd := c\<rparr>) = sd_wf v" "sd_wf (v\<lparr>sd_timestamp := d\<rparr>) = sd_wf v"
  "sd_wf (v\<lparr>sd_cap_timestamp := d\<rparr>) = sd_wf v" "sd_wf (v\<lparr>sd_direction := e\<rparr>) = sd_wf v"
  "sd_wf (v\<lparr>sd_syscall_len := d\<rparr>) = sd_wf v" "sd_wf (v\<lparr>sd_msg_type := f\<rparr>) = sd_wf v"
  "sd_wf (v\<lparr>sd_thread_trace_id := d\<rparr>) = sd_wf v" "sd_wf (v\<lparr>sd_coroutine_id := d\<rparr>) = sd_wf v"
  "sd_wf (v\<lparr>sd_source := a\<rparr>) = sd_wf v" "sd_wf (v\<lparr>sd_tcp_seq := c\<rparr>) = sd_wf v"
  by (simp_all add: sd_wf_def)

lemma sd_wf_comm: "sd_wf v \<Longrightarrow> sd_wf (v\<lparr>sd_comm := bytes_at b off 16\<rparr>)"
  by (simp add: sd_wf_def)

lemma wf_fill_header: "sd_wf v \<Longrightarrow> sd_wf (fill_header env ks c args len ts extra uid allow seq tid goid v)"
  unfolding fill_header_def Let_def
  by (simp add: wf_set_tcp_seq sd_wf_comm wf_set_peer_address)

text \<open>A header prepared by a program before 5.2 is waiting for the output program.\<close>

definition pending :: "kern_env \<Rightarrow> kern_state \<Rightarrow> kern_state \<Rightarrow> bool" where
  "pending env ks ks' \<longleftrightarrow> stream_step (ke_cpu env) [] ks ks' \<and> refcnts ks' = refcnts (upd_refcnt env 1 ks)"

lemma pending_output:
  assumes "pending env ks ks'" "\<not> ke_ver_5_2_plus env"
  shows "emits env ks (tail_output env ks')"
proof (cases "ke_tail_call env PROG_OUTPUT_DATA")
  case True
  then show ?thesis using emits_output_pre_5_2 assms(1) by (auto simp: pending_def tail_output_def)
next
  case False
  then show ?thesis
    using assms by (auto simp: pending_def tail_output_def emits_def output_reached_def refcnts_upd_refcnt)
qed

lemma pending_trans: "buffer_ok (ke_cpu env) ks \<Longrightarrow> quiet ks ks1 \<Longrightarrow> pending env ks1 ks2 \<Longrightarrow> pending env ks ks2"
  using stream_step_trans [of "ke_cpu env" "[]" ks ks1 "[]" ks2] quiet_step [of "ke_cpu env" ks ks1]
    refcnts_upd_refcnt_cong [of ks1 ks env 1] by (auto simp: pending_def quiet_def)

text \<open>A program's contract, by version: from 5.2 on it has output its events; before, it leaves a header if it
  says so.\<close>

definition submits :: "kern_env \<Rightarrow> kern_state \<Rightarrow> submit_result \<times> kern_state \<Rightarrow> bool" where
  "submits env ks r \<longleftrightarrow>
     (if fst r = SUBMIT_OK then (if ke_ver_5_2_plus env then emits env ks (snd r) else pending env ks (snd r))
      else quiet ks (snd r))"

lemma submits_trans: "buffer_ok (ke_cpu env) ks \<Longrightarrow> quiet ks ks1 \<Longrightarrow> submits env ks1 r \<Longrightarrow> submits env ks r"
  using quiet_then [of env ks ks1] pending_trans [of env ks ks1] quiet_trans by (auto simp: submits_def)

text \<open>The common end of the programs that prepare a header.\<close>

abbreviation prepare :: "kern_env \<Rightarrow> socket_data_buffer \<Rightarrow> socket_data \<Rightarrow> tail_calls_context \<Rightarrow> kern_state \<Rightarrow> kern_state" where
  "prepare env b v x ks \<equiv>
     set_data_buf env (b\<lparr>sb_data := sd_store (sb_data b) (unat (sb_len b)) v, sb_context := x\<rparr>) (upd_refcnt env 1 ks)"

lemma prepared:
  assumes "buffer_ok (ke_cpu env) ks" "quiet ks ks1" "ks_data_buf ks (ke_cpu env) = Some b" "sd_wf v"
  shows "pending env ks (prepare env b v x ks1)"
proof -
  have b: "ks_data_buf (upd_refcnt env 1 ks1) (ke_cpu env) = Some b" "sb_ok b"
    using assms by (simp_all add: quiet_def buffer_ok_def upd_refcnt_def)
  have "stream_step (ke_cpu env) [] ks (upd_refcnt env 1 ks1)"
    by (intro stream_step_frame quiet_step) (use assms in simp_all)
  from stream_step_trans [OF this prepared_step [OF b store_agrees [OF assms(4)]]]
  show ?thesis using assms(2) refcnts_upd_refcnt_cong [of ks1 ks env 1] by (simp add: quiet_def pending_def)
qed

lemma prepared_same:
  assumes "buffer_ok (ke_cpu env) ks" "quiet ks ks1" "ks_data_buf ks (ke_cpu env) = Some b" "sd_wf v"
  shows "pending env ks (set_data_buf env (b\<lparr>sb_data := sd_store (sb_data b) (unat (sb_len b)) v\<rparr>) (upd_refcnt env 1 ks1))"
  using prepared [OF assms, of "sb_context b"] by simp

lemma pending_output_5_2: "pending env ks ks' \<Longrightarrow> emits env ks (output_data_common_5_2 env args vecs m cl r t ks')"
  using emits_output_5_2 by (auto simp: pending_def)

lemma pending_quiet_ops [simp]: "pending env ks (upd_infer_cache env pr ks') = pending env ks ks'"
  by (simp add: pending_def stream_step_def upd_infer_cache_def Let_def cpu_stream_def sent_events_def refcnts_def fun_eq_iff)

lemma quiet_socket_update: "socket_update env t c len ts extra s tid ks = (uid, allow, seq, send, tid', ks1) \<Longrightarrow> quiet ks ks1"
  using quiet_trans [OF _ quiet_pass_trace] by (auto simp: socket_update_def Let_def split: option.splits if_splits prod.splits)

lemma submits_event:
  assumes ok: "buffer_ok (ke_cpu env) ks"
  shows "submits env ks (submit_event env t c args vecs len ts extra s tid goid ks)"
proof (cases "ks_data_buf ks (ke_cpu env)")
  case None
  then show ?thesis by (simp add: submit_event_def current_data_buf_def submits_def)
next
  case (Some b)
  show ?thesis
  proof (cases "sb_len b > BUFFER_LIMIT \<or> get_socket_info env ks c (sd_load (sb_data b) (unat (sb_len b))) = None")
    case True
    then show ?thesis using Some by (auto simp: submit_event_def current_data_buf_def submits_def)
  next
    case False
    then obtain v where v: "get_socket_info env ks c (sd_load (sb_data b) (unat (sb_len b))) = Some v" "sd_wf v"
      using wf_get_socket_info sd_wf_load by blast
    obtain uid allow seq send tid' ks1 where
      u: "socket_update env t c len ts extra s tid ks = (uid, allow, seq, send, tid', ks1)" by (metis surj_pair)
    have "quiet ks ks1" using u by (rule quiet_socket_update)
    from prepared [OF ok this Some wf_fill_header] prepared_same [OF ok this Some wf_fill_header]
    show ?thesis using False Some v u
      by (auto simp: submit_event_def current_data_buf_def submits_def intro!: pending_output_5_2)
  qed
qed

lemma quiet_submit_trace: "submit_trace env t c ts extra ks = (goid, tid, ks1) \<Longrightarrow> quiet ks ks1"
proof -
  assume *: "submit_trace env t c ts extra ks = (goid, tid, ks1)"
  define no_key where "no_key = (ke_ver_5_2_plus env \<and> ci_no_trace c)"
  obtain key ks0 where k: "(if no_key then (\<lparr>tk_tgid = 0, tk_pid = 0, tk_goid = 0\<rparr>, ks)
      else get_trace_key env (ucast (tc_go_tracing_timeout t)) True ks) = (key, ks0)" by (metis surj_pair)
  have q: "quiet ks ks0" using k quiet_trace_key [of ks env "ucast (tc_go_tracing_timeout t)" True] by (auto split: if_splits)
  show ?thesis
    using * k quiet_trans [OF q quiet_trace_process] q
    by (auto simp: submit_trace_def Let_def no_key_def [symmetric] split: prod.splits if_splits dest!: arg_cong [of _ _ snd])
qed

lemma quiet_submit_register: "submit_register env t c args len ts extra tid ks = (tid', ks1) \<Longrightarrow> quiet ks ks1"
  by (auto simp: submit_register_def Let_def quiet_add_socket_info split: if_splits)

lemma submits_common:
  assumes ok: "buffer_ok (ke_cpu env) ks"
  shows "submits env ks (data_submit_common env c0 args vecs len ts extra ks)"
proof (cases "current_tracer env ks")
  case None
  then show ?thesis by (simp add: data_submit_common_def submits_def)
next
  case (Some t)
  define c where "c = (if tc_disable_tracing t then c0\<lparr>ci_no_trace := True\<rparr> else c0)"
  obtain goid tid ks1 where a: "submit_trace env t c ts extra ks = (goid, tid, ks1)" by (metis surj_pair)
  obtain tid' ks2 where b: "submit_register env t c args len ts extra tid ks1 = (tid', ks2)" by (metis surj_pair)
  have q: "quiet ks ks2" using quiet_trans [OF quiet_submit_trace [OF a] quiet_submit_register [OF b]] .
  have "submits env ks (submit_event env t c args vecs len ts extra s tid' goid ks2)" for s
    using submits_trans [OF ok q] submits_event [of env ks2] quiet_ok [OF q] ok by blast
  then show ?thesis
    using Some a b q
    by (simp add: data_submit_common_def c_def [symmetric]) (auto simp: submits_def quiet_delete_socket_info)
qed

section \<open>File events\<close>

lemma wf_set_file_metric_data: "set_file_metric_data env ks fd off (b, v) = (b', v') \<Longrightarrow> sd_wf v \<Longrightarrow> sd_wf v'"
  by (auto simp: set_file_metric_data_def Let_def split: option.splits if_splits prod.splits)

lemma wf_io_header: "sd_wf v \<Longrightarrow> sd_wf (io_header env args goid tid v)"
  by (simp add: io_header_def sd_wf_comm)

lemma emits_io:
  assumes ok: "buffer_ok (ke_cpu env) ks"
  shows "emits env ks (fst (trace_io_event_common env offset args dir ks))"
proof -
  have self: "emits env ks ks" by (rule quiet_emits [OF ok]) simp
  show ?thesis
  proof (cases "sint (da_bytes_count args) \<le> 0 \<or> (\<forall>t. current_tracer env ks = Some t \<longrightarrow> tc_io_event_collect_mode t = 0)")
    case True
    then show ?thesis using self by (auto simp: trace_io_event_common_def split: option.split)
  next
    case False
    then obtain t where t: "current_tracer env ks = Some t" "tc_io_event_collect_mode t \<noteq> 0" "\<not> sint (da_bytes_count args) \<le> 0"
      by blast
    obtain key ks1 where k: "get_trace_key env (ucast (tc_go_tracing_timeout t)) False ks = (key, ks1)" by (metis surj_pair)
    have q: "quiet ks ks1" using k quiet_trace_key [of ks env "ucast (tc_go_tracing_timeout t)" False] by simp
    define tid where "tid = (case ks_trace ks1 key of Some ti \<Rightarrow> ti_thread_trace_id ti | None \<Rightarrow> 0)"
    show ?thesis
    proof (cases "\<exists>latency buffer. io_event_wanted env ks1 t offset args tid = Some latency \<and> ks_io_buffer ks1 (ke_cpu env) = Some buffer")
      case False
      then have "fst (trace_io_event_common env offset args dir ks) = ks1"
        using t k by (auto simp: trace_io_event_common_def tid_def [symmetric] split: option.splits)
      then show ?thesis using quiet_emits [OF ok q] by simp
    next
      case True
      then obtain latency buffer where w: "io_event_wanted env ks1 t offset args tid = Some latency"
        "ks_io_buffer ks1 (ke_cpu env) = Some buffer" by blast
      define b1 where "b1 = st_bytes (st_bytes (st_bytes buffer 0 (le32 (ucast (da_bytes_count args))))
                                   8 (le64 latency)) 4 (le32 (if dir = T_INGRESS then 1 else 0))"
      define ks2 where "ks2 = set_io_buffer env b1 ks1"
      have q2: "quiet ks ks2" using q by (simp add: ks2_def)
      obtain b2 v where m: "set_file_metric_data env ks2 (da_fd args) offset (b1, sd_load (\<lambda>_. 0) 0) = (b2, v)" by (metis surj_pair)
      have wf: "sd_wf (io_header env args g tid v)" for g
        using wf_set_file_metric_data [OF m] by (simp add: wf_io_header)
      have q3: "quiet ks (set_io_buffer env b2 ks2)" using q2 by simp
      show ?thesis
      proof (cases "ks_data_buf ks2 (ke_cpu env)")
        case None
        then show ?thesis using t k w quiet_emits [OF ok q2]
          by (simp add: trace_io_event_common_def tid_def [symmetric] b1_def [symmetric] ks2_def [symmetric] current_data_buf_def Let_def)
      next
        case (Some vb)
        then have "ks_data_buf ks (ke_cpu env) = Some vb" using q2 by (simp add: quiet_def)
        note pend = prepared [OF ok q3 this wf] prepared_same [OF ok q3 this wf]
        show ?thesis using t k w Some m quiet_emits [OF ok q2] pending_output [OF pend(1)] pending_output_5_2 [OF pend(2)]
          by (simp add: trace_io_event_common_def tid_def [symmetric] b1_def [symmetric] ks2_def [symmetric] current_data_buf_def Let_def)
      qed
    qed
  qed
qed

lemma emits_del: "emits env ks ks1 \<Longrightarrow> emits env ks (del_read_args pt ks1)" "emits env ks ks1 \<Longrightarrow> emits env ks (del_write_args pt ks1)"
  "emits env ks ks1 \<Longrightarrow> emits env ks (del_dir_args env dir ks1)" "emits env ks ks1 \<Longrightarrow> emits env ks (set_dir_args env dir a ks1)"
  by (rule emits_quiet, assumption, simp)+

lemma emits_io_event: "buffer_ok (ke_cpu env) ks \<Longrightarrow> emits env ks (io_event env ks)"
  using emits_io [of env ks None _ T_INGRESS] emits_io [of env ks None _ T_EGRESS] quiet_emits [of env ks ks] emits_del
  by (auto simp: io_event_def split_beta split: option.split)

lemma submits_emits: "ke_ver_5_2_plus env \<Longrightarrow> buffer_ok (ke_cpu env) ks \<Longrightarrow> submits env ks r \<Longrightarrow> emits env ks (snd r)"
  using quiet_emits by (auto simp: submits_def split: if_splits)

section \<open>System calls\<close>

lemma emits_process_conn:
  assumes ok: "buffer_ok (ke_cpu env) ks"
  shows "emits env ks (snd (process_conn env dir args n extra dk c ks))"
proof (cases "ks_ctx_info ks (ke_cpu env)")
  case None
  then show ?thesis using quiet_emits [OF ok] by (simp add: process_conn_def)
next
  case (Some ctx)
  define c1 where "c1 = (if port_listed (ke_kprobe_port_bitmap env 0) c then c\<lparr>ci_protocol := PROTO_CUSTOM\<rparr> else c)"
  obtain act ctx1 c2 ks1 where i: "infer_l7_class_1 env args n extra ctx c1 ks = (act, ctx1, c2, ks1)" by (metis surj_pair)
  note q = quiet_class_1 [OF i]
  have s: "emits env ks (snd (data_submit_common env c' args vecs len ts extra ks1))" if "ke_ver_5_2_plus env" for c' vecs len ts
    using quiet_then [OF ok q] submits_emits [OF that] submits_common by blast
  show ?thesis
    using Some i s q quiet_emits [OF ok]
    by (simp add: process_conn_def c1_def [symmetric] Let_def)
qed

lemma emits_process_data:
  assumes ok: "buffer_ok (ke_cpu env) ks"
  shows "emits env ks (snd (snd (process_data env dir args n extra ks)))"
proof (cases "current_offset env ks")
  case None
  then show ?thesis using quiet_emits [OF ok] by (simp add: process_data_def)
next
  case (Some off)
  define ks1 where "ks1 = (if ke_ver_5_2_plus env then preprocess_for_uprobe env dir (da_fd args) n ks else ks)"
  have q: "quiet ks ks1" by (simp add: ks1_def quiet_preprocess)
  have p: "emits env ks (snd (process_conn env dir a n extra dk c ks1))" for a dk c
    using quiet_then [OF ok q] emits_process_conn by blast
  show ?thesis
    using Some emits_io [OF ok] quiet_emits [OF ok] quiet_emits [OF ok q] p
    by (simp add: process_data_def Let_def ks1_def [symmetric] split_beta)
qed

lemma submits_data_submit: "buffer_ok (ke_cpu env) ks \<Longrightarrow> submits env ks (data_submit env ks)"
proof -
  have "submits env ks (SUBMIT_ABORT, ks)" by (simp add: submits_def)
  then show "buffer_ok (ke_cpu env) ks \<Longrightarrow> ?thesis"
    by (simp add: data_submit_def Let_def submits_common split: option.split)
qed

lemma emits_run_data_submit:
  assumes ok: "buffer_ok (ke_cpu env) ks" and v: "\<not> ke_ver_5_2_plus env"
  shows "emits env ks (run_data_submit kp env ks)"
proof -
  obtain r ks1 where d: "data_submit env ks = (r, ks1)" by (metis surj_pair)
  have s: "submits env ks (r, ks1)"
    using submits_data_submit [OF ok] d by simp
  have io: "emits env ks (io_event env ks1)" if "quiet ks ks1"
    using quiet_then [OF ok that] emits_io_event by blast
  show ?thesis
    using d s v io pending_output [of env ks ks1] quiet_emits [OF ok]
    by (cases r) (simp_all add: run_data_submit_def submits_def)
qed

lemma emits_run_3:
  assumes ok: "buffer_ok (ke_cpu env) ks" and v: "\<not> ke_ver_5_2_plus env"
  shows "emits env ks (run_proto_infer_3 kp env ks)"
  using quiet_then [OF ok quiet_proto_infer_3 emits_run_data_submit [OF _ v, of _ kp]] quiet_emits [OF ok quiet_proto_infer_3]
  by (simp add: run_proto_infer_3_def split_beta)

lemma emits_run_2:
  assumes ok: "buffer_ok (ke_cpu env) ks" and v: "\<not> ke_ver_5_2_plus env"
  shows "emits env ks (run_proto_infer_2 kp env ks)"
  using quiet_then [OF ok quiet_proto_infer_2 [of ks env] emits_run_data_submit [OF _ v, of _ kp]]
    quiet_then [OF ok quiet_proto_infer_2 [of ks env] emits_run_3 [OF _ v, of _ kp]] quiet_emits [OF ok quiet_proto_infer_2 [of ks env]]
  by (cases "proto_infer_2 env ks"; cases "fst (proto_infer_2 env ks)") (simp_all add: run_proto_infer_2_def)

lemma emits_process_syscall_data:
  assumes ok: "buffer_ok (ke_cpu env) ks"
  shows "emits env ks (process_syscall_data vecs env dir args n ks)"
proof -
  let ?extra = "\<lparr>ex_vecs = vecs, ex_is_go_process = is_current_go_process env, ex_source = DATA_SOURCE_SYSCALL\<rparr>"
  obtain r args1 ks1 where p: "process_data env dir args n ?extra (set_dir_args env dir args ks) = (r, args1, ks1)" by (metis surj_pair)
  have "quiet ks (set_dir_args env dir args ks)" by simp
  then have e1: "emits env ks ks1"
    using quiet_then [OF ok] emits_process_data [of env "set_dir_args env dir args ks" dir args n ?extra] p by fastforce
  define ks2 where "ks2 = set_dir_args env dir args1 ks1"
  have e: "emits env ks ks2" using e1 unfolding ks2_def by (rule emits_del)
  note ok2 = emits_ok [OF e]
  have "emits env ks (case r of
              PD_DONE \<Rightarrow> if ke_tail_call env PROG_DATA_SUBMIT then run_data_submit False env ks2 else del_dir_args env dir ks2
            | PD_IO_EVENT \<Rightarrow> if ke_tail_call env PROG_IO_EVENT then io_event env ks2 else del_dir_args env dir ks2
            | PD_INFER_2 \<Rightarrow> run_proto_infer_2 False env ks2 | PD_REJECTED \<Rightarrow> del_dir_args env dir ks2)" if "\<not> ke_ver_5_2_plus env"
    using emits_trans [OF e] emits_run_data_submit [OF ok2 that] emits_run_2 [OF ok2 that] emits_io_event [OF ok2] emits_del(3) [OF e]
    by (auto split: process_result.split)
  then show ?thesis
    using p emits_del(3) [OF e1] unfolding ks2_def
    by (cases "ke_ver_5_2_plus env") (simp_all add: process_syscall_data_def Let_def)
qed

lemma emits_push_close:
  assumes ok: "buffer_ok (ke_cpu env) ks"
  shows "emits env ks (push_close_event env uid seq l7 fd source ks)"
proof (cases "\<exists>t b. current_tracer env ks = Some t \<and> current_data_buf env ks = Some b \<and> \<not> sb_len b > BUFFER_LIMIT")
  case False
  then have "push_close_event env uid seq l7 fd source ks = ks"
    by (auto simp: push_close_event_def split: option.split)
  then show ?thesis using quiet_emits [OF ok, of ks] by simp
next
  case True
  then obtain t b where t: "current_tracer env ks = Some t" "ks_data_buf ks (ke_cpu env) = Some b" "\<not> sb_len b > BUFFER_LIMIT"
    by (auto simp: current_data_buf_def)
  show ?thesis
    unfolding push_close_event_def
    using t pending_output [OF prepared [OF ok quiet_refl t(2)]] pending_output_5_2 [OF prepared_same [OF ok quiet_refl t(2)]]
    by (simp add: current_data_buf_def Let_def sd_wf_comm)
qed

lemma emits_enter_close:
  assumes ok: "buffer_ok (ke_cpu env) ks"
  shows "emits env ks (enter_close env fd ks)"
proof -
  obtain r ks1 where p: "infer_offset_phase_2 env fd ks = (r, ks1)" by (metis surj_pair)
  have q: "quiet ks ks1" using quiet_phase_2 [of ks env fd] p by simp
  have self: "emits env ks ks" "emits env ks ks1" using quiet_emits [OF ok] q by simp_all
  have "emits env ks (push_close_event env a b c d e (delete_socket_info k sp (upd_socket k' f ks1)))" for a b c d e k sp k' f
  proof -
    have "quiet ks (delete_socket_info k sp (upd_socket k' f ks1))"
      using quiet_trans [of ks "upd_socket k' f ks1"] q quiet_delete_socket_info by simp
    from quiet_then [OF ok this emits_push_close] show ?thesis .
  qed
  then show ?thesis using self p q quiet_emits [OF ok]
    by (simp add: enter_close_def Let_def quiet_upd split: option.split)
qed

section \<open>Runs\<close>

text \<open>A system call as the programs see it: its entry with the arguments they use, or its exit with the result.\<close>

datatype sys_event =
    Enter_write u32 u64 | Exit_write u64 | Enter_read u32 u64 | Exit_read u64
  | Enter_sendto u32 u64 u64 | Exit_sendto u64 | Enter_recvfrom u32 u64 u32 u64 | Exit_recvfrom u64
  | Enter_sendmsg u32 u64 | Exit_sendmsg u64 | Enter_sendmmsg u32 u64 u32 | Exit_sendmmsg u32
  | Enter_recvmsg u32 u64 u32 | Exit_recvmsg u64 | Enter_recvmmsg u32 u64 u32 u32 | Exit_recvmmsg u32
  | Enter_writev u32 u64 u32 | Exit_writev u64 | Enter_readv u32 u64 u32 | Exit_readv u64
  | Enter_pread u32 syscall_src_func | Exit_pread u64 | Enter_pwrite u32 syscall_src_func | Exit_pwrite u64
  | Enter_close u32 | Exit_socket u64 | Exit_accept u32 | Enter_connect u32 | Enter_getppid

fun handle :: "kern_env \<Rightarrow> sys_event \<Rightarrow> kern_state \<Rightarrow> kern_state" where
  "handle env (Enter_write fd buf) = do_sys_enter_write env fd buf"
| "handle env (Exit_write n) = do_sys_exit_write env n"
| "handle env (Enter_read fd buf) = do_sys_enter_read env fd buf"
| "handle env (Exit_read n) = do_sys_exit_read env n"
| "handle env (Enter_sendto fd buf addr) = do_sys_enter_sendto env fd buf addr"
| "handle env (Exit_sendto n) = do_sys_exit_sendto env n"
| "handle env (Enter_recvfrom fd buf flags addr) = do_sys_enter_recvfrom env fd buf flags addr"
| "handle env (Exit_recvfrom n) = do_sys_exit_recvfrom env n"
| "handle env (Enter_sendmsg fd msg) = enter_sendmsg env fd msg"
| "handle env (Exit_sendmsg n) = exit_sendmsg env n"
| "handle env (Enter_sendmmsg fd msgs vlen) = enter_sendmmsg env fd msgs vlen"
| "handle env (Exit_sendmmsg k) = exit_sendmmsg env k"
| "handle env (Enter_recvmsg fd msg flags) = enter_recvmsg env fd msg flags"
| "handle env (Exit_recvmsg n) = exit_recvmsg env n"
| "handle env (Enter_recvmmsg fd msgs vlen flags) = enter_recvmmsg env fd msgs vlen flags"
| "handle env (Exit_recvmmsg k) = exit_recvmmsg env k"
| "handle env (Enter_writev fd iov k) = enter_writev env fd iov k"
| "handle env (Exit_writev n) = exit_writev env n"
| "handle env (Enter_readv fd iov k) = enter_readv env fd iov k"
| "handle env (Exit_readv n) = exit_readv env n"
| "handle env (Enter_pread fd fn) = do_sys_enter_pread env fd fn"
| "handle env (Exit_pread n) = do_sys_exit_pread env n"
| "handle env (Enter_pwrite fd fn) = do_sys_enter_pwrite env fd fn"
| "handle env (Exit_pwrite n) = do_sys_exit_pwrite env n"
| "handle env (Enter_close fd) = enter_close env fd"
| "handle env (Exit_socket fd) = exit_socket env fd"
| "handle env (Exit_accept fd) = exit_accept env fd"
| "handle env (Enter_connect fd) = enter_connect env fd"
| "handle env Enter_getppid = push_socket_data env"

inductive runs :: "(kern_env \<times> sys_event) list \<Rightarrow> kern_state \<Rightarrow> kern_state \<Rightarrow> bool" where
  runs_nil: "runs [] ks ks"
| runs_step: "runs evs ks ks1 \<Longrightarrow> ks2 = handle env e ks1 \<Longrightarrow> runs (evs @ [(env, e)]) ks ks2"

lemma emits_enters:
  assumes "buffer_ok (ke_cpu env) ks"
  shows "emits env ks (put_read_args env pt a ks)" "emits env ks (put_write_args env pt a ks)" "emits env ks ks"
  by (rule quiet_emits [OF assms]; simp)+

lemma emits_pread:
  assumes ok: "buffer_ok (ke_cpu env) ks"
  shows "emits env ks (do_sys_exit_pread env n ks)"
proof -
  have q: "emits env ks (fst (trace_io_event_common env off a dir (ks\<lparr>ks_read_args := m\<rparr>)))" for off a dir m
    by (rule quiet_then [OF ok _ emits_io]) (simp_all add: quiet_upd)
  show ?thesis using q emits_del [OF q] emits_enters(3) [OF ok] emits_del(1) [OF emits_enters(3) [OF ok]]
    by (simp add: do_sys_exit_pread_def Let_def split_beta split: option.split)
qed

lemma emits_pwrite:
  assumes ok: "buffer_ok (ke_cpu env) ks"
  shows "emits env ks (do_sys_exit_pwrite env n ks)"
proof -
  have q: "emits env ks (fst (trace_io_event_common env off a dir (ks\<lparr>ks_write_args := m\<rparr>)))" for off a dir m
    by (rule quiet_then [OF ok _ emits_io]) (simp_all add: quiet_upd)
  show ?thesis using q emits_del [OF q] emits_enters(3) [OF ok] emits_del(2) [OF emits_enters(3) [OF ok]]
    by (simp add: do_sys_exit_pwrite_def Let_def split_beta split: option.split)
qed

lemma emits_push:
  assumes ok: "buffer_ok (ke_cpu env) ks"
  shows "emits env ks (push_socket_data env ks)"
proof -
  have "refcnts (push_socket_data env ks) = refcnts ks"
    by (simp add: push_socket_data_def Let_def refcnts_upd_tracer split: option.split)
  then show ?thesis using push_stream [OF ok] by (auto simp: emits_def)
qed

lemma handle_emits:
  assumes ok: "buffer_ok (ke_cpu env) ks"
  shows "emits env ks (handle env e ks)"
proof -
  note self = emits_enters [OF ok] and sys = emits_process_syscall_data [OF ok] and del = emits_del [OF emits_enters(3) [OF ok]]
  have rest: "emits env ks (exit_socket env fd ks)" "emits env ks (set_socket_role env fd' r ks)"
    "emits env ks (snd (infer_offset_phase_1 env fd' ks))"
    "emits env ks (put_write_args env pt a (snd (infer_offset_phase_1 env fd' ks)))"
    "emits env ks (put_read_args env pt a (set_offset env off ks))" for fd fd' r pt a off
    using quiet_emits [OF ok] quiet_exit_socket quiet_phase_1 by simp_all
  show ?thesis
    by (cases e) (auto simp: self sys del rest emits_pread [OF ok] emits_pwrite [OF ok] emits_enter_close [OF ok] emits_push [OF ok]
        do_sys_enter_write_def do_sys_exit_write_def do_sys_enter_read_def do_sys_exit_read_def do_sys_enter_sendto_def
        do_sys_exit_sendto_def do_sys_enter_recvfrom_def do_sys_exit_recvfrom_def enter_sendmsg_def exit_sendmsg_def
        enter_sendmmsg_def exit_sendmmsg_def enter_recvmsg_def exit_recvmsg_def enter_recvmmsg_def exit_recvmmsg_def
        enter_writev_def exit_writev_def enter_readv_def exit_readv_def do_sys_enter_pread_def do_sys_enter_pwrite_def
        exit_accept_def enter_connect_def Let_def split_beta split: option.split)
qed

definition all_ok :: "kern_state \<Rightarrow> bool" where
  "all_ok ks \<longleftrightarrow> (\<forall>cpu. buffer_ok cpu ks)"

lemma emits_all:
  assumes "emits env ks ks'" "all_ok ks"
  shows "all_ok ks'" "prefix (cpu_stream cpu ks) (cpu_stream cpu ks')"
proof -
  obtain es where s: "stream_step (ke_cpu env) es ks ks'" using assms(1) by (auto simp: emits_def)
  have "buffer_ok c ks'" for c
    using s step_ok [OF s] assms(2) by (cases "c = ke_cpu env") (simp_all add: all_ok_def stream_step_def buffer_ok_def)
  then show "all_ok ks'" by (simp add: all_ok_def)
  show "prefix (cpu_stream cpu ks) (cpu_stream cpu ks')"
    using s by (cases "cpu = ke_cpu env") (auto simp: stream_step_def)
qed

lemma runs_keep:
  assumes "runs evs ks ks'" "all_ok ks"
  shows "all_ok ks' \<and> prefix (cpu_stream cpu ks) (cpu_stream cpu ks') \<and>
    ((\<forall>(env, e) \<in> set evs. ke_cpu env = cpu \<longrightarrow> output_reached env) \<longrightarrow> refcnts ks' cpu = refcnts ks cpu)"
  using assms
proof (induction rule: runs.induct)
  case (runs_nil ks)
  then show ?case by simp
next
  case (runs_step evs ks ks1 ks2 env e)
  have e: "emits env ks1 ks2" using runs_step handle_emits [of env ks1 e] by (simp add: all_ok_def)
  then have "refcnts ks2 cpu = refcnts ks1 cpu" if "ke_cpu env = cpu \<longrightarrow> output_reached env"
    using that by (auto simp: emits_def)
  then show ?case using runs_step emits_all(1) [OF e] emits_all(2) [OF e, of cpu] prefix_order.trans by auto
qed

text \<open>A program that has prepared a header and whose tail call of the output program fails leaves the count raised, which
  the condition on the count below excludes.\<close>

text \<open>C3: The programs compose. Whatever system calls run, on whatever CPUs and in whatever order, in both builds and
  with any results of the kernel helpers, failed tail calls and outputs included: every push buffer stays well formed and
  the stream of events of every CPU only grows at its end. When the programs that ran on a CPU reach the output program,
  as they do from 5.2 on and as long as its tail call does not fail before, the reference count of the CPU's buffer is in
  the end what it was, so that the periodic push is not left locked out.\<close>

theorem runs_only_append:
  assumes "runs evs ks ks'" "all_ok ks"
  shows "all_ok ks' \<and> prefix (cpu_stream cpu ks) (cpu_stream cpu ks') \<and>
    ((\<forall>(env, e) \<in> set evs. ke_cpu env = cpu \<longrightarrow> output_reached env) \<longrightarrow> refcnts ks' cpu = refcnts ks cpu)"
  using runs_keep [OF assms] .

lemma example_all_ok: "all_ok example_kstate"
  by (simp add: all_ok_def example_buffer_ok)

definition example_events :: "(kern_env \<times> sys_event) list" where
  "example_events = [(example_kenv True, Enter_write 5 0x8000), (example_kenv True, Exit_write 4)]"

definition example_after :: kern_state where
  "example_after = handle (example_kenv True) (Exit_write 4) (handle (example_kenv True) (Enter_write 5 0x8000) example_kstate)"

lemma example_runs: "runs example_events example_kstate example_after"
  using runs_step [OF runs_step [OF runs_nil refl] refl, of "example_kenv True" "Enter_write 5 0x8000" "example_kenv True"
      "Exit_write 4" example_kstate] by (simp add: example_events_def example_after_def)

theorem runs_only_append_witness:
  "all_ok example_after \<and> prefix (cpu_stream 0 example_kstate) (cpu_stream 0 example_after) \<and>
   refcnts example_after 0 = refcnts example_kstate 0"
proof -
  have "\<forall>(env, e) \<in> set example_events. ke_cpu env = 0 \<longrightarrow> output_reached env"
    by (simp add: example_events_def output_reached_def example_kenv_def)
  then show ?thesis using runs_only_append [OF example_runs example_all_ok, of 0] by blast
qed

text \<open>C1: Events are handed over. Take any run of the programs from a state whose buffers are well formed and where
  no output is under way on a CPU (its reference count is zero), the programs on that CPU having reached the output
  program. The next periodic push by the agent on that CPU, the statistics being there, leaves nothing behind: the buffer holds no event, and the whole stream of the CPU, with every event
  that was in it before the run, has been handed over to the perf ring. What the agent receives is a subsequence of
  it, since a batch that finds the ring full is lost; when the ring took every batch of the CPU, the agent receives the
  whole stream, in order.\<close>

theorem runs_then_push_delivers:
  assumes "runs evs ks ks'" "all_ok ks" "refcnts ks (ke_cpu env) = Some 0"
    and "\<forall>(env', e) \<in> set evs. ke_cpu env' = ke_cpu env \<longrightarrow> output_reached env'"
    and "check_pid_validity env" "ks_stats ks' = Some st" "ks'' = handle env Enter_getppid ks'"
  shows "sent_events (ke_cpu env) ks'' = cpu_stream (ke_cpu env) ks' \<and>
    (\<forall>b. ks_data_buf ks'' (ke_cpu env) = Some b \<longrightarrow> sb_events_num b = 0) \<and>
    prefix (cpu_stream (ke_cpu env) ks) (sent_events (ke_cpu env) ks'') \<and>
    subseq (received_events (ke_cpu env) ks'') (cpu_stream (ke_cpu env) ks') \<and>
    (none_lost (ke_cpu env) ks'' \<longrightarrow> received_events (ke_cpu env) ks'' = cpu_stream (ke_cpu env) ks')"
proof -
  note k = runs_keep [OF assms(1,2), of "ke_cpu env"]
  have "refcnts ks' (ke_cpu env) = Some 0" using k assms(3,4) by simp
  then obtain t where t: "ks_tracer ks' (ke_cpu env) = Some t" "tc_push_buffer_refcnt t = 0"
    by (auto simp: refcnts_def)
  have "sent_events (ke_cpu env) ks'' = cpu_stream (ke_cpu env) ks' \<and>
    (\<forall>b. ks_data_buf ks'' (ke_cpu env) = Some b \<longrightarrow> sb_events_num b = 0)"
  proof (cases "ks_data_buf ks' (ke_cpu env)")
    case None
    then show ?thesis using t assms(5-7)
      by (simp add: push_socket_data_def Let_def current_data_buf_def current_tracer_def cpu_stream_def)
  next
    case (Some b)
    then have "sb_ok b" using k by (auto simp: all_ok_def buffer_ok_def split: option.splits)
    then show ?thesis using push_delivers [OF assms(5) t(1) assms(6) t(2) Some] assms(7) by auto
  qed
  then show ?thesis using k received_subseq [of "ke_cpu env" ks''] received_all [of "ke_cpu env" ks''] by simp
qed

text \<open>A buffer with one event that has no payload, and a run that starts with it waiting.\<close>

definition example_one_event :: socket_data_buffer where
  "example_one_event = example_buffer\<lparr>sb_events_num := 1, sb_len := 153\<rparr>"

definition example_waiting_state :: kern_state where
  "example_waiting_state = example_kstate\<lparr>ks_data_buf := [0 \<mapsto> example_one_event]\<rparr>"

lemma example_waiting_ok: "all_ok example_waiting_state"
  by (simp add: all_ok_def buffer_ok_def example_waiting_state_def example_one_event_def example_buffer_def sb_ok_def
      sb_wf_def SD_HEADER_def BURST_DATA_BUF_SIZE_def next_event_def sd_load_def ld_u16_def)

theorem runs_then_push_delivers_witness:
  "received_events 0 (handle (example_kenv True) Enter_getppid
     (handle (example_kenv True) (Enter_connect 5) example_waiting_state)) = cpu_stream 0 example_waiting_state"
proof -
  let ?env = "example_kenv True"
  let ?ks = "handle ?env (Enter_connect 5) example_waiting_state"
  have r: "runs [(?env, Enter_connect 5)] example_waiting_state ?ks"
    using runs_step [OF runs_nil refl, of ?env "Enter_connect 5" example_waiting_state] by simp
  have "check_pid_validity ?env" by (simp add: check_pid_validity_def example_kenv_def)
  moreover have "refcnts example_waiting_state (ke_cpu ?env) = Some 0"
    by (simp add: refcnts_def example_waiting_state_def example_kstate_def example_tracer_def)
  moreover have "\<forall>(env', e) \<in> set [(?env, Enter_connect 5)]. ke_cpu env' = ke_cpu ?env \<longrightarrow> output_reached env'"
    by (simp add: output_reached_def example_kenv_def)
  moreover have st: "ks_stats ?ks = Some example_stats" "cpu_stream 0 ?ks = cpu_stream 0 example_waiting_state" "ks_out ?ks = []"
    by (simp_all add: enter_connect_def set_socket_role_def example_waiting_state_def example_kstate_def cpu_stream_def sent_events_def)
  moreover have c: "ke_cpu ?env = 0" by (simp add: example_kenv_def)
  moreover have "none_lost 0 (handle ?env Enter_getppid ?ks)"
    using st(3) by (simp add: none_lost_def push_socket_data_def Let_def perf_output_def upd_stats_def upd_tracer_def set_data_buf_def
        example_kenv_def split: option.split)
  ultimately show ?thesis
    using runs_then_push_delivers [OF r example_waiting_ok, of ?env example_stats "handle ?env Enter_getppid ?ks"] by simp
qed

end
