(* ===== verification/Socket_Ids.thy ===== *)
theory Socket_Ids
  imports Kern_Runs
begin

text \<open>
  The identifiers of sockets. A program hands out at most one identifier, the next of its CPU's counter, and otherwise
  every entry of the socket map keeps its identifier or goes away. As the counters start in disjoint ranges, no two
  live sockets share an identifier.
\<close>

section \<open>Identifiers in use\<close>

definition uids :: "kern_state \<Rightarrow> u64 \<Rightarrow> u64 option" where
  "uids ks k = (case ks_socket_info ks k of None \<Rightarrow> None | Some s \<Rightarrow> if si_uid s = 0 then None else Some (si_uid s))"

definition sock_ctr :: "kern_state \<Rightarrow> nat \<Rightarrow> u64 option" where
  "sock_ctr ks cpu = map_option tc_socket_id (ks_tracer ks cpu)"

text \<open>A step that hands out no identifier: an entry keeps its identifier or goes away.\<close>

definition ids_keep :: "kern_state \<Rightarrow> kern_state \<Rightarrow> bool" where
  "ids_keep ks ks' \<longleftrightarrow> (\<forall>k. uids ks' k = uids ks k \<or> uids ks' k = None) \<and> sock_ctr ks' = sock_ctr ks"

lemma ids_keep_refl [simp]: "ids_keep ks ks"
  by (simp add: ids_keep_def)

lemma ids_keep_trans: "ids_keep ks ks1 \<Longrightarrow> ids_keep ks1 ks2 \<Longrightarrow> ids_keep ks ks2"
  unfolding ids_keep_def by metis

lemma sock_ctr_upd_tracer:
  "(\<And>t. tc_socket_id (f t) = tc_socket_id t) \<Longrightarrow> sock_ctr (upd_tracer env f ks) = sock_ctr ks"
  by (rule ext) (simp add: sock_ctr_def upd_tracer_def option.map_comp o_def)

lemma ids_keep_upd_tracer:
  "(\<And>t. tc_socket_id (f t) = tc_socket_id t) \<Longrightarrow> ids_keep ks (upd_tracer env f ks') = ids_keep ks ks'"
  using sock_ctr_upd_tracer [of f env ks'] by (simp add: ids_keep_def uids_def) (simp add: upd_tracer_def)

lemma ids_keep_upd:
  "ids_keep ks (ks'\<lparr>ks_offset := a\<rparr>) = ids_keep ks ks'" "ids_keep ks (ks'\<lparr>ks_stats := b\<rparr>) = ids_keep ks ks'"
  "ids_keep ks (ks'\<lparr>ks_socket_role := d\<rparr>) = ids_keep ks ks'"
  "ids_keep ks (ks'\<lparr>ks_trace := e\<rparr>) = ids_keep ks ks'" "ids_keep ks (ks'\<lparr>ks_read_args := f\<rparr>) = ids_keep ks ks'"
  "ids_keep ks (ks'\<lparr>ks_write_args := g\<rparr>) = ids_keep ks ks'" "ids_keep ks (ks'\<lparr>ks_go_rw_ts := h\<rparr>) = ids_keep ks ks'"
  "ids_keep ks (ks'\<lparr>ks_infer_cache := i\<rparr>) = ids_keep ks ks'" "ids_keep ks (ks'\<lparr>ks_http2_seq := j\<rparr>) = ids_keep ks ks'"
  "ids_keep ks (ks'\<lparr>ks_ctx_info := k\<rparr>) = ids_keep ks ks'" "ids_keep ks (ks'\<lparr>ks_io_buffer := l\<rparr>) = ids_keep ks ks'"
  "ids_keep ks (ks'\<lparr>ks_data_buf := m\<rparr>) = ids_keep ks ks'" "ids_keep ks (ks'\<lparr>ks_out := n\<rparr>) = ids_keep ks ks'"
  by (simp_all add: ids_keep_def uids_def sock_ctr_def fun_eq_iff)

lemma ids_keep_ops [simp]:
  "ids_keep ks (upd_stats g ks') = ids_keep ks ks'" "ids_keep ks (upd_refcnt env d ks') = ids_keep ks ks'"
  "ids_keep ks (del_read_args pt ks') = ids_keep ks ks'" "ids_keep ks (del_write_args pt ks') = ids_keep ks ks'"
  "ids_keep ks (put_read_args env pt a ks') = ids_keep ks ks'" "ids_keep ks (put_write_args env pt a ks') = ids_keep ks ks'"
  "ids_keep ks (set_offset env off ks') = ids_keep ks ks'" "ids_keep ks (set_ctx_info env c ks') = ids_keep ks ks'"
  "ids_keep ks (set_io_buffer env b ks') = ids_keep ks ks'" "ids_keep ks (upd_infer_cache env pr ks') = ids_keep ks ks'"
  "ids_keep ks (set_dir_args env dir a ks') = ids_keep ks ks'" "ids_keep ks (del_args env ks') = ids_keep ks ks'"
  "ids_keep ks (del_dir_args env dir ks') = ids_keep ks ks'" "ids_keep ks (set_socket_role env fd r ks') = ids_keep ks ks'"
  "ids_keep ks (set_data_buf env vb ks') = ids_keep ks ks'" "ids_keep ks (perf_output env vb ks') = ids_keep ks ks'"
  "ids_keep ks (finalize_data_output env ct df vb ks') = ids_keep ks ks'"
  by (simp_all add: ids_keep_upd ids_keep_upd_tracer upd_refcnt_def upd_stats_def del_read_args_def del_write_args_def
      put_read_args_def put_write_args_def set_offset_def set_ctx_info_def set_io_buffer_def upd_infer_cache_def Let_def
      set_dir_args_def del_args_def del_dir_args_def set_socket_role_def set_data_buf_def perf_output_def finalize_data_output_def)

lemma ids_keep_upd_socket:
  assumes "ids_keep ks ks'" "\<And>s. ks_socket_info ks' key = Some s \<Longrightarrow> si_uid (f s) = si_uid s"
  shows "ids_keep ks (upd_socket key f ks')"
proof -
  have "uids (upd_socket key f ks') = uids ks'" "sock_ctr (upd_socket key f ks') = sock_ctr ks'"
    using assms(2) by (auto simp: uids_def upd_socket_def sock_ctr_def fun_eq_iff split: option.split)
  then show ?thesis using assms(1) by (simp add: ids_keep_def)
qed

lemma ids_keep_goid: "ids_keep ks (snd (get_rw_goid env timeout io ks))"
  by (auto simp: get_rw_goid_def Let_def ids_keep_upd split: option.split)

lemma ids_keep_trace_key: "ids_keep ks (snd (get_trace_key env timeout io ks))"
  using ids_keep_goid [of ks env "timeout * NS_PER_SEC" io] by (auto simp: get_trace_key_def Let_def split: prod.split)

lemma ids_keep_trace_process: "ids_keep ks (snd (trace_process env sock c sid ti t ts key ks))"
  by (auto simp: trace_process_def Let_def ids_keep_upd ids_keep_upd_tracer split: traffic_direction.split option.split prod.split)

lemma ids_keep_delete_socket_info: "ids_keep ks (delete_socket_info key p ks)"
proof -
  have "ids_keep ks (ks\<lparr>ks_socket_info := (ks_socket_info ks)(key := None)\<rparr>)"
    by (simp add: ids_keep_def uids_def sock_ctr_def fun_eq_iff)
  then show ?thesis
    by (auto simp: delete_socket_info_def map_delete_def Let_def ids_keep_upd split: option.split prod.split)
qed

lemma ids_keep_pass_trace: "ids_keep ks ks' \<Longrightarrow> ids_keep ks (pass_trace_to_peer tgid c s i ks')"
  by (auto simp: pass_trace_to_peer_def Let_def intro!: ids_keep_upd_socket)

lemma ids_keep_extra [simp]: "ids_keep ks (output_extra_data_common env args v m r ks') = ids_keep ks ks'"
  by (auto simp: output_extra_data_common_def Let_def split: option.split prod.split)

lemma ids_keep_output_finish [simp]: "ids_keep ks (output_finish env args b v m r t ks') = ids_keep ks ks'"
  by (simp add: output_finish_def Let_def)

lemma ids_keep_output_event [simp]: "ids_keep ks (output_event env args vecs m cl r b t ks') = ids_keep ks ks'"
  by (simp add: output_event_def Let_def split: option.split prod.split)

lemma ids_keep_output_5_2 [simp]: "ids_keep ks (output_data_common_5_2 env args vecs m cl r t ks') = ids_keep ks ks'"
  by (simp add: output_data_common_5_2_def split: option.split)

lemma ids_keep_output_pre_5_2 [simp]: "ids_keep ks (output_data_common env ks') = ids_keep ks ks'"
  by (auto simp: output_data_common_def Let_def split: option.split)

lemma ids_keep_tail_output [simp]: "ids_keep ks (tail_output env ks') = ids_keep ks ks'"
  by (simp add: tail_output_def)

section \<open>Inference keeps identifiers\<close>

definition conn_key :: "kern_env \<Rightarrow> conn_info_s \<Rightarrow> u64" where
  "conn_key env c = gen_conn_key_id (drop_bit 32 (ke_pid_tgid env)) (ucast (ci_fd c))"

text \<open>The pointer in the connection is the entry of the map.\<close>

definition linked :: "kern_env \<Rightarrow> conn_info_s \<Rightarrow> kern_state \<Rightarrow> bool" where
  "linked env c ks \<longleftrightarrow> ks_socket_info ks (conn_key env c) = ci_socket_info_ptr c"

lemma infer_ok_ident: "infer_ok env (c, q) (m, c', q') \<Longrightarrow> conn_ident c' = conn_ident c"
  using conn_ident_core [of c' c] by (simp add: infer_ok_def)

lemma store_inference_ids:
  assumes "linked env c ks" "conn_ident c1 = conn_ident c"
  shows "ids_keep ks (store_inference env c1 q ks)" "linked env c1 (store_inference env c1 q ks)"
proof -
  have i: "ci_fd c1 = ci_fd c" "map_option si_uid (ci_socket_info_ptr c1) = map_option si_uid (ci_socket_info_ptr c)"
    using assms(2) by (simp_all add: conn_ident_def)
  have "ids_keep ks (upd_socket (conn_key env c) (\<lambda>_. s) ks)" if "ci_socket_info_ptr c1 = Some s" for s
    using assms(1) i that by (intro ids_keep_upd_socket) (simp_all add: linked_def, metis option.inject option.simps(9))
  then show "ids_keep ks (store_inference env c1 q ks)"
    using i(1) by (auto simp: store_inference_def Let_def ids_keep_upd conn_key_def split: option.split)
  show "linked env c1 (store_inference env c1 q ks)"
    using assms(1) i by (cases "ci_socket_info_ptr c") (auto simp: linked_def store_inference_def Let_def conn_key_def upd_socket_def split: option.splits)
qed

lemma linked_cong: "ks_socket_info ks' = ks_socket_info ks \<Longrightarrow> linked env c ks' = linked env c ks"
  by (simp add: linked_def)

lemma linked_conn [simp]:
  "linked env (c\<lparr>ci_protocol := p\<rparr>) ks = linked env c ks" "linked env (c\<lparr>ci_message_type := m\<rparr>) ks = linked env c ks"
  "linked env (c\<lparr>ci_is_reasm_seg := r\<rparr>) ks = linked env c ks" "linked env (c\<lparr>ci_direction := d\<rparr>) ks = linked env c ks"
  "linked env (c\<lparr>ci_no_trace := b\<rparr>) ks = linked env c ks" "linked env (c\<lparr>ci_tuple := tp\<rparr>) ks = linked env c ks"
  by (simp_all add: linked_def conn_key_def)

lemma class_1_ids:
  assumes "infer_l7_class_1 env args count extra ctx c ks = (act, ctx1, c1, ks1)" "linked env c ks"
  shows "ids_keep ks ks1 \<and> linked env c1 ks1"
proof -
  obtain m err ib c2 q where r: "infer_protocol_1 (infer_env env ks) args (tl_infer_buf ctx) count extra (c, ks_http2_seq ks) = (m, err, ib, c2, q)"
    by (metis surj_pair)
  let ?ks0 = "set_ctx_info env (ctx\<lparr>tl_infer_buf := ib\<rparr>) ks"
  have l: "linked env c ?ks0" using assms(2) by (simp add: linked_def set_ctx_info_def)
  have s: "ids_keep ?ks0 (store_inference env c2 q ?ks0)" "linked env c2 (store_inference env c2 q ?ks0)"
    using store_inference_ids [OF l infer_protocol_1_keeps(1) [OF r]] by simp_all
  have "ids_keep ks (store_inference env c2 q ?ks0)"
    by (rule ids_keep_trans [OF _ s(1)]) simp
  then show ?thesis
    using assms(1) r s(2) by (auto simp: infer_l7_class_1_def Let_def split: if_splits)
qed

lemma class_2_ids:
  assumes "infer_l7_class_2 env ctx c ks = (act, c1, ks1)" "linked env c ks"
  shows "ids_keep ks ks1"
proof -
  obtain m c2 q where r: "infer_protocol_2 (infer_env env ks) (id_data (tl_infer_buf ctx)) (ucast (ci_count c)) (c, ks_http2_seq ks) = (m, c2, q)"
    by (metis surj_pair)
  have "infer_ok (infer_env env ks) (c, ks_http2_seq ks) (m, c2, q)" unfolding r [symmetric] by (rule infer_protocol_2_ok)
  from store_inference_ids [OF assms(2) infer_ok_ident [OF this], of q] show ?thesis
    using assms(1) r by (auto simp: infer_l7_class_2_def Let_def split: if_splits)
qed

lemma class_3_ids:
  assumes "infer_l7_class_3 env ctx c ks = (act, c1, ks1)" "linked env c ks"
  shows "ids_keep ks ks1"
proof -
  obtain m c2 q where r: "infer_protocol_3 (infer_env env ks) (id_data (tl_infer_buf ctx)) (ucast (ci_count c)) (c, ks_http2_seq ks) = (m, c2, q)"
    by (metis surj_pair)
  have "infer_ok (infer_env env ks) (c, ks_http2_seq ks) (m, c2, q)" unfolding r [symmetric] by (rule infer_protocol_3_ok)
  from store_inference_ids [OF assms(2) infer_ok_ident [OF this], of q] show ?thesis
    using assms(1) r by (auto simp: infer_l7_class_3_def Let_def split: if_splits)
qed

lemma linked_resume [simp]: "linked env (resume_conn env ctx ks) ks"
  by (simp add: linked_def resume_conn_def conn_key_def Let_def)

lemma infer_2_ids: "ids_keep ks (snd (proto_infer_2 env ks))"
  by (auto simp: proto_infer_2_def dest!: class_2_ids split: option.split prod.split)

lemma infer_3_ids: "ids_keep ks (snd (proto_infer_3 env ks))"
  by (auto simp: proto_infer_3_def dest!: class_3_ids split: option.split prod.split)

section \<open>A step that hands out one identifier\<close>

definition ids_step :: "kern_env \<Rightarrow> kern_state \<Rightarrow> kern_state \<Rightarrow> bool" where
  "ids_step env ks ks' \<longleftrightarrow> ids_keep ks ks' \<or>
     (\<exists>i key. sock_ctr ks (ke_cpu env) = Some i \<and> sock_ctr ks' = (sock_ctr ks)(ke_cpu env \<mapsto> i + 1) \<and>
        (\<forall>k. uids ks' k = uids ks k \<or> uids ks' k = None \<or> (k = key \<and> uids ks' k = Some (i + 1))))"

lemma ids_step_keep: "ids_keep ks ks' \<Longrightarrow> ids_step env ks ks'"
  by (simp add: ids_step_def)

lemma ids_step_after:
  assumes "ids_keep ks ks1" "ids_step env ks1 ks2"
  shows "ids_step env ks ks2"
proof (cases "ids_keep ks1 ks2")
  case True
  then show ?thesis using assms(1) ids_keep_trans by (blast intro: ids_step_keep)
next
  case False
  then obtain i key where s: "sock_ctr ks1 (ke_cpu env) = Some i" "sock_ctr ks2 = (sock_ctr ks1)(ke_cpu env \<mapsto> i + 1)"
    "\<And>k. uids ks2 k = uids ks1 k \<or> uids ks2 k = None \<or> (k = key \<and> uids ks2 k = Some (i + 1))"
    using assms(2) unfolding ids_step_def by blast
  have u: "uids ks1 k = uids ks k \<or> uids ks1 k = None" for k using assms(1) by (simp add: ids_keep_def)
  have "uids ks2 k = uids ks k \<or> uids ks2 k = None \<or> (k = key \<and> uids ks2 k = Some (i + 1))" for k
    using s(3) [of k] u [of k] by auto
  then show ?thesis using s(1,2) assms(1) unfolding ids_step_def ids_keep_def by auto
qed

lemma ids_step_before:
  assumes "ids_step env ks ks1" "ids_keep ks1 ks2"
  shows "ids_step env ks ks2"
proof (cases "ids_keep ks ks1")
  case True
  then show ?thesis using assms(2) ids_keep_trans by (blast intro: ids_step_keep)
next
  case False
  then obtain i key where s: "sock_ctr ks (ke_cpu env) = Some i" "sock_ctr ks1 = (sock_ctr ks)(ke_cpu env \<mapsto> i + 1)"
    "\<And>k. uids ks1 k = uids ks k \<or> uids ks1 k = None \<or> (k = key \<and> uids ks1 k = Some (i + 1))"
    using assms(1) unfolding ids_step_def by blast
  have u: "uids ks2 k = uids ks1 k \<or> uids ks2 k = None" for k using assms(2) by (simp add: ids_keep_def)
  have "uids ks2 k = uids ks k \<or> uids ks2 k = None \<or> (k = key \<and> uids ks2 k = Some (i + 1))" for k
    using s(3) [of k] u [of k] by auto
  then show ?thesis using s(1,2) assms(2) unfolding ids_step_def ids_keep_def by auto
qed

lemma ids_step_add:
  assumes "ks_tracer ks (ke_cpu env) = Some t" "si_uid s = tc_socket_id t + 1 \<or> si_uid s = 0"
  shows "ids_step env ks (add_socket_info env key c s ks)"
proof -
  let ?ks1 = "upd_tracer env (\<lambda>t. t\<lparr>tc_socket_id := tc_socket_id t + 1\<rparr>) ks"
  obtain ret m where u: "map_update (ke_map_full env M_socket_info) (ks_socket_info ks) key s = (ret, m)" by (metis surj_pair)
  have m: "m k = ks_socket_info ks k \<or> k = key \<and> m k = Some s" for k
    using u by (auto simp: map_update_def split: if_splits)
  have si: "ks_socket_info ?ks1 = ks_socket_info ks" by (simp add: upd_tracer_def)
  have "sock_ctr ks (ke_cpu env) = Some (tc_socket_id t)" using assms(1) by (simp add: sock_ctr_def)
  moreover have "sock_ctr (?ks1\<lparr>ks_socket_info := m\<rparr>) = (sock_ctr ks)(ke_cpu env \<mapsto> tc_socket_id t + 1)"
    using assms(1) by (simp add: sock_ctr_def upd_tracer_def fun_eq_iff)
  moreover have "uids (?ks1\<lparr>ks_socket_info := m\<rparr>) k = uids ks k \<or> uids (?ks1\<lparr>ks_socket_info := m\<rparr>) k = None \<or>
      (k = key \<and> uids (?ks1\<lparr>ks_socket_info := m\<rparr>) k = Some (tc_socket_id t + 1))" for k
    using m [of k] assms(2) by (auto simp: uids_def split: option.split)
  ultimately have s: "ids_step env ks (?ks1\<lparr>ks_socket_info := m\<rparr>)" unfolding ids_step_def by blast
  have "ids_step env ks (upd_stats g (?ks1\<lparr>ks_socket_info := m\<rparr>))" for g
    by (rule ids_step_before [OF s]) simp
  with s u si show ?thesis by (simp add: add_socket_info_def Let_def)
qed

lemma new_uid: "si_uid (new_socket_info env t c args len ts extra) = tc_socket_id t + 1 \<or> si_uid (new_socket_info env t c args len ts extra) = 0"
  by (simp add: new_socket_info_def Let_def set_port_def)

lemma touch_uid: "touch_socket t c len ts extra s = (send, s') \<Longrightarrow> si_uid s' = si_uid s"
  by (auto simp: touch_socket_def Let_def split: if_splits)

lemma submit_trace_ids:
  assumes "submit_trace env t c ts extra ks = (goid, tid, ks1)"
  shows "ids_keep ks ks1" "ks_socket_info ks1 = ks_socket_info ks"
proof -
  define no_key where "no_key = (ke_ver_5_2_plus env \<and> ci_no_trace c)"
  obtain key ks0 where k: "(if no_key then (\<lparr>tk_tgid = 0, tk_pid = 0, tk_goid = 0\<rparr>, ks)
      else get_trace_key env (ucast (tc_go_tracing_timeout t)) True ks) = (key, ks0)" by (metis surj_pair)
  have q: "ids_keep ks ks0" "ks_socket_info ks0 = ks_socket_info ks"
    using k ids_keep_trace_key [of ks env "ucast (tc_go_tracing_timeout t)" True]
    by (auto simp: get_trace_key_def get_rw_goid_def Let_def split: if_splits option.splits)
  have si: "ks_socket_info (snd (trace_process env sock c' sid ti t' ts' key' ks')) = ks_socket_info ks'" for sock c' sid ti t' ts' key' ks'
    by (auto simp: trace_process_def Let_def upd_tracer_def upd_stats_def split: traffic_direction.split option.split prod.split)
  show "ids_keep ks ks1"
    using assms k ids_keep_trans [OF q(1) ids_keep_trace_process] q
    by (auto simp: submit_trace_def Let_def no_key_def [symmetric] split: prod.splits if_splits dest!: arg_cong [of _ _ snd])
  show "ks_socket_info ks1 = ks_socket_info ks"
    using assms k si q(2)
    by (auto simp: submit_trace_def Let_def no_key_def [symmetric] split: prod.splits if_splits dest!: arg_cong [of _ _ snd])
qed

lemma tracer_ctr: "ids_keep ks ks1 \<Longrightarrow> ks_tracer ks cpu = Some t \<Longrightarrow> \<exists>t1. ks_tracer ks1 cpu = Some t1 \<and> tc_socket_id t1 = tc_socket_id t"
  unfolding ids_keep_def sock_ctr_def fun_eq_iff by (metis map_option_eq_Some)

lemma submit_register_ids:
  assumes "submit_register env t c args len ts extra tid ks = (tid', ks1)" "ks_tracer ks (ke_cpu env) = Some t1" "tc_socket_id t1 = tc_socket_id t"
  shows "ids_step env ks ks1"
  using assms ids_step_add [OF assms(2)] new_uid [of env t c args len ts extra] ids_step_keep [of ks ks env]
  by (auto simp: submit_register_def Let_def split: if_splits)

lemma socket_update_ids:
  assumes "socket_update env t c len ts extra s tid ks = (uid, allow, seq, send, tid', ks1)" "linked env c ks \<or> \<not> is_socket_info_valid (ci_socket_info_ptr c)"
  shows "ids_keep ks ks1"
proof (cases "\<exists>p. ci_socket_info_ptr c = Some p \<and> is_socket_info_valid (Some p)")
  case True
  then obtain p where p: "ci_socket_info_ptr c = Some p" "is_socket_info_valid (Some p)" by blast
  obtain sn p' where tp: "touch_socket t c len ts extra p = (sn, p')" by (metis surj_pair)
  have "ids_keep ks (upd_socket (conn_key env c) (\<lambda>_. p') ks)"
    using assms(2) p touch_uid [OF tp] by (intro ids_keep_upd_socket) (auto simp: linked_def)
  then show ?thesis
    using assms(1) p tp ids_keep_pass_trace by (auto simp: socket_update_def Let_def conn_key_def)
next
  case False
  then show ?thesis using assms(1) by (auto simp: socket_update_def Let_def split: option.splits)
qed

lemma submit_event_ids:
  assumes "linked env c ks \<or> \<not> is_socket_info_valid (ci_socket_info_ptr c)"
  shows "ids_keep ks (snd (submit_event env t c args vecs len ts extra s tid goid ks))"
proof -
  obtain uid allow seq send tid' ks1 where
    u: "socket_update env t c len ts extra s tid ks = (uid, allow, seq, send, tid', ks1)" by (metis surj_pair)
  show ?thesis using socket_update_ids [OF u assms] u by (simp add: submit_event_def Let_def split: option.split)
qed

lemma data_submit_common_ids:
  assumes l: "linked env c0 ks"
  shows "ids_step env ks (snd (data_submit_common env c0 args vecs len ts extra ks))"
proof (cases "current_tracer env ks")
  case None
  then show ?thesis by (simp add: data_submit_common_def ids_step_keep)
next
  case (Some t)
  define c where "c = (if tc_disable_tracing t then c0\<lparr>ci_no_trace := True\<rparr> else c0)"
  obtain goid tid ks1 where a: "submit_trace env t c ts extra ks = (goid, tid, ks1)" by (metis surj_pair)
  obtain tid' ks2 where b: "submit_register env t c args len ts extra tid ks1 = (tid', ks2)" by (metis surj_pair)
  obtain t1 where t1: "ks_tracer ks1 (ke_cpu env) = Some t1" "tc_socket_id t1 = tc_socket_id t"
    using tracer_ctr [OF submit_trace_ids(1) [OF a]] Some by (auto simp: current_tracer_def)
  have s: "ids_step env ks ks2"
    using ids_step_after [OF submit_trace_ids(1) [OF a] submit_register_ids [OF b t1]] .
  have "linked env c ks1" using l submit_trace_ids(2) [OF a] by (simp add: c_def linked_def conn_key_def)
  then have "linked env c ks2 \<or> \<not> is_socket_info_valid (ci_socket_info_ptr c)"
    using b by (auto simp: submit_register_def Let_def split: if_splits)
  then have "ids_step env ks (snd (submit_event env t c args vecs len ts extra si tid' goid ks2))" for si
    using ids_step_before [OF s submit_event_ids] by blast
  then show ?thesis
    using Some a b s ids_step_keep [of ks ks env] ids_step_keep [OF ids_keep_delete_socket_info]
    by (simp add: data_submit_common_def c_def [symmetric])
qed

section \<open>All programs\<close>

lemma io_ids: "ids_keep ks (fst (trace_io_event_common env offset args dir ks))"
  using ids_keep_trace_key [of ks env _ False]
  by (auto simp: trace_io_event_common_def Let_def split_beta split: option.split)

lemma io_event_ids: "ids_keep ks (io_event env ks)"
  using io_ids [of ks env] by (auto simp: io_event_def split_beta split: option.split)

lemma tgid_twice: "ucast (ucast (drop_bit 32 x :: u64) :: u32) = (drop_bit 32 x :: u64)"
  by (rule bit_word_eqI) (auto simp: bit_simps dest: bit_imp_le_length)

lemma init_linked: "linked env (init_conn_info env ks (ucast (drop_bit 32 (ke_pid_tgid env))) fd sk off c) ks"
  by (auto simp: linked_def conn_key_def init_conn_info_def Let_def tgid_twice split: option.split)

lemma udp_linked: "udp_peer_port args c = (args1, c1) \<Longrightarrow> linked env c ks \<Longrightarrow> linked env c1 ks"
  by (auto simp: udp_peer_port_def Let_def split: if_splits option.splits)

lemma process_conn_ids:
  assumes "linked env c ks"
  shows "ids_step env ks (snd (process_conn env dir args n extra dk c ks))"
proof (cases "ks_ctx_info ks (ke_cpu env)")
  case None
  then show ?thesis by (simp add: process_conn_def ids_step_keep)
next
  case (Some ctx)
  define c1 where "c1 = (if port_listed (ke_kprobe_port_bitmap env 0) c then c\<lparr>ci_protocol := PROTO_CUSTOM\<rparr> else c)"
  obtain act ctx1 c2 ks1 where i: "infer_l7_class_1 env args n extra ctx c1 ks = (act, ctx1, c2, ks1)" by (metis surj_pair)
  have l: "ids_keep ks ks1" "linked env c2 ks1" using class_1_ids [OF i] assms by (simp_all add: c1_def)
  have "ids_step env ks (snd (data_submit_common env c2 args vecs len ts extra ks1))"
     "ids_step env ks (snd (data_submit_common env (c2\<lparr>ci_is_reasm_seg := True\<rparr>) args vecs len ts extra ks1))" for vecs len ts
    using ids_step_after [OF l(1) data_submit_common_ids] l(2) by simp_all
  then show ?thesis
    using Some i l ids_step_keep [of ks _ env]
    by (simp add: process_conn_def c1_def [symmetric] Let_def)
qed

lemma process_conn_keep:
  assumes "linked env c ks" "\<not> ke_ver_5_2_plus env"
  shows "ids_keep ks (snd (process_conn env dir args n extra dk c ks))"
proof (cases "ks_ctx_info ks (ke_cpu env)")
  case None
  then show ?thesis by (simp add: process_conn_def)
next
  case (Some ctx)
  define c1 where "c1 = (if port_listed (ke_kprobe_port_bitmap env 0) c then c\<lparr>ci_protocol := PROTO_CUSTOM\<rparr> else c)"
  obtain act ctx1 c2 ks1 where i: "infer_l7_class_1 env args n extra ctx c1 ks = (act, ctx1, c2, ks1)" by (metis surj_pair)
  have "ids_keep ks ks1" using class_1_ids [OF i] assms by (simp add: c1_def)
  then show ?thesis using Some i assms(2) by (simp add: process_conn_def c1_def [symmetric] Let_def)
qed

lemma preprocess_ids: "ids_keep ks (preprocess_for_uprobe env dir fd count ks)"
  by (simp add: preprocess_for_uprobe_def Let_def ids_keep_upd)

lemma process_data_ids: "ids_step env ks (snd (snd (process_data env dir args n extra ks)))"
proof (cases "current_offset env ks")
  case None
  then show ?thesis by (simp add: process_data_def ids_step_keep)
next
  case (Some off)
  define ks1 where "ks1 = (if ke_ver_5_2_plus env then preprocess_for_uprobe env dir (da_fd args) n ks else ks)"
  have q: "ids_keep ks ks1" by (simp add: ks1_def preprocess_ids)
  have p: "ids_step env ks (snd (process_conn env dir (fst u) n extra dk ((snd u)\<lparr>ci_direction := dir\<rparr>) ks1))"
    if "u = udp_peer_port args (init_conn_info env ks1 (ucast (drop_bit 32 (ke_pid_tgid env))) fd sk off' c)" for u fd sk off' c dk
    using ids_step_after [OF q process_conn_ids] udp_linked [OF _ init_linked, of args] that by (metis linked_conn(4) prod.collapse)
  show ?thesis
    using Some io_ids [of ks env] q p ids_step_keep [of ks _ env]
    by (simp add: process_data_def Let_def ks1_def [symmetric] split_beta)
qed

lemma process_data_keep:
  assumes "\<not> ke_ver_5_2_plus env"
  shows "ids_keep ks (snd (snd (process_data env dir args n extra ks)))"
proof -
  have p: "ids_keep ks (snd (process_conn env dir (fst u) n extra dk ((snd u)\<lparr>ci_direction := dir\<rparr>) ks))"
    if "u = udp_peer_port args (init_conn_info env ks (ucast (drop_bit 32 (ke_pid_tgid env))) fd sk off' c)" for u fd sk off' c dk
    using process_conn_keep [OF _ assms] udp_linked [OF _ init_linked, of args] that by (metis linked_conn(4) prod.collapse)
  then show ?thesis using assms by (simp add: process_data_def Let_def split_beta split: option.split)
qed

lemma data_submit_ids: "ids_step env ks (snd (data_submit env ks))"
  using data_submit_common_ids [OF linked_resume] ids_step_keep [of ks ks env]
  by (auto simp: data_submit_def Let_def split: option.split)

lemma run_data_submit_ids: "ids_step env ks (run_data_submit kp env ks)"
proof -
  obtain r ks1 where d: "data_submit env ks = (r, ks1)" by (metis surj_pair)
  have s: "ids_step env ks ks1" using data_submit_ids [of env ks] d by simp
  have "ids_step env ks (tail_output env ks1)" "ids_step env ks (del_args env ks1)" "ids_step env ks (io_event env ks1)"
    by (rule ids_step_before [OF s], simp add: io_event_ids)+
  then show ?thesis using d s by (cases r) (simp_all add: run_data_submit_def)
qed

lemma run_infer_3_ids: "ids_step env ks (run_proto_infer_3 kp env ks)"
  using ids_step_after [OF infer_3_ids [of ks env] run_data_submit_ids [of env _ kp]] ids_step_keep [OF infer_3_ids [of ks env]]
  by (simp add: run_proto_infer_3_def split_beta)

lemma run_infer_2_ids: "ids_step env ks (run_proto_infer_2 kp env ks)"
  using ids_step_after [OF infer_2_ids [of ks env] run_data_submit_ids [of env _ kp]] ids_step_keep [OF infer_2_ids [of ks env]]
    ids_step_after [OF infer_2_ids [of ks env] run_infer_3_ids [of env _ kp]]
  by (cases "proto_infer_2 env ks"; cases "fst (proto_infer_2 env ks)") (simp_all add: run_proto_infer_2_def)

lemma process_syscall_data_ids: "ids_step env ks (process_syscall_data vecs env dir args n ks)"
proof -
  let ?extra = "\<lparr>ex_vecs = vecs, ex_is_go_process = is_current_go_process env, ex_source = DATA_SOURCE_SYSCALL\<rparr>"
  obtain r args1 ks1 where p: "process_data env dir args n ?extra (set_dir_args env dir args ks) = (r, args1, ks1)" by (metis surj_pair)
  have "ids_keep ks (set_dir_args env dir args ks)" by simp
  from ids_step_after [OF this process_data_ids, of env dir args n ?extra] have s: "ids_step env ks ks1" using p by simp
  have d: "ids_step env ks (del_dir_args env dir ks1)" by (rule ids_step_before [OF s]) simp
  define ks2 where "ks2 = set_dir_args env dir args1 ks1"
  have "ids_step env ks (case r of
              PD_DONE \<Rightarrow> if ke_tail_call env PROG_DATA_SUBMIT then run_data_submit False env ks2 else del_dir_args env dir ks2
            | PD_IO_EVENT \<Rightarrow> if ke_tail_call env PROG_IO_EVENT then io_event env ks2 else del_dir_args env dir ks2
            | PD_INFER_2 \<Rightarrow> run_proto_infer_2 False env ks2 | PD_REJECTED \<Rightarrow> del_dir_args env dir ks2)" if v: "\<not> ke_ver_5_2_plus env"
  proof -
    have k: "ids_keep ks ks2"
      using ids_keep_trans [of ks "set_dir_args env dir args ks" ks1] process_data_keep [OF v, of "set_dir_args env dir args ks" dir args n ?extra] p
      by (simp add: ks2_def)
    show ?thesis
      using ids_step_after [OF k run_data_submit_ids] ids_step_after [OF k run_infer_2_ids] ids_step_keep [OF ids_keep_trans [OF k io_event_ids]]
        ids_step_keep [OF k] k ids_step_keep [of ks "del_dir_args env dir ks2" env]
      by (cases r) simp_all
  qed
  then show ?thesis
    using p d unfolding ks2_def by (cases "ke_ver_5_2_plus env") (simp_all add: process_syscall_data_def Let_def)
qed

lemma push_close_ids [simp]: "ids_keep ks (push_close_event env a b c d e ks') = ids_keep ks ks'"
  by (simp add: push_close_event_def Let_def split: option.split)

lemma phase_1_ids: "ids_keep ks (snd (infer_offset_phase_1 env fd ks))"
  by (auto simp: infer_offset_phase_1_def Let_def split: option.split prod.split)

lemma phase_2_ids: "ids_keep ks (snd (infer_offset_phase_2 env fd ks))"
  by (auto simp: infer_offset_phase_2_def Let_def split: option.split prod.split)

lemma enter_close_ids: "ids_keep ks (enter_close env fd ks)"
proof -
  obtain r ks1 where p: "infer_offset_phase_2 env fd ks = (r, ks1)" by (metis surj_pair)
  have k: "ids_keep ks ks1" using phase_2_ids [of ks env fd] p by simp
  have "ids_keep ks (delete_socket_info key sp (upd_socket key (\<lambda>_. s) ks1))"
    if "ks_socket_info ks1 key = Some s0" "si_uid s = si_uid s0" for key sp s s0
    using that by (intro ids_keep_trans [OF ids_keep_upd_socket [OF k] ids_keep_delete_socket_info]) simp
  then show ?thesis using p k by (auto simp: enter_close_def Let_def ids_keep_upd split: option.split)
qed

lemma exit_socket_ids: "ids_keep ks (exit_socket env fd ks)"
proof -
  obtain key ks1 where t: "get_trace_key env 0 True ks = (key, ks1)" by (metis surj_pair)
  have k: "ids_keep ks ks1" using ids_keep_trace_key [of ks env 0 True] t by simp
  have "ids_keep ks (ks1\<lparr>ks_socket_info := snd (map_update full (ks_socket_info ks1) key' s)\<rparr>)" if "si_uid s = 0" for full key' s
    using k that by (auto simp: ids_keep_def uids_def sock_ctr_def map_update_def fun_eq_iff)
  then show ?thesis using t k
    by (auto simp: exit_socket_def Let_def split_beta sock_zero_def split: option.split)
qed

lemma handle_ids: "ids_step env ks (handle env e ks)"
proof -
  note sys = process_syscall_data_ids [of env ks]
  have io: "ids_keep ks (fst (trace_io_event_common env off a dir (ks\<lparr>ks_read_args := m\<rparr>)))"
    "ids_keep ks (fst (trace_io_event_common env off a dir (ks\<lparr>ks_write_args := m'\<rparr>)))" for off a dir m m'
    by (rule ids_keep_trans [OF _ io_ids]; simp add: ids_keep_upd)+
  have push: "ids_keep ks (push_socket_data env ks)"
    by (simp add: push_socket_data_def Let_def ids_keep_upd_tracer split: option.split)
  show ?thesis
    by (cases e) (auto simp: sys ids_step_keep io push exit_socket_ids enter_close_ids phase_1_ids
        do_sys_enter_write_def do_sys_exit_write_def do_sys_enter_read_def do_sys_exit_read_def do_sys_enter_sendto_def
        do_sys_exit_sendto_def do_sys_enter_recvfrom_def do_sys_exit_recvfrom_def enter_sendmsg_def exit_sendmsg_def
        enter_sendmmsg_def exit_sendmmsg_def enter_recvmsg_def exit_recvmsg_def enter_recvmmsg_def exit_recvmmsg_def
        enter_writev_def exit_writev_def enter_readv_def exit_readv_def do_sys_enter_pread_def do_sys_enter_pwrite_def
        do_sys_exit_pread_def do_sys_exit_pwrite_def exit_accept_def enter_connect_def Let_def split_beta split: option.split)
qed

section \<open>The invariant\<close>

text \<open>Every identifier in use was handed out by the counter of the CPU whose range it lies in, and no two entries share
  one. \<open>room n\<close>: no counter leaves its range within \<open>n\<close> steps.\<close>

definition ids_ok :: "kern_state \<Rightarrow> bool" where
  "ids_ok ks \<longleftrightarrow>
     (\<forall>k i. uids ks k = Some i \<longrightarrow> (\<exists>cpu c. sock_ctr ks cpu = Some c \<and> in_range cpu i \<and> unat i \<le> unat c)) \<and>
     (\<forall>k k' i. uids ks k = Some i \<longrightarrow> uids ks k' = Some i \<longrightarrow> k = k') \<and>
     (\<forall>cpu c. sock_ctr ks cpu = Some c \<longrightarrow> in_range cpu c)"

definition room :: "nat \<Rightarrow> kern_state \<Rightarrow> bool" where
  "room n ks \<longleftrightarrow> (\<forall>cpu c. sock_ctr ks cpu = Some c \<longrightarrow> unat c mod 2 ^ 56 + n < 2 ^ 56)"

lemma uid_start_mod:
  assumes "cpu < 256" "uid_base = take_bit 56 x"
  shows "unat (uid_start cpu uid_base) mod 2 ^ 56 = unat uid_base"
proof -
  have b: "unat uid_base < 2 ^ 56"
    unfolding assms(2) unsigned_take_bit_eq by (rule take_bit_nat_less_exp)
  have "uid_start cpu uid_base = push_bit 56 (of_nat cpu) + uid_base"
    unfolding uid_start_def assms(2) by (intro disjunctive_add [symmetric]) (auto simp: bit_simps)
  also have "\<dots> = of_nat (2 ^ 56 * cpu + unat uid_base)"
    by (simp add: push_bit_eq_mult mult.commute)
  finally have "unat (uid_start cpu uid_base) = 2 ^ 56 * cpu + unat uid_base"
    using assms(1) b by (simp only:) (rule unat_of_nat_u64, simp)
  then show ?thesis using b by simp
qed

lemma room_succ:
  assumes "in_range cpu c" "unat c mod 2 ^ 56 + Suc n < 2 ^ 56"
  shows "unat (c + 1) = unat c + 1" "in_range cpu (c + 1)" "unat (c + 1) mod 2 ^ 56 + n < 2 ^ 56"
proof -
  have "unat c < 2 ^ 64" by (rule unat_u64_less)
  moreover have "unat c \<noteq> 2 ^ 64 - 1" using assms(2) by auto
  ultimately have "unat c + 1 < 2 ^ 64" by linarith
  then show u: "unat (c + 1) = unat c + 1" by (simp add: unat_word_ariths)
  have m: "(unat c + 1) mod 2 ^ 56 = unat c mod 2 ^ 56 + 1"
    using assms(2) by (simp add: mod_Suc)
  have "(unat c + 1) div 2 ^ 56 = unat c div 2 ^ 56"
    using assms(2) div_add1_eq [of "unat c" 1 "2 ^ 56"] by simp
  then show "in_range cpu (c + 1)" using assms(1) u by (simp add: in_range_def)
  show "unat (c + 1) mod 2 ^ 56 + n < 2 ^ 56" using assms(2) u m by simp
qed

lemma ids_keep_ok:
  assumes "ids_keep ks ks'" "ids_ok ks"
  shows "ids_ok ks'"
proof -
  have u: "uids ks k = Some i" if "uids ks' k = Some i" for k i
    using assms(1) that unfolding ids_keep_def by (metis option.distinct(1))
  have "sock_ctr ks' = sock_ctr ks" using assms(1) by (simp add: ids_keep_def)
  then show ?thesis using assms(2) u unfolding ids_ok_def by simp blast
qed

lemma room_less: "room (Suc n) ks \<Longrightarrow> room n ks"
  unfolding room_def by (metis Suc_lessD add_Suc_right)

lemma ids_step_ok:
  assumes "ids_step env ks ks'" "ids_ok ks" "room (Suc n) ks"
  shows "ids_ok ks' \<and> room n ks'"
proof (cases "ids_keep ks ks'")
  case True
  then show ?thesis
    using ids_keep_ok [OF True assms(2)] room_less [OF assms(3)] by (simp add: room_def ids_keep_def)
next
  case False
  then obtain i key where s: "sock_ctr ks (ke_cpu env) = Some i" "sock_ctr ks' = (sock_ctr ks)(ke_cpu env \<mapsto> i + 1)"
    "\<And>k. uids ks' k = uids ks k \<or> uids ks' k = None \<or> (k = key \<and> uids ks' k = Some (i + 1))"
    using assms(1) unfolding ids_step_def by blast
  have r: "in_range (ke_cpu env) i" using assms(2) s(1) by (simp add: ids_ok_def)
  note n = room_succ [OF r, of n]
  have m: "unat i mod 2 ^ 56 + Suc n < 2 ^ 56" using assms(3) s(1) by (simp add: room_def)
  note n = n [OF m]
  have fresh: "uids ks k \<noteq> Some (i + 1)" for k
  proof
    assume "uids ks k = Some (i + 1)"
    then obtain cpu c where c: "sock_ctr ks cpu = Some c" "in_range cpu (i + 1)" "unat (i + 1) \<le> unat c"
      using assms(2) unfolding ids_ok_def by blast
    then show False using in_range_unique [OF c(2) n(2)] s(1) n(1) by simp
  qed
  have "\<exists>cpu c. sock_ctr ks' cpu = Some c \<and> in_range cpu j \<and> unat j \<le> unat c" if "uids ks' k = Some j" for k j
  proof (cases "uids ks k = Some j")
    case True
    then obtain cpu c where c: "sock_ctr ks cpu = Some c" "in_range cpu j" "unat j \<le> unat c"
      using assms(2) unfolding ids_ok_def by blast
    show ?thesis
      by (cases "cpu = ke_cpu env") (use c s(1,2) n(1) in auto)
  next
    case False
    then have "j = i + 1" using s(3) [of k] that by auto
    then show ?thesis using s(2) n(2) by auto
  qed
  moreover have "k = k'" if "uids ks' k = Some j" "uids ks' k' = Some j" for k k' j
  proof -
    have old: "k = k'" if "uids ks k = Some j" "uids ks k' = Some j" using assms(2) that unfolding ids_ok_def by blast
    have a: "uids ks k = Some j \<or> (k = key \<and> j = i + 1)" using s(3) [of k] that(1) by auto
    have b: "uids ks k' = Some j \<or> (k' = key \<and> j = i + 1)" using s(3) [of k'] that(2) by auto
    show ?thesis using a b old fresh by blast
  qed
  moreover have "in_range cpu c" if "sock_ctr ks' cpu = Some c" for cpu c
    using that s(2) n(2) assms(2) by (auto simp: ids_ok_def split: if_splits)
  moreover have "room n ks'"
    using room_less [OF assms(3)] n(3) s(2) by (simp add: room_def)
  ultimately show ?thesis unfolding ids_ok_def by blast
qed

lemma runs_ids:
  assumes "runs evs ks ks'" "ids_ok ks" "room (length evs + m) ks"
  shows "ids_ok ks' \<and> room m ks'"
  using assms
proof (induction arbitrary: m rule: runs.induct)
  case (runs_nil ks)
  then show ?case by simp
next
  case (runs_step evs ks ks1 ks2 env e)
  have "ids_ok ks1 \<and> room (Suc m) ks1" using runs_step.IH [of "Suc m"] runs_step.prems by simp
  then show ?case using ids_step_ok [OF handle_ids] runs_step(2) by blast
qed

text \<open>C4: Sockets are told apart. From the state the agent sets up, with the counter of each of at most 256 CPUs started
  in a range of its own and no socket known, after any run of system calls that does not exhaust a range no two
  entries of the socket map carry the same identifier.\<close>

theorem live_sockets_distinct:
  assumes "runs evs ks0 ks"
    and "ks_tracer ks0 = (\<lambda>cpu. if cpu < 256 then Some (init_tracer_ctx cpu (uid_base_of now) (conf cpu)) else None)"
    and "ks_socket_info ks0 = (\<lambda>_. None)" "unat (uid_base_of now) + length evs < 2 ^ 56"
  shows "inj_on (uids ks) (dom (uids ks))"
proof -
  have ctr: "sock_ctr ks0 cpu = (if cpu < 256 then Some (uid_start cpu (uid_base_of now)) else None)" for cpu
    using assms(2) by (simp add: sock_ctr_def init_tracer_ctx_def)
  have "in_range cpu c \<and> unat c mod 2 ^ 56 = unat (uid_base_of now)" if "sock_ctr ks0 cpu = Some c" for cpu c
    using that ctr [of cpu] uid_start_range [of cpu, OF _ uid_base_take_bit] uid_start_mod [of cpu, OF _ uid_base_take_bit]
    by (auto split: if_splits)
  then have "ids_ok ks0" "room (length evs + 0) ks0"
    using assms(3,4) by (auto simp: ids_ok_def room_def uids_def)
  from runs_ids [OF assms(1) this] have "ids_ok ks" by simp
  then show ?thesis unfolding ids_ok_def inj_on_def by (metis domD)
qed

theorem live_sockets_distinct_witness:
  "inj_on (uids (handle (example_kenv True) (Exit_write 4) (handle (example_kenv True) (Enter_write 5 0x8000) live_start)))
     (dom (uids (handle (example_kenv True) (Exit_write 4) (handle (example_kenv True) (Enter_write 5 0x8000) live_start))))"
proof -
  let ?env = "example_kenv True"
  have r: "runs [(?env, Enter_write 5 0x8000), (?env, Exit_write 4)] live_start
      (handle ?env (Exit_write 4) (handle ?env (Enter_write 5 0x8000) live_start))"
    using runs_step [OF runs_step [OF runs_nil refl] refl, of ?env "Enter_write 5 0x8000" ?env "Exit_write 4" live_start] by simp
  have "unat (uid_base_of 100) + 2 < 2 ^ 56" by (simp add: uid_base_of_def)
  then show ?thesis
    by (intro live_sockets_distinct [OF r, of 100 "\<lambda>_. example_tracer"]) (simp_all add: live_start_def example_kstate_def)
qed

end
