(* ===== verification/Known_Socket.thy ===== *)
theory Known_Socket
  imports Socket_Ids
begin

text \<open>
  What a message on a known socket becomes: the path of a request or response through \<^verbatim>\<open>__data_submit\<close> and
  the output, with the fields of the event and the state of the socket afterwards.
\<close>

lemma socks_ops [simp]:
  "ks_socket_info (upd_stats g ks) = ks_socket_info ks" "ks_socket_info (upd_tracer env f ks) = ks_socket_info ks"
  "ks_socket_info (upd_refcnt env d ks) = ks_socket_info ks" "ks_socket_info (set_data_buf env vb ks) = ks_socket_info ks"
  "ks_socket_info (upd_infer_cache env pr ks) = ks_socket_info ks" "ks_socket_info (perf_output env vb ks) = ks_socket_info ks"
  "ks_socket_info (finalize_data_output env ct df vb ks) = ks_socket_info ks"
  by (simp_all add: upd_stats_def upd_tracer_def upd_refcnt_def set_data_buf_def upd_infer_cache_def Let_def perf_output_def
      finalize_data_output_def)

lemma socks_extra [simp]: "ks_socket_info (output_extra_data_common env args v m r ks) = ks_socket_info ks"
  by (auto simp: output_extra_data_common_def Let_def split: option.split prod.split)

lemma socks_output [simp]: "ks_socket_info (output_data_common_5_2 env args vecs m cl r t ks) = ks_socket_info ks"
  by (auto simp: output_data_common_5_2_def output_event_def output_finish_def Let_def split: option.split prod.split)

lemma touch_plain:
  "\<not> si_allow_reassembly s \<Longrightarrow> fst (touch_socket t c len ts extra s) = 0"
  "si_seq (snd (touch_socket t c len ts extra s)) = si_seq s + 1"
  by (simp_all add: touch_socket_def Let_def)

lemma pass_trace_seq:
  assumes "ks_socket_info ks key = Some s"
  shows "\<exists>s'. ks_socket_info (pass_trace_to_peer tgid c p i ks) key = Some s' \<and> si_seq s' = si_seq s"
  using assms by (auto simp: pass_trace_to_peer_def Let_def upd_socket_def)

lemma fill_header_fields:
  assumes "v' = fill_header env ks c args len ts extra uid allow seq tid goid v"
  shows "sd_socket_id v' = uid" "sd_data_seq v' = seq" "sd_data_type v' = proto_num (ci_protocol c)"
    "sd_direction v' = (ci_direction c = T_INGRESS)" "sd_syscall_len v' = ucast len" "sd_fd v' = da_fd args"
    "sd_source v' = source_num (if ci_sk_type c = SOCK_UNIX then DATA_SOURCE_UNIX_SOCKET else ex_source extra)"
  by (simp_all add: assms fill_header_def Let_def set_tcp_seq_def set_peer_address_def)

lemma source_io: "source_num x = 4 \<Longrightarrow> x = DATA_SOURCE_IO_EVENT"
  by (cases x) simp_all

lemma submit_trace_offset:
  assumes "submit_trace env t c ts extra ks = (goid, tid, ks1)"
  shows "ks_offset ks1 = ks_offset ks"
proof -
  define no_key where "no_key = (ke_ver_5_2_plus env \<and> ci_no_trace c)"
  obtain key ks0 where k: "(if no_key then (\<lparr>tk_tgid = 0, tk_pid = 0, tk_goid = 0\<rparr>, ks)
      else get_trace_key env (ucast (tc_go_tracing_timeout t)) True ks) = (key, ks0)" by (metis surj_pair)
  have q: "ks_offset ks0 = ks_offset ks"
    using k by (auto simp: get_trace_key_def get_rw_goid_def Let_def split: if_splits option.splits)
  have si: "ks_offset (snd (trace_process env sock c' sid ti t' ts' key' ks')) = ks_offset ks'" for sock c' sid ti t' ts' key' ks'
    by (auto simp: trace_process_def Let_def upd_tracer_def upd_stats_def split: traffic_direction.split option.split prod.split)
  show ?thesis
    using assms k si q
    by (auto simp: submit_trace_def Let_def no_key_def [symmetric] split: prod.splits if_splits dest!: arg_cong [of _ _ snd])
qed

definition plain_message :: "data_args_t \<Rightarrow> process_data_extra \<Rightarrow> conn_info_s \<Rightarrow> bool" where
  "plain_message args extra c \<longleftrightarrow>
     ci_sk c \<noteq> 0 \<and> ci_message_type c \<in> {MSG_REQUEST, MSG_RESPONSE} \<and> ci_skc_family c \<in> {PF_INET, PF_INET6} \<and>
     da_extra_iovlen args = 0 \<and> ex_source extra \<noteq> DATA_SOURCE_IO_EVENT"

lemma get_socket_info_some:
  assumes "plain_message args extra c" "ks_offset ks (ke_cpu env) = Some off"
  shows "\<exists>v'. get_socket_info env ks c v = Some v'"
  using assms by (auto simp: get_socket_info_def plain_message_def current_offset_def Let_def)

lemma submit_event_plain:
  assumes "ke_ver_5_2_plus env" "ks_offset ks (ke_cpu env) = Some off" "plain_message args extra c"
    and "ci_socket_info_ptr c = Some s" "ks_socket_info ks (conn_key env c) = Some s" "si_uid s \<noteq> 0" "\<not> si_allow_reassembly s"
    and "ks_data_buf ks (ke_cpu env) = Some b" "sb_ok b" "sb_len b \<le> BUFFER_LIMIT"
    and "unat len < BURST_DATA_BUF_SIZE" "len \<le> tc_data_limit_max t" "unat (tc_data_limit_max t) < 2 ^ 31"
    and "ke_read_user env (da_buf args) (unat len + 1) = (0, bytes)"
    and "submit_event env t c args False len ts extra si tid goid ks = (r, ks')"
  shows "\<exists>v s'. stream_step (ke_cpu env) [(v, bytes_at bytes 0 (unat len))] ks ks' \<and> r = SUBMIT_OK \<and>
     sd_socket_id v = si_uid s \<and> sd_data_seq v = si_seq s + 1 \<and> sd_data_type v = proto_num (ci_protocol c) \<and>
     sd_direction v = (ci_direction c = T_INGRESS) \<and> sd_syscall_len v = ucast len \<and> sd_fd v = da_fd args \<and>
     ks_socket_info ks' (conn_key env c) = Some s' \<and> si_seq s' = si_seq s + 1"
proof -
  obtain v where v: "get_socket_info env ks c (sd_load (sb_data b) (unat (sb_len b))) = Some v"
    using assms(2,3) get_socket_info_some by blast
  then have wf: "sd_wf v" using wf_get_socket_info sd_wf_load by blast
  obtain s1 where s1: "touch_socket t c len ts extra s = (0, s1)" "si_seq s1 = si_seq s + 1"
    using touch_plain(1) [OF assms(7)] touch_plain(2) by (metis prod.collapse)
  define ks1 where "ks1 = pass_trace_to_peer (ucast (drop_bit 32 (ke_pid_tgid env))) c s tid (upd_socket (conn_key env c) (\<lambda>_. s1) ks)"
  define tid' where "tid' = (if ci_direction c = T_EGRESS \<and> si_trace_id s \<noteq> 0 then si_trace_id s else tid)"
  have u: "socket_update env t c len ts extra si tid ks = (si_uid s, False, si_seq s + 1, 0, tid', ks1)"
    using assms(4,6,7) s1 by (simp add: socket_update_def Let_def is_socket_info_valid_def conn_key_def ks1_def tid'_def)
  define v1 where "v1 = fill_header env ks1 c args len ts extra (si_uid s) False (si_seq s + 1) tid' goid v"
  note f = fill_header_fields [OF v1_def]
  define b1 where "b1 = b\<lparr>sb_data := sd_store (sb_data b) (unat (sb_len b)) v1\<rparr>"
  define ks2 where "ks2 = upd_infer_cache env (ci_protocol c) (set_data_buf env b1 (upd_refcnt env 1 ks1))"
  have wf1: "sd_wf v1" using wf unfolding v1_def by (rule wf_fill_header)
  have q: "quiet ks ks1" using quiet_socket_update [OF u] .
  have ok: "buffer_ok (ke_cpu env) ks" using assms(8,9) by (simp add: buffer_ok_def)
  have p: "pending env ks ks2" unfolding ks2_def b1_def using prepared_same [OF ok q assms(8) wf1] by simp
  have b1: "ks_data_buf ks2 (ke_cpu env) = Some b1" by (simp add: ks2_def upd_infer_cache_def Let_def set_data_buf_def)
  have "sb_ok b1" using p b1 by (simp add: pending_def stream_step_def)
  have e: "(r, ks') = (SUBMIT_OK, output_data_common_5_2 env (Some args) False (tc_data_limit_max t) False 0 t ks2)"
    unfolding assms(15) [symmetric] using assms(1,8,10) v u
    by (simp add: submit_event_def current_data_buf_def not_less ks2_def b1_def v1_def Let_def)
  have n: "unat len = unat (sd_syscall_len v1)" by (simp add: f(5) unsigned_ucast_eq take_bit_nat_eq_self)
  have l: "sb_len b1 \<le> BUFFER_LIMIT" "v1 = sd_load (sb_data b1) (unat (sb_len b1))" using wf1 assms(10) by (simp_all add: b1_def)
  have src: "sd_source v1 \<noteq> source_num DATA_SOURCE_IO_EVENT"
    using f(7) assms(3) source_io [of "ex_source extra"] by (auto simp: plain_message_def)
  have iov: "da_extra_iovlen args = 0" using assms(3) by (simp add: plain_message_def)
  have le: "unat len \<le> unat (tc_data_limit_max t)" using assms(12) by (simp add: word_le_nat_alt)
  have "stream_step (ke_cpu env) [(v1\<lparr>sd_data_len := of_nat (unat len)\<rparr>, bytes_at bytes 0 (unat len))] ks2 ks'"
    using e output_plain_stream [OF b1 \<open>sb_ok b1\<close> l src iov n assms(11,13) le assms(14), of t] by simp
  then have "stream_step (ke_cpu env) [(v1\<lparr>sd_data_len := of_nat (unat len)\<rparr>, bytes_at bytes 0 (unat len))] ks ks'"
    using stream_step_trans [of "ke_cpu env" "[]" ks ks2] p by (simp add: pending_def)
  moreover have "ks_socket_info (upd_socket (conn_key env c) (\<lambda>_. s1) ks) (conn_key env c) = Some s1"
    using assms(5) by (simp add: upd_socket_def)
  from pass_trace_seq [OF this] e s1(2)
  obtain s' where "ks_socket_info ks' (conn_key env c) = Some s'" "si_seq s' = si_seq s + 1"
    by (metis ks1_def ks2_def prod.inject socks_ops(3-5) socks_output)
  ultimately show ?thesis using f e by (intro exI [of _ "v1\<lparr>sd_data_len := of_nat (unat len)\<rparr>"] exI [of _ s']) simp
qed

text \<open>C2: A message on a known socket becomes one event. Take, from 5.2 on, a call with one buffer (read, write, sendto,
  recvfrom: neither a vector nor a second message to send along) on an IPv4 or IPv6 socket whose kernel structure was found, that has an entry with an
  identifier and is not reassembled, whose data were found to be a request or a response and did not come from a file. Let
  the CPU have its context, offsets and statistics, and its push buffer be well formed and filled no further than its limit,
  so that an event of any size fits; let the length be below 16384 and at most the configured limit, which is below 2^31, and
  let one byte more than the length be readable at the buffer, as the code reads that many. Then exactly one
  event is appended to the stream of the CPU: it carries the identifier of the socket, the next sequence number
  of the socket, the protocol, the direction, the descriptor and the length of the call, and its payload is the bytes
  that the thread read or wrote. The entry of the socket then holds that sequence number.\<close>

theorem known_socket_message:
  assumes "ke_ver_5_2_plus env" "ks_offset ks (ke_cpu env) = Some off" "ks_tracer ks (ke_cpu env) = Some t" "ks_stats ks = Some st"
    and "plain_message args extra c" "ci_socket_info_ptr c = Some s" "ks_socket_info ks (conn_key env c) = Some s"
    and "si_uid s \<noteq> 0" "\<not> si_allow_reassembly s"
    and "ks_data_buf ks (ke_cpu env) = Some b" "sb_ok b" "sb_len b \<le> BUFFER_LIMIT"
    and "unat len < BURST_DATA_BUF_SIZE" "len \<le> tc_data_limit_max t" "unat (tc_data_limit_max t) < 2 ^ 31"
    and "ke_read_user env (da_buf args) (unat len + 1) = (0, bytes)"
    and "data_submit_common env c args False len ts extra ks = (r, ks')"
  shows "\<exists>v s'. stream_step (ke_cpu env) [(v, bytes_at bytes 0 (unat len))] ks ks' \<and> r = SUBMIT_OK \<and>
     sd_socket_id v = si_uid s \<and> sd_data_seq v = si_seq s + 1 \<and> sd_data_type v = proto_num (ci_protocol c) \<and>
     sd_direction v = (ci_direction c = T_INGRESS) \<and> sd_syscall_len v = ucast len \<and> sd_fd v = da_fd args \<and>
     ks_socket_info ks' (conn_key env c) = Some s' \<and> si_seq s' = si_seq s + 1"
proof -
  define c1 where "c1 = (if tc_disable_tracing t then c\<lparr>ci_no_trace := True\<rparr> else c)"
  obtain goid tid ks1 where a: "submit_trace env t c1 ts extra ks = (goid, tid, ks1)" by (metis surj_pair)
  have c1: "plain_message args extra c1" "ci_socket_info_ptr c1 = Some s" "conn_key env c1 = conn_key env c"
      "ci_protocol c1 = ci_protocol c" "ci_direction c1 = ci_direction c"
    using assms(5,6) by (simp_all add: c1_def plain_message_def conn_key_def)
  have g: "submit_register env t c1 args len ts extra tid ks1 = (tid, ks1)"
    using c1(2) assms(8) by (simp add: submit_register_def Let_def is_socket_info_valid_def)
  have e: "submit_event env t c1 args False len ts extra (new_socket_info env t c1 args len ts extra) tid goid ks1 = (r, ks')"
    using assms(3,4,5,17) a g c1(1)
    by (auto simp: data_submit_common_def current_tracer_def c1_def [symmetric] plain_message_def)
  have q: "quiet ks ks1" using quiet_submit_trace [OF a] .
  have ok: "buffer_ok (ke_cpu env) ks" using assms(10,11) by (simp add: buffer_ok_def)
  have ks1: "ks_offset ks1 (ke_cpu env) = Some off" "ks_data_buf ks1 (ke_cpu env) = Some b" "ks_socket_info ks1 (conn_key env c1) = Some s"
    using assms(2,7,10) q submit_trace_ids(2) [OF a] submit_trace_offset [OF a] c1(3) by (simp_all add: quiet_def)
  from submit_event_plain [OF assms(1) ks1(1) c1(1,2) ks1(3) assms(8,9) ks1(2) assms(11-16) e]
  show ?thesis using stream_step_trans [OF quiet_step [OF ok q]] c1(3-5) by (metis append_Nil)
qed


definition known_conn :: conn_info_s where
  "known_conn = (example_conn T_EGRESS (Some (example_sock PROTO_HTTP1)))
     \<lparr>ci_protocol := PROTO_HTTP1, ci_message_type := MSG_REQUEST\<rparr>"

definition known_state :: kern_state where
  "known_state = example_kstate\<lparr>ks_socket_info := [conn_key (example_kenv True) known_conn \<mapsto> example_sock PROTO_HTTP1]\<rparr>"

definition known_args :: data_args_t where
  "known_args = empty_args\<lparr>da_fd := 5, da_buf := 0x1000\<rparr>"

theorem known_socket_message_witness:
  "\<exists>v s'. stream_step 0 [(v, map byte ''GET '')] known_state
       (snd (data_submit_common (example_kenv True) known_conn known_args False 4 9 example_extra known_state)) \<and>
     sd_socket_id v = 7 \<and> sd_data_seq v = 2 \<and>
     ks_socket_info (snd (data_submit_common (example_kenv True) known_conn known_args False 4 9 example_extra known_state))
       (conn_key (example_kenv True) known_conn) = Some s' \<and> si_seq s' = 2"
proof -
  let ?env = "example_kenv True"
  define bytes where "bytes = snd (ke_read_user ?env 0x1000 5)"
  obtain r ks' where d: "data_submit_common ?env known_conn known_args False 4 9 example_extra known_state = (r, ks')"
    by (metis surj_pair)
  have env: "ke_ver_5_2_plus ?env" "ke_cpu ?env = 0" by (simp_all add: example_kenv_def)
  have rd: "ke_read_user ?env (da_buf known_args) (unat (4 :: u32) + 1) = (0, bytes)"
    by (simp add: bytes_def example_kenv_def mem_read_def known_args_def example_umem_def)
  have b: "bytes_at bytes 0 (unat (4 :: u32)) = map byte ''GET ''"
    by (simp add: bytes_def bytes_at_def example_kenv_def mem_read_def example_umem_def upt_rec example_get_def buf_of_def)
  have p: "plain_message known_args example_extra known_conn"
    by (simp add: plain_message_def known_conn_def known_args_def example_conn_def example_extra_def empty_args_def PF_INET_def)
  have k: "ks_offset known_state (ke_cpu ?env) = Some example_offset" "ks_tracer known_state (ke_cpu ?env) = Some example_tracer"
      "ks_stats known_state = Some example_stats" "ks_data_buf known_state (ke_cpu ?env) = Some example_buffer"
      "ks_socket_info known_state (conn_key ?env known_conn) = Some (example_sock PROTO_HTTP1)"
    by (simp_all add: known_state_def example_kstate_def)
  have c: "ci_socket_info_ptr known_conn = Some (example_sock PROTO_HTTP1)" by (simp add: known_conn_def example_conn_def)
  have s: "si_uid (example_sock PROTO_HTTP1) \<noteq> 0" "\<not> si_allow_reassembly (example_sock PROTO_HTTP1)"
    by (simp_all add: example_sock_def)
  have "sb_ok example_buffer" using example_buffer_ok [of 0] by (simp add: buffer_ok_def example_kstate_def)
  note known_socket_message [OF env(1) k(1-3) p c k(5) s k(4) this _ _ _ _ rd d]
  moreover have "sb_len example_buffer \<le> BUFFER_LIMIT" "unat (4 :: u32) < BURST_DATA_BUF_SIZE" "4 \<le> tc_data_limit_max example_tracer"
      "unat (tc_data_limit_max example_tracer) < 2 ^ 31"
    by (simp_all add: example_buffer_def BURST_DATA_BUF_SIZE_def example_tracer_def)
  ultimately show ?thesis using b d env(2) by (auto simp: example_sock_def)
qed

end
