(* ===== verification/Split_Reads.thy ===== *)
theory Split_Reads
  imports Socket_Ids
begin

text \<open>
  Messages read in two steps. A program that finds only the header of a message keeps it: the bytes go to the entry
  of the socket, in place if the socket is known, or with the entry that \<^verbatim>\<open>__data_submit\<close> makes for a new socket. The
  next read in the same direction takes them back. For the protocols that do so the two steps give the verdict of the
  message read at once.
\<close>

section \<open>Two reads\<close>

text \<open>What the first read leaves in the maps: the classifier's result and connection go through \<open>store_inference\<close> and
  \<open>data_submit_common\<close>, under the protocol the dispatch reports with \<^verbatim>\<open>MSG_PRESTORE\<close>.\<close>

definition after_first_read ::
    "kern_env \<Rightarrow> traffic_protocol \<Rightarrow> message_type \<times> conn_info_s \<Rightarrow> data_args_t \<Rightarrow> bool \<Rightarrow> u32 \<Rightarrow> process_data_extra
      \<Rightarrow> kern_state \<Rightarrow> kern_state" where
  "after_first_read env proto r args vecs len extra ks =
     (let (t, c1) = r
      in snd (data_submit_common env (c1\<lparr>ci_protocol := proto, ci_message_type := t\<rparr>) args vecs len (da_enter_ts args) extra
                (store_inference env c1 (ks_http2_seq ks) ks)))"

text \<open>The connection of the second read when inference begins: set up like the first one, with the entry now found in
  the map and the bytes kept there.\<close>

definition second_read_conn :: "kern_env \<Rightarrow> conn_info_s \<Rightarrow> kern_state \<Rightarrow> conn_info_s" where
  "second_read_conn env c ks =
     snd (check_and_fetch_prev_data (c\<lparr>ci_socket_info_ptr := ks_socket_info ks (conn_key env c)\<rparr>))"

text \<open>The first read can be submitted: the connection is that of the map, nothing is kept from an earlier read, the CPU
  has its context and the statistics are there, and the socket map has room if the socket is new.\<close>

definition submittable :: "kern_env \<Rightarrow> kern_state \<Rightarrow> conn_info_s \<Rightarrow> bool" where
  "submittable env ks c \<longleftrightarrow>
     ks_socket_info ks (conn_key env c) = ci_socket_info_ptr c \<and> ci_prev_count c = 0 \<and> ci_sk c \<noteq> 0 \<and>
     current_tracer env ks \<noteq> None \<and> ks_stats ks \<noteq> None \<and>
     (ci_socket_info_ptr c = None \<longrightarrow> \<not> ke_map_full env M_socket_info)"

text \<open>What the classifiers see of two connections that differ in the bytes kept.\<close>

definition same_socket :: "socket_info_s option \<Rightarrow> socket_info_s option \<Rightarrow> bool" where
  "same_socket p q \<longleftrightarrow>
     (if is_socket_info_valid p
      then q \<noteq> None \<and> si_uid (the q) = si_uid (the p) \<and> si_l7_proto (the q) = si_l7_proto (the p) \<and>
        si_need_reconfirm (the q) = si_need_reconfirm (the p) \<and> si_tls_end (the q) = si_tls_end (the p)
      else \<not> is_socket_info_valid q)"

lemma same_socketD:
  assumes "same_socket (ci_socket_info_ptr c) (ci_socket_info_ptr c2)"
  shows "is_socket_info_valid (ci_socket_info_ptr c2) = is_socket_info_valid (ci_socket_info_ptr c)"
    "is_infer_socket_valid (ci_socket_info_ptr c2) = is_infer_socket_valid (ci_socket_info_ptr c)"
    "is_infer_socket_valid (ci_socket_info_ptr c) \<Longrightarrow> sock_l7_proto c2 = sock_l7_proto c"
    "is_socket_info_valid (ci_socket_info_ptr c) \<Longrightarrow>
       si_tls_end (the (ci_socket_info_ptr c2)) = si_tls_end (the (ci_socket_info_ptr c)) \<and>
       si_need_reconfirm (the (ci_socket_info_ptr c2)) = si_need_reconfirm (the (ci_socket_info_ptr c))"
    "is_infer_socket_valid (ci_socket_info_ptr c) \<Longrightarrow> is_socket_info_valid (ci_socket_info_ptr c)"
    "other_proto p c2 = other_proto p c"
  using assms
  by (cases "ci_socket_info_ptr c"; cases "ci_socket_info_ptr c2";
      auto simp: same_socket_def is_socket_info_valid_def is_infer_socket_valid_def sock_l7_proto_def other_proto_def
        split: if_splits)+

definition resumes :: "nat \<Rightarrow> buf \<Rightarrow> conn_info_s \<Rightarrow> conn_info_s \<Rightarrow> bool" where
  "resumes k b c c2 \<longleftrightarrow>
     (\<exists>p q. c2 = c\<lparr>ci_prev_buf := p, ci_prev_count := of_nat k, ci_socket_info_ptr := q\<rparr> \<and> agree_on k p b \<and>
        same_socket (ci_socket_info_ptr c) q)"

lemma resumes_port_check:
  assumes "resumes k b c c2"
  shows "protocol_port_check_1 env p c2 = protocol_port_check_1 env p c" "protocol_port_check_2 env p c2 = protocol_port_check_2 env p c"
proof -
  have "ci_tuple c2 = ci_tuple c" "ci_sk_type c2 = ci_sk_type c" using assms by (auto simp: resumes_def)
  then have "protocol_port_check env p c2 i = protocol_port_check env p c i" for i
    by (simp add: protocol_port_check_def split: option.split)
  then show "protocol_port_check_1 env p c2 = protocol_port_check_1 env p c" "protocol_port_check_2 env p c2 = protocol_port_check_2 env p c"
    by (simp_all add: protocol_port_check_1_def protocol_port_check_2_def)
qed

section \<open>Kept bytes come back\<close>

lemma submit_prestore:
  assumes "ci_sk c \<noteq> 0" "ci_message_type c = MSG_PRESTORE" "current_tracer env ks = Some t" "ks_stats ks \<noteq> None"
  obtains tid ks1 where "ks_socket_info ks1 = ks_socket_info ks"
    "snd (data_submit_common env c args vecs len ts extra ks) =
     snd (submit_register env t (c\<lparr>ci_no_trace := ci_no_trace c \<or> tc_disable_tracing t\<rparr>) args len ts extra tid ks1)"
proof -
  let ?c = "c\<lparr>ci_no_trace := ci_no_trace c \<or> tc_disable_tracing t\<rparr>"
  have c: "(if tc_disable_tracing t then c\<lparr>ci_no_trace := True\<rparr> else c) = ?c" by simp
  obtain goid tid ks1 where a: "submit_trace env t ?c ts extra ks = (goid, tid, ks1)" by (metis surj_pair)
  obtain tid' ks2 where b: "submit_register env t ?c args len ts extra tid ks1 = (tid', ks2)" by (metis surj_pair)
  have "snd (data_submit_common env c args vecs len ts extra ks) = snd (submit_register env t ?c args len ts extra tid ks1)"
    using assms a b by (auto simp: data_submit_common_def c)
  then show thesis using that submit_trace_ids(2) [OF a] by blast
qed

lemma new_prestore_fields:
  assumes "ci_message_type c = MSG_PRESTORE"
  shows "si_uid (new_socket_info env t c args len ts extra) = 0"
    "si_direction (new_socket_info env t c args len ts extra) = ci_direction c"
    "si_prev_data_len (new_socket_info env t c args len ts extra) = ci_prev_count c"
    "agree_on 16 (si_prev_data (new_socket_info env t c args len ts extra)) (ci_prev_buf c)"
  using assms by (simp_all add: new_socket_info_def Let_def set_port_def agree_on_def write_at_def)

lemma store_inference_fields:
  "current_tracer env (store_inference env c q ks) = current_tracer env ks"
  "ks_stats (store_inference env c q ks) = ks_stats ks"
  "ks_socket_info ks (conn_key env c) \<noteq> None \<or> ci_socket_info_ptr c = None \<Longrightarrow>
   ks_socket_info (store_inference env c q ks) (conn_key env c) =
     (if ci_socket_info_ptr c = None then ks_socket_info ks (conn_key env c) else ci_socket_info_ptr c)"
  by (auto simp: store_inference_def Let_def upd_socket_def current_tracer_def conn_key_def split: option.split)

lemma save_prev_fields:
  "ci_sk (save_prev_data_from_kern b c k) = ci_sk c" "ci_fd (save_prev_data_from_kern b c k) = ci_fd c"
  "ci_direction (save_prev_data_from_kern b c k) = ci_direction c"
  by (simp_all add: save_prev_data_from_kern_def upd_sock_def)

text \<open>A known socket keeps the bytes in its entry; a new socket gets an entry, without identifier, that has them.\<close>

lemma prestore_entry:
  assumes "submittable env ks c" "k \<le> 16" "c1 = save_prev_data_from_kern b c k"
  shows "\<exists>s. ks_socket_info (after_first_read env proto (MSG_PRESTORE, c1) args vecs len extra ks) (conn_key env c) = Some s \<and>
    si_direction s = ci_direction c \<and> si_prev_data_len s = of_nat k \<and> agree_on k (si_prev_data s) b \<and>
    same_socket (ci_socket_info_ptr c) (Some s)"
proof -
  let ?ks = "store_inference env c1 (ks_http2_seq ks) ks"
  let ?c1 = "c1\<lparr>ci_protocol := proto, ci_message_type := MSG_PRESTORE\<rparr>"
  obtain t where t: "current_tracer env ks = Some t" using assms(1) by (auto simp: submittable_def)
  have key: "conn_key env c1 = conn_key env c" by (simp add: assms(3) conn_key_def save_prev_fields)
  have sk: "ci_sk ?c1 \<noteq> 0" "ci_message_type ?c1 = MSG_PRESTORE" "current_tracer env ?ks = Some t" "ks_stats ?ks \<noteq> None"
    using assms(1) t by (simp_all add: submittable_def assms(3) save_prev_fields store_inference_fields)
  define c3 where "c3 = ?c1\<lparr>ci_no_trace := ci_no_trace ?c1 \<or> tc_disable_tracing t\<rparr>"
  obtain tid ks1 where r: "ks_socket_info ks1 = ks_socket_info ?ks"
    "after_first_read env proto (MSG_PRESTORE, c1) args vecs len extra ks =
     snd (submit_register env t c3 args len (da_enter_ts args) extra tid ks1)"
    unfolding after_first_read_def Let_def prod.case c3_def by (rule submit_prestore [OF sk])
  show ?thesis
  proof (cases "is_socket_info_valid (ci_socket_info_ptr c)")
    case True
    then obtain s where s: "ci_socket_info_ptr c = Some s" "si_uid s \<noteq> 0"
      by (auto simp: is_socket_info_valid_def split: option.splits)
    let ?s = "s\<lparr>si_prev_data := memcpy_buf (si_prev_data s) b k, si_prev_data_len := of_nat k,
        si_pre_direction := si_direction s, si_direction := ci_direction c\<rparr>"
    have c1: "ci_socket_info_ptr c1 = Some ?s" using True s by (simp add: assms(3) save_prev_data_from_kern_def upd_sock_def)
    have "is_socket_info_valid (ci_socket_info_ptr c3)" using c1 s(2) by (simp add: c3_def is_socket_info_valid_def)
    then have "after_first_read env proto (MSG_PRESTORE, c1) args vecs len extra ks = ks1"
      using r(2) by (simp add: submit_register_def c3_def)
    moreover have "ks_socket_info ?ks (conn_key env c) = Some ?s"
      using store_inference_fields(3) [of ks env c1 "ks_http2_seq ks"] c1 key assms(1) s(1) by (simp add: submittable_def)
    ultimately show ?thesis
      using s r(1) by (intro exI [of _ ?s]) (simp add: same_socket_def is_socket_info_valid_def agree_on_def memcpy_buf_def)
  next
    case False
    have c1: "ci_socket_info_ptr c1 = ci_socket_info_ptr c" "ci_prev_count c1 = of_nat k" "agree_on k (ci_prev_buf c1) b"
      using False by (simp_all add: assms(3) save_prev_data_from_kern_def agree_on_def memcpy_buf_def)
    let ?s = "new_socket_info env t c3 args len (da_enter_ts args) extra"
    have p: "ci_message_type c3 = MSG_PRESTORE" by (simp add: c3_def)
    note f = new_prestore_fields [OF p, of env t args len "da_enter_ts args" extra]
    have "ks_socket_info ?ks (conn_key env c) = ci_socket_info_ptr c"
      using store_inference_fields(3) [of ks env c1 "ks_http2_seq ks"] c1(1) key assms(1)
      by (cases "ci_socket_info_ptr c") (simp_all add: submittable_def)
    then have "\<not> (ke_map_full env M_socket_info \<and> ks_socket_info ks1 (conn_key env c) = None)"
      using r(1) assms(1) by (auto simp: submittable_def)
    then have "ks_socket_info (add_socket_info env (conn_key env c) c3 ?s ks1) (conn_key env c) = Some ?s"
      by (auto simp: add_socket_info_def Let_def map_update_def upd_tracer_def upd_stats_def)
    moreover have "after_first_read env proto (MSG_PRESTORE, c1) args vecs len extra ks =
        add_socket_info env (conn_key env c) c3 ?s ks1"
      using r(2) False c1(1) key by (simp add: submit_register_def Let_def c3_def conn_key_def)
    moreover have "agree_on k (si_prev_data ?s) b"
      using f(4) c1(3) assms(2) by (simp add: agree_on_def c3_def)
    ultimately show ?thesis
      using False f c1(2)
      by (intro exI [of _ ?s]) (simp add: same_socket_def is_socket_info_valid_def c3_def assms(3) save_prev_fields)
  qed
qed

lemma resumes_second:
  assumes "submittable env ks c" "0 < k" "k \<le> 16"
  shows "resumes k b c (second_read_conn env c
    (after_first_read env proto (MSG_PRESTORE, save_prev_data_from_kern b c k) args vecs len extra ks))"
proof -
  obtain s where s: "ks_socket_info (after_first_read env proto (MSG_PRESTORE, save_prev_data_from_kern b c k) args vecs len extra ks)
      (conn_key env c) = Some s" "si_direction s = ci_direction c" "si_prev_data_len s = of_nat k" "agree_on k (si_prev_data s) b"
      "same_socket (ci_socket_info_ptr c) (Some s)"
    using prestore_entry [OF assms(1,3) refl, where b = b and proto = proto and args = args and vecs = vecs and len = len and extra = extra]
    by blast
  have pos: "0 < (of_nat k :: u32)" using assms(2,3) by (simp add: word_less_nat_alt unat_of_nat_small)
  let ?p = "memcpy_buf (ci_prev_buf c) (si_prev_data s) EBPF_CACHE_SIZE"
  let ?s = "s\<lparr>si_direction := si_pre_direction s, si_prev_data_len := 0\<rparr>"
  have "second_read_conn env c (after_first_read env proto (MSG_PRESTORE, save_prev_data_from_kern b c k) args vecs len extra ks) =
      c\<lparr>ci_prev_buf := ?p, ci_prev_count := of_nat k, ci_socket_info_ptr := Some ?s\<rparr>"
    using s(1-3) pos by (simp add: second_read_conn_def check_and_fetch_prev_data_def upd_sock_def)
  moreover have "agree_on k ?p b" using s(4) assms(3) by (simp add: agree_on_def memcpy_buf_def EBPF_CACHE_SIZE_def)
  moreover have "same_socket (ci_socket_info_ptr c) (Some ?s)"
    using s(5) by (auto simp: same_socket_def is_socket_info_valid_def split: if_splits option.splits)
  ultimately show ?thesis unfolding resumes_def by blast
qed

section \<open>The protocols that keep headers\<close>

lemma example_submittable: "submittable (example_kenv ver) example_kstate (example_conn d None)"
  by (simp add: submittable_def example_kstate_def example_simps current_tracer_def example_kenv_def)

abbreviation example_second :: "traffic_direction \<Rightarrow> traffic_protocol \<Rightarrow> message_type \<times> conn_info_s \<Rightarrow> u32 \<Rightarrow> conn_info_s" where
  "example_second d proto r len \<equiv>
     second_read_conn (example_kenv True) (example_conn d None)
       (after_first_read (example_kenv True) proto r empty_args False len example_extra example_kstate)"

text \<open>C31: TLS read in two steps. On a connection with no bytes kept, let the first read be the five header bytes of a
  record and no more. If they have one of the content types handshake, change cipher spec or alert and a version from
  0x0301 to 0x0304, the first read is kept, and the second read, of the rest of the record (at least one byte) in the
  same direction, is classified as the record read at once. Otherwise the first read is not recognised.
  (The first read can be submitted: the connection is that of the socket map, the kernel's sock was found, the CPU has
  its context and the statistics are there, and the socket map has room if the socket is new. Both reads and the whole
  are given to this classifier.)\<close>

theorem tls_split_read:
  assumes "submittable env ks c" "0 < n" "5 < n + 5"
    and "r = infer_tls_message b 5 c" "c2 = second_read_conn env c (after_first_read env PROTO_TLS r args vecs 5 extra ks)"
  shows "if b 0 \<in> {0x14, 0x15, 0x16} \<and> 0x301 \<le> bpf_ntohs (ld_u16 b 1) \<and> bpf_ntohs (ld_u16 b 1) \<le> 0x304
    then fst r = MSG_PRESTORE \<and> fst (infer_tls_message (shift_buf b 5) n c2) = fst (infer_tls_message b (n + 5) c)
    else fst r = MSG_UNKNOWN"
proof -
  have c0: "ci_prev_count c = 0" using assms(1) by (simp add: submittable_def)
  let ?header = "b 0 \<in> {0x14, 0x15, 0x16} \<and> 0x301 \<le> bpf_ntohs (ld_u16 b 1) \<and> bpf_ntohs (ld_u16 b 1) \<le> 0x304"
  define v where "v = bpf_ntohs (ld_u16 b 1)"
  have first: "r = (if \<not> (b 0 = 0x16 \<or> b 0 = 0x14 \<or> b 0 = 0x15) then (MSG_UNKNOWN, c)
      else if \<not> (0x301 \<le> v \<and> v \<le> 0x304) then (MSG_UNKNOWN, c) else (MSG_PRESTORE, save_prev_data_from_kern b c 5))"
    using c0 unfolding assms(4) v_def by (simp add: infer_tls_message_def tls_check_def Let_def)
  show ?thesis
  proof (cases ?header)
    case False
    then have "fst r = MSG_UNKNOWN" unfolding first v_def [symmetric] by auto
    then show ?thesis unfolding if_not_P [OF False] .
  next
    case True
    then have r: "r = (MSG_PRESTORE, save_prev_data_from_kern b c 5)" unfolding first v_def [symmetric] by auto
    have "resumes 5 b c c2" unfolding assms(5) r by (rule resumes_second [OF assms(1)]) simp_all
    then obtain p q where c2: "c2 = c\<lparr>ci_prev_buf := p, ci_prev_count := 5, ci_socket_info_ptr := q\<rparr>" "agree_on 5 p b"
      "same_socket (ci_socket_info_ptr c) q" by (auto simp: resumes_def)
    have ss: "same_socket (ci_socket_info_ptr c) (ci_socket_info_ptr c2)" using c2(1,3) by simp
    have p: "p 0 = b 0" "ld_u16 p (Suc 0) = ld_u16 b (Suc 0)"
      using c2(2) by (simp_all add: agree_on_def ld_u16_def)
    have n: "n + 5 \<noteq> 5" "\<not> n + 5 < 6" using assms(2,3) by (auto simp: word_less_nat_alt)
    have "fst (tls_check (shift_buf b 5) (n + 5) h c2) = fst (tls_check b (n + 5) h c)" for h
      using n same_socketD(1,4) [OF ss] by (auto simp: tls_check_def Let_def if_distrib [of fst])
    then have "fst (infer_tls_message (shift_buf b 5) n c2) = fst (infer_tls_message b (n + 5) c)"
      using n c0 by (simp add: infer_tls_message_def Let_def p c2(1))
    then show ?thesis unfolding if_P [OF True] by (simp add: r)
  qed
qed

theorem tls_split_read_witness:
  "fst (infer_tls_message (shift_buf (buf_of [0x16, 3, 1, 0, 50, 1]) 5) 50
     (example_second T_INGRESS PROTO_TLS (infer_tls_message (buf_of [0x16, 3, 1, 0, 50, 1]) 5 (example_conn T_INGRESS None)) 5)) =
   MSG_REQUEST"
proof -
  let ?b = "buf_of [0x16, 3, 1, 0, 50, 1]"
  have "(0::u64) < 50" "(5::u64) < 50 + 5"
    and h: "?b 0 \<in> {0x14, 0x15, 0x16} \<and> 0x301 \<le> bpf_ntohs (ld_u16 ?b 1) \<and> bpf_ntohs (ld_u16 ?b 1) \<le> 0x304"
    and w: "fst (infer_tls_message ?b (50 + 5) (example_conn T_INGRESS None)) = MSG_REQUEST"
    by code_simp+
  note tls_split_read [OF example_submittable this(1,2) refl refl, of ?b, unfolded if_P [OF h]]
  then show ?thesis using w by simp
qed

text \<open>C35: MySQL read in two steps. On a connection that may be MySQL and has no bytes kept, a first read of the four header
  bytes of a packet is kept, and the second read, in the same direction, of the payload is classified as the packet read at
  once. The payload has the length the header gives, which is not zero; if it is four the second read is kept too, as
  the header of a further packet.
  (The first read can be submitted: the connection is that of the socket map, the kernel's sock was found, the CPU has
  its context and the statistics are there, and the socket map has room if the socket is new. Both reads and the whole
  are given to this classifier.)\<close>

theorem mysql_split_read:
  assumes "submittable env ks c" "protocol_port_check_1 benv PROTO_MYSQL c"
    and "len = ld_u32 b 0 AND 0x00ffffff" "len \<noteq> 0"
    and "r = infer_mysql_message benv b 4 c" "c2 = second_read_conn env c (after_first_read env PROTO_UNKNOWN r args vecs 4 extra ks)"
  shows "fst r = MSG_PRESTORE \<and>
    fst (infer_mysql_message benv (shift_buf b 4) (ucast len) c2) =
      (if len = 4 then MSG_PRESTORE else fst (infer_mysql_message benv b (ucast len + 4) c))"
proof -
  have c0: "ci_prev_count c = 0" using assms(1) by (simp add: submittable_def)
  have r: "r = (MSG_PRESTORE, save_prev_data_from_kern b c 4)"
    using assms(2) by (simp add: assms(5) infer_mysql_message_def)
  have rs: "resumes 4 b c c2" unfolding assms(6) r by (rule resumes_second [OF assms(1)]) simp_all
  from this obtain p q where c2: "c2 = c\<lparr>ci_prev_buf := p, ci_prev_count := 4, ci_socket_info_ptr := q\<rparr>" "agree_on 4 p b"
    "same_socket (ci_socket_info_ptr c) q" by (auto simp: resumes_def)
  have ss: "same_socket (ci_socket_info_ptr c) (ci_socket_info_ptr c2)" using c2(1,3) by simp
  have p: "ld_u32 p 0 = ld_u32 b 0" "p 3 = b 3" using c2(2) by (simp_all add: agree_on_def ld_u32_def)
  have n: "ucast len = (4::u64) \<longleftrightarrow> len = 4" "ucast len + 4 \<noteq> (4::u64)"
    using assms(4) by (simp_all add: word_unat_eq_iff [of "ucast len"] word_unat_eq_iff [of len])
  have "fst (mysql_out m com c2) = fst (mysql_out m com c)" for m com by (simp add: mysql_out_def c2(1))
  then have v: "fst (mysql_verdict k len s com x y m c2) = fst (mysql_verdict k len s com x y m c)" for k s com x y m
    using same_socketD(1) [OF ss] unfolding mysql_verdict_def by (simp only: if_distrib [of fst] fst_conv) (simp add: c2(1))
  have chk: "protocol_port_check_1 benv PROTO_MYSQL c2" using assms(2) resumes_port_check [OF rs] by simp
  have f: "ci_prev_count c2 = 4" "ci_prev_buf c2 = p" "ci_sk c2 = ci_sk c" by (simp_all add: c2(1))
  have "fst (infer_mysql_message benv (shift_buf b 4) (ucast len) c2) =
      (if len = 4 then MSG_PRESTORE else fst (infer_mysql_message benv b (ucast len + 4) c))"
    using n c0 assms(2) chk v same_socketD(6) [OF ss]
    by (simp add: infer_mysql_message_def Let_def f p assms(3) [symmetric])
  then show ?thesis by (simp add: r)
qed

theorem mysql_split_read_witness:
  "fst (infer_mysql_message (example_env True []) (shift_buf (buf_of [15, 0, 0, 0, 3]) 4) 15
     (example_second T_EGRESS PROTO_UNKNOWN
        (infer_mysql_message (example_env True []) (buf_of [15, 0, 0, 0, 3]) 4 (example_conn T_EGRESS None)) 4)) = MSG_REQUEST"
proof -
  let ?b = "buf_of [15, 0, 0, 0, 3]"
  have "protocol_port_check_1 (example_env True []) PROTO_MYSQL (example_conn T_EGRESS None)" "15 = ld_u32 ?b 0 AND 0x00ffffff" "(15::u32) \<noteq> 0"
    and w: "fst (infer_mysql_message (example_env True []) ?b (ucast (15::u32) + 4) (example_conn T_EGRESS None)) = MSG_REQUEST"
    by code_simp+
  note mysql_split_read [OF example_submittable this(1-3) refl refl]
  then show ?thesis using w by simp
qed

text \<open>C36: MongoDB read in two steps. On a connection that may be MongoDB and has no bytes kept, for data on their way in: a
  first read of the 16 header bytes of a message is kept, and the second read of its body (at least one byte) is
  classified as the message read at once. On the way out the header is not kept.
  (The first read can be submitted: the connection is that of the socket map, the kernel's sock was found, the CPU has
  its context and the statistics are there, and the socket map has room if the socket is new. Both reads and the whole
  are given to this classifier.)\<close>

theorem mongo_split_read:
  assumes "submittable env ks c" "protocol_port_check_2 benv PROTO_MONGO c"
    and "0 < n" "16 < n + 16"
    and "r = infer_mongo_message benv b 16 c" "c2 = second_read_conn env c (after_first_read env PROTO_MONGO r args vecs 16 extra ks)"
  shows "if ci_direction c = T_INGRESS
    then fst r = MSG_PRESTORE \<and> fst (infer_mongo_message benv (shift_buf b 16) n c2) = fst (infer_mongo_message benv b (n + 16) c)
    else fst r \<noteq> MSG_PRESTORE"
proof (cases "ci_direction c = T_INGRESS")
  case False
  then show ?thesis using assms(1) by (auto simp: submittable_def assms(5) infer_mongo_message_def Let_def)
next
  case True
  have c0: "ci_prev_count c = 0" using assms(1) by (simp add: submittable_def)
  have r: "r = (MSG_PRESTORE, save_prev_data_from_kern b c 16)"
    using assms(2) True c0 by (simp add: assms(5) infer_mongo_message_def Let_def)
  have rs: "resumes 16 b c c2" unfolding assms(6) r by (rule resumes_second [OF assms(1)]) simp_all
  then obtain p q where c2: "c2 = c\<lparr>ci_prev_buf := p, ci_prev_count := 16, ci_socket_info_ptr := q\<rparr>" "agree_on 16 p b"
    "same_socket (ci_socket_info_ptr c) q" by (auto simp: resumes_def)
  have ss: "same_socket (ci_socket_info_ptr c) (ci_socket_info_ptr c2)" using c2(1,3) by simp
  have h: "mongo_message_length p = mongo_message_length b" "mongo_request_id p = mongo_request_id b"
    "mongo_op_code p = mongo_op_code b"
    using c2(2) by (simp_all add: agree_on_def mongo_message_length_def mongo_request_id_def mongo_op_code_def ld_u32_def)
  have chk: "protocol_port_check_2 benv PROTO_MONGO c2" using assms(2) resumes_port_check [OF rs] by simp
  have n: "n + 16 \<noteq> 16" "\<not> n + 16 < 16" using assms(3,4) by auto
  have f: "ci_prev_count c2 = 16" "ci_prev_buf c2 = p" by (simp_all add: c2(1))
  have "fst (infer_mongo_message benv (shift_buf b 16) n c2) = fst (infer_mongo_message benv b (n + 16) c)"
    using n c0 assms(2) chk same_socketD(2,3) [OF ss]
    by (auto simp: infer_mongo_message_def Let_def f h if_distrib [of fst])
  then show ?thesis using True by (simp add: r)
qed

theorem mongo_split_read_witness:
  "fst (infer_mongo_message (example_env True []) (shift_buf (buf_of [20, 0, 0, 0, 1, 0, 0, 0, 0, 0, 0, 0, 0xdd, 7, 0, 0]) 16) 4
     (example_second T_INGRESS PROTO_MONGO (infer_mongo_message (example_env True [])
        (buf_of [20, 0, 0, 0, 1, 0, 0, 0, 0, 0, 0, 0, 0xdd, 7, 0, 0]) 16 (example_conn T_INGRESS None)) 16)) = MSG_REQUEST"
proof -
  let ?b = "buf_of [20, 0, 0, 0, 1, 0, 0, 0, 0, 0, 0, 0, 0xdd, 7, 0, 0]"
  have "protocol_port_check_2 (example_env True []) PROTO_MONGO (example_conn T_INGRESS None)"
    "(0::u64) < 4" "(16::u64) < 4 + 16"
    and w: "fst (infer_mongo_message (example_env True []) ?b (4 + 16) (example_conn T_INGRESS None)) = MSG_REQUEST"
    by code_simp+
  note mongo_split_read [OF example_submittable this(1-3) refl refl, of ?b]
  then show ?thesis using w by (simp add: example_simps)
qed

text \<open>C37: Kafka read in two steps. On a connection that may be Kafka and has no bytes kept, a first read of the four length
  bytes of a message is kept, and the second read, in the same direction, of its body, of that length, gives the verdict, the
  correlation id and the need to confirm the protocol again of the message read at once. The length is not
  zero; if it is four the second read is kept too, as the length of a further message.
  (The first read can be submitted: the connection is that of the socket map, the kernel's sock was found, the CPU has
  its context and the statistics are there, and the socket map has room if the socket is new. Both reads and the whole
  are given to this classifier.)\<close>

theorem kafka_split_read:
  assumes "submittable env ks c" "protocol_port_check_1 benv PROTO_KAFKA c"
    and "n = ucast (bpf_ntohl (ld_u32 b 0))" "n \<noteq> 0"
    and "r = infer_kafka_message benv b 4 c" "c2 = second_read_conn env c (after_first_read env PROTO_UNKNOWN r args vecs 4 extra ks)"
    and "infer_kafka_message benv (shift_buf b 4) n c2 = (t2, d2)" "infer_kafka_message benv b (n + 4) c = (t, d)"
  shows "fst r = MSG_PRESTORE \<and>
    (if n = 4 then t2 = MSG_PRESTORE
     else t2 = t \<and> ci_correlation_id d2 = ci_correlation_id d \<and> ci_need_reconfirm d2 = ci_need_reconfirm d)"
proof -
  have c0: "ci_prev_count c = 0" using assms(1) by (simp add: submittable_def)
  have r: "r = (MSG_PRESTORE, save_prev_data_from_kern b c 4)"
    using assms(2) by (simp add: assms(5) infer_kafka_message_def)
  have rs: "resumes 4 b c c2" unfolding assms(6) r by (rule resumes_second [OF assms(1)]) simp_all
  then obtain p q where c2: "c2 = c\<lparr>ci_prev_buf := p, ci_prev_count := 4, ci_socket_info_ptr := q\<rparr>" "agree_on 4 p b"
    "same_socket (ci_socket_info_ptr c) q" by (auto simp: resumes_def)
  have ss: "same_socket (ci_socket_info_ptr c) (ci_socket_info_ptr c2)" using c2(1,3) by simp
  have ld: "ld_u32 p 0 = ld_u32 b 0" using c2(2) by (simp add: agree_on_def ld_u32_def)
  have f: "ci_prev_count c2 = 4" "ci_prev_buf c2 = p" "ci_role c2 = ci_role c" "ci_direction c2 = ci_direction c"
    "ci_correlation_id c2 = ci_correlation_id c" "ci_need_reconfirm c2 = ci_need_reconfirm c" by (simp_all add: c2(1))
  have "ucast (n + 4) = (ucast n + 4 :: u32)"
    by (simp add: word_uint_eq_iff unsigned_ucast_eq uint_word_ariths take_bit_eq_mod mod_add_left_eq mod_mod_cancel)
  then have sz: "ucast (n + 4) = (bpf_ntohl (ld_u32 b 0) + 4 :: u32)" by (simp only: assms(3) ucast_ucast_u64)
  define ok where "ok = fst (kafka_data_check_len (n + 4) b c)"
  have ok: "kafka_data_check_len n (shift_buf b 4) c2 = (ok, True)" "kafka_data_check_len (n + 4) b c = (ok, False)"
    unfolding ok_def using c0 by (simp_all add: kafka_data_check_len_def Let_def f ld assms(3) [symmetric] sz)
  define v where "v = is_infer_socket_valid (ci_socket_info_ptr c)"
  have v: "is_infer_socket_valid (ci_socket_info_ptr c2) = v" "v \<Longrightarrow> sock_l7_proto c2 = sock_l7_proto c"
    "v \<Longrightarrow> si_need_reconfirm (the (ci_socket_info_ptr c2)) = si_need_reconfirm (the (ci_socket_info_ptr c))"
    using same_socketD(2-5) [OF ss] by (simp_all add: v_def)
  have q: "fst (infer_kafka_request bb w (c2\<lparr>ci_need_reconfirm := x\<rparr>)) = fst (infer_kafka_request bb w (c\<lparr>ci_need_reconfirm := x\<rparr>))"
    "ci_correlation_id (snd (infer_kafka_request bb w (c2\<lparr>ci_need_reconfirm := x\<rparr>))) =
     ci_correlation_id (snd (infer_kafka_request bb w (c\<lparr>ci_need_reconfirm := x\<rparr>)))"
    "ci_need_reconfirm (snd (infer_kafka_request bb w (d\<lparr>ci_need_reconfirm := x\<rparr>))) = x" for bb w x d
    by (simp_all add: infer_kafka_request_def Let_def f)
  let ?R2 = "infer_kafka_message benv (shift_buf b 4) n c2" and ?R = "infer_kafka_message benv b (n + 4) c"
  have four: "t2 = MSG_PRESTORE" if "n = 4"
    using that assms(2,7) resumes_port_check(1) [OF rs] by (simp add: infer_kafka_message_def)
  have "fst ?R2 = fst ?R \<and> ci_correlation_id (snd ?R2) = ci_correlation_id (snd ?R) \<and>
      ci_need_reconfirm (snd ?R2) = ci_need_reconfirm (snd ?R)" if "n \<noteq> 4"
    using that assms(2,4) resumes_port_check(1) [OF rs] v
    by (cases ok; cases v) (simp_all add: infer_kafka_message_def ok Let_def split_beta q f v_def [symmetric])
  with four show ?thesis using assms(7,8) by (simp add: r)
qed

theorem kafka_split_read_witness:
  "fst (infer_kafka_message (example_env True []) (shift_buf (buf_of [0, 0, 0, 8, 0, 3, 0, 1, 0, 0, 0, 7]) 4) 8
     (example_second T_EGRESS PROTO_UNKNOWN (infer_kafka_message (example_env True [])
        (buf_of [0, 0, 0, 8, 0, 3, 0, 1, 0, 0, 0, 7]) 4 (example_conn T_EGRESS None)) 4)) = MSG_REQUEST"
proof -
  let ?b = "buf_of [0, 0, 0, 8, 0, 3, 0, 1, 0, 0, 0, 7]"
  have "protocol_port_check_1 (example_env True []) PROTO_KAFKA (example_conn T_EGRESS None)"
    "8 = (ucast (bpf_ntohl (ld_u32 ?b 0)) :: u64)" "(8::u64) \<noteq> 0"
    and w: "fst (infer_kafka_message (example_env True []) ?b (8 + 4) (example_conn T_EGRESS None)) = MSG_REQUEST"
    by code_simp+
  note kafka_split_read [OF example_submittable this(1-3) refl refl prod.collapse [symmetric] prod.collapse [symmetric]]
  then show ?thesis using w by simp
qed

end
