(* ===== verification/Ring.thy ===== *)
theory Ring
  imports ZT_Prelude
begin

text \<open>
  The ring of \<^verbatim>\<open>user/ring.h\<close> and \<^verbatim>\<open>user/ring.c\<close>, through which the threads that read the perf buffers hand
  events to the workers. The indices of producer and consumer run over all 32-bit values and are masked
  when the table is accessed. The memory behind the structure (\<^verbatim>\<open>&r[1]\<close>) is the field \<^verbatim>\<open>r_table\<close>.
\<close>

unbundle bit_operations_syntax

section \<open>The structure and its creation\<close>

datatype ring_queue_behavior = RING_QUEUE_FIXED | RING_QUEUE_VARIABLE

record ring_headtail =
  ht_head :: u32
  ht_tail :: u32
  ht_single :: bool

record 'a ring =
  r_flags :: u32
  r_size :: u32
  r_mask :: u32
  r_capacity :: u32
  r_prod :: ring_headtail
  r_cons :: ring_headtail
  r_table :: "nat \<Rightarrow> 'a"

definition RING_F_SP_ENQ :: u32 where "RING_F_SP_ENQ = 1"
definition RING_F_SC_DEQ :: u32 where "RING_F_SC_DEQ = 2"
definition RING_F_EXACT_SZ :: u32 where "RING_F_EXACT_SZ = 4"
definition RING_SZ_MASK :: u32 where "RING_SZ_MASK = 0x7fffffff"

text \<open>\<^verbatim>\<open>MEMZONE_NAMESIZE\<close>, \<^verbatim>\<open>sizeof(struct ring)\<close> with its cache line alignment, and the error numbers.\<close>

definition MEMZONE_NAMESIZE :: nat where "MEMZONE_NAMESIZE = 32"
definition RING_STRUCT_SZ :: u64 where "RING_STRUCT_SZ = 384"
definition EINVAL :: int where "EINVAL = 22"
definition ENAMETOOLONG :: int where "ENAMETOOLONG = 36"

definition align32pow2 :: "u32 \<Rightarrow> u32" where
  "align32pow2 x0 =
     (let x = x0 - 1;
          x = x OR drop_bit 1 x;
          x = x OR drop_bit 2 x;
          x = x OR drop_bit 4 x;
          x = x OR drop_bit 8 x;
          x = x OR drop_bit 16 x
      in x + 1)"

definition POWEROF2 :: "u32 \<Rightarrow> bool" where
  "POWEROF2 x \<longleftrightarrow> (x - 1) AND x = 0"

definition ALIGN_CEIL :: "u64 \<Rightarrow> u64 \<Rightarrow> u64" where
  "ALIGN_CEIL val align = (val + (align - 1)) AND NOT (align - 1)"

definition ring_get_memsize :: "u32 \<Rightarrow> int + u64" where
  "ring_get_memsize count =
     (if \<not> POWEROF2 count \<or> count > RING_SZ_MASK then Inl (- EINVAL)
      else Inr (ALIGN_CEIL (RING_STRUCT_SZ + ucast count * 8) 64))"

text \<open>\<open>zero\<close> is the content of a zeroed slot. A name that does not fit leaves the structure zeroed.\<close>

definition ring_zero :: "'a \<Rightarrow> 'a ring" where
  "ring_zero zero =
     \<lparr>r_flags = 0, r_size = 0, r_mask = 0, r_capacity = 0,
      r_prod = \<lparr>ht_head = 0, ht_tail = 0, ht_single = False\<rparr>,
      r_cons = \<lparr>ht_head = 0, ht_tail = 0, ht_single = False\<rparr>, r_table = (\<lambda>_. zero)\<rparr>"

definition ring_init :: "string \<Rightarrow> u32 \<Rightarrow> u32 \<Rightarrow> 'a ring \<Rightarrow> int \<times> 'a ring" where
  "ring_init name count flags r =
     (let r0 = r\<lparr>r_flags := 0, r_size := 0, r_mask := 0, r_capacity := 0,
                 r_prod := \<lparr>ht_head = 0, ht_tail = 0, ht_single = False\<rparr>,
                 r_cons := \<lparr>ht_head = 0, ht_tail = 0, ht_single = False\<rparr>\<rparr>;
          r1 = r0\<lparr>r_flags := flags,
                  r_prod := (r_prod r0)\<lparr>ht_single := flags AND RING_F_SP_ENQ \<noteq> 0\<rparr>,
                  r_cons := (r_cons r0)\<lparr>ht_single := flags AND RING_F_SC_DEQ \<noteq> 0\<rparr>\<rparr>
      in if length name \<ge> MEMZONE_NAMESIZE then (- ENAMETOOLONG, r0)
         else if flags AND RING_F_EXACT_SZ \<noteq> 0
         then (0, r1\<lparr>r_size := align32pow2 (count + 1), r_mask := align32pow2 (count + 1) - 1, r_capacity := count\<rparr>)
         else if \<not> POWEROF2 count \<or> count > RING_SZ_MASK then (- EINVAL, r1)
         else (0, r1\<lparr>r_size := count, r_mask := count - 1, r_capacity := count - 1\<rparr>))"

text \<open>\<open>calloc\<close> gives the zeroed memory or fails. The result of \<^verbatim>\<open>ring_init\<close> is dropped.\<close>

definition ring_create :: "(u64 \<Rightarrow> bool) \<Rightarrow> 'a \<Rightarrow> string \<Rightarrow> u32 \<Rightarrow> u32 \<Rightarrow> 'a ring option" where
  "ring_create calloc zero name count flags =
     (case ring_get_memsize (if flags AND RING_F_EXACT_SZ \<noteq> 0 then align32pow2 (count + 1) else count) of
        Inl _ \<Rightarrow> None
      | Inr sz \<Rightarrow> if calloc sz then Some (snd (ring_init name count flags (ring_zero zero))) else None)"

section \<open>Copying into and out of the table\<close>

text \<open>The loop by fours and the loop by ones of \<^verbatim>\<open>ENQUEUE_PTRS\<close> and \<^verbatim>\<open>DEQUEUE_PTRS\<close>: \<open>k\<close> rounds from position \<open>si\<close>
  of \<open>src\<close> to position \<open>di\<close> of \<open>dst\<close>.\<close>

fun copy_by_4 :: "nat \<Rightarrow> nat \<Rightarrow> nat \<Rightarrow> (nat \<Rightarrow> 'a) \<Rightarrow> (nat \<Rightarrow> 'a) \<Rightarrow> nat \<Rightarrow> 'a" where
  "copy_by_4 0 di si src dst = dst"
| "copy_by_4 (Suc k) di si src dst =
     copy_by_4 k (di + 4) (si + 4) src
       (dst(di := src si, di + 1 := src (si + 1), di + 2 := src (si + 2), di + 3 := src (si + 3)))"

fun copy_by_1 :: "nat \<Rightarrow> nat \<Rightarrow> nat \<Rightarrow> (nat \<Rightarrow> 'a) \<Rightarrow> (nat \<Rightarrow> 'a) \<Rightarrow> nat \<Rightarrow> 'a" where
  "copy_by_1 0 di si src dst = dst"
| "copy_by_1 (Suc k) di si src dst = copy_by_1 k (di + 1) (si + 1) src (dst(di := src si))"

definition ENQUEUE_PTRS :: "'a ring \<Rightarrow> u32 \<Rightarrow> (nat \<Rightarrow> 'a) \<Rightarrow> u32 \<Rightarrow> 'a ring" where
  "ENQUEUE_PTRS r prod_head obj_table n =
     (let size = r_size r;
          idx = prod_head AND r_mask r;
          i = unat idx; m = unat n
      in r\<lparr>r_table :=
             (if idx + n < size
              then copy_by_1 (m mod 4) (i + 4 * (m div 4)) (4 * (m div 4)) obj_table
                     (copy_by_4 (m div 4) i 0 obj_table (r_table r))
              else copy_by_1 (m - (unat size - i)) 0 (unat size - i) obj_table
                     (copy_by_1 (unat size - i) i 0 obj_table (r_table r)))\<rparr>)"

definition DEQUEUE_PTRS :: "'a ring \<Rightarrow> u32 \<Rightarrow> (nat \<Rightarrow> 'a) \<Rightarrow> u32 \<Rightarrow> nat \<Rightarrow> 'a" where
  "DEQUEUE_PTRS r cons_head obj_table n =
     (let size = r_size r;
          idx = cons_head AND r_mask r;
          i = unat idx; m = unat n
      in if idx + n < size
         then copy_by_1 (m mod 4) (4 * (m div 4)) (i + 4 * (m div 4)) (r_table r)
                (copy_by_4 (m div 4) 0 i (r_table r) obj_table)
         else copy_by_1 (m - (unat size - i)) (unat size - i) 0 (r_table r)
                (copy_by_1 (unat size - i) 0 i (r_table r) obj_table))"

section \<open>Moving the indices\<close>

text \<open>How many objects are taken on, given what there is room for.\<close>

definition burst_size :: "ring_queue_behavior \<Rightarrow> u32 \<Rightarrow> u32 \<Rightarrow> u32" where
  "burst_size behavior n avail =
     (if n > avail then (if behavior = RING_QUEUE_FIXED then 0 else avail) else n)"

definition prod_free :: "'a ring \<Rightarrow> u32 \<Rightarrow> u32" where
  "prod_free r old_head = r_capacity r + ht_tail (r_cons r) - old_head"

definition cons_entries :: "'a ring \<Rightarrow> u32 \<Rightarrow> u32" where
  "cons_entries r old_head = ht_tail (r_prod r) - old_head"

text \<open>The four indices as they are written.\<close>

definition set_prod_head :: "u32 \<Rightarrow> 'a ring \<Rightarrow> 'a ring" where
  "set_prod_head h r = r\<lparr>r_prod := (r_prod r)\<lparr>ht_head := h\<rparr>\<rparr>"
definition set_prod_tail :: "u32 \<Rightarrow> 'a ring \<Rightarrow> 'a ring" where
  "set_prod_tail h r = r\<lparr>r_prod := (r_prod r)\<lparr>ht_tail := h\<rparr>\<rparr>"
definition set_cons_head :: "u32 \<Rightarrow> 'a ring \<Rightarrow> 'a ring" where
  "set_cons_head h r = r\<lparr>r_cons := (r_cons r)\<lparr>ht_head := h\<rparr>\<rparr>"
definition set_cons_tail :: "u32 \<Rightarrow> 'a ring \<Rightarrow> 'a ring" where
  "set_cons_tail h r = r\<lparr>r_cons := (r_cons r)\<lparr>ht_tail := h\<rparr>\<rparr>"

text \<open>Undisturbed by other threads the exchange succeeds at once, so that the loop runs once: the number of objects, the old and the new
  head, the free entries, and the ring.\<close>

definition ring_move_prod_head ::
    "'a ring \<Rightarrow> u32 \<Rightarrow> ring_queue_behavior \<Rightarrow> u32 \<times> u32 \<times> u32 \<times> u32 \<times> 'a ring" where
  "ring_move_prod_head r n0 behavior =
     (let old_head = ht_head (r_prod r);
          free_entries = prod_free r old_head;
          n = burst_size behavior n0 free_entries
      in if n = 0 then (0, old_head, old_head, free_entries, r)
         else (n, old_head, old_head + n, free_entries, set_prod_head (old_head + n) r))"

definition ring_move_cons_head ::
    "'a ring \<Rightarrow> u32 \<Rightarrow> ring_queue_behavior \<Rightarrow> u32 \<times> u32 \<times> u32 \<times> u32 \<times> 'a ring" where
  "ring_move_cons_head r n0 behavior =
     (let old_head = ht_head (r_cons r);
          entries = cons_entries r old_head;
          n = burst_size behavior n0 entries
      in if n = 0 then (0, old_head, old_head, entries, r)
         else (n, old_head, old_head + n, entries, set_cons_head (old_head + n) r))"

text \<open>An enqueue that no other operation overlaps: the number of objects taken on, the free space left, the ring.\<close>

definition ring_do_enqueue ::
    "'a ring \<Rightarrow> (nat \<Rightarrow> 'a) \<Rightarrow> u32 \<Rightarrow> ring_queue_behavior \<Rightarrow> u32 \<times> u32 \<times> 'a ring" where
  "ring_do_enqueue r obj_table n0 behavior =
     (case ring_move_prod_head r n0 behavior of
        (n, prod_head, prod_next, free_entries, r1) \<Rightarrow>
          (n, free_entries - n,
           if n = 0 then r1 else set_prod_tail prod_next (ENQUEUE_PTRS r1 prod_head obj_table n)))"

definition ring_do_dequeue ::
    "'a ring \<Rightarrow> (nat \<Rightarrow> 'a) \<Rightarrow> u32 \<Rightarrow> ring_queue_behavior \<Rightarrow> u32 \<times> u32 \<times> (nat \<Rightarrow> 'a) \<times> 'a ring" where
  "ring_do_dequeue r obj_table n0 behavior =
     (case ring_move_cons_head r n0 behavior of
        (n, cons_head, cons_next, entries, r1) \<Rightarrow>
          if n = 0 then (0, entries, obj_table, r1)
          else (n, entries - n, DEQUEUE_PTRS r1 cons_head obj_table n, set_cons_tail cons_next r1))"

definition ring_count :: "'a ring \<Rightarrow> u32" where
  "ring_count r =
     (let count = (ht_tail (r_prod r) - ht_tail (r_cons r)) AND r_mask r
      in if count > r_capacity r then r_capacity r else count)"

definition ring_free_count :: "'a ring \<Rightarrow> u32" where
  "ring_free_count r = r_capacity r - ring_count r"

definition ring_full :: "'a ring \<Rightarrow> bool" where "ring_full r \<longleftrightarrow> ring_free_count r = 0"
definition ring_empty :: "'a ring \<Rightarrow> bool" where "ring_empty r \<longleftrightarrow> ring_count r = 0"


section \<open>Well-formed rings\<close>

definition ring_wf :: "'a ring \<Rightarrow> bool" where
  "ring_wf r \<longleftrightarrow> (\<exists>k<32. r_size r = 2 ^ k \<and> r_mask r = mask k) \<and> r_capacity r < r_size r"

text \<open>The slot of an index.\<close>

definition slot :: "'a ring \<Rightarrow> u32 \<Rightarrow> nat" where
  "slot r h = unat (h AND r_mask r)"

lemma ring_wfE:
  assumes "ring_wf r"
  obtains k where "k < 32" "unat (r_size r) = 2 ^ k" "r_mask r = mask k" "unat (r_capacity r) < 2 ^ k"
    "\<And>h. slot r h = unat h mod 2 ^ k"
proof -
  from assms obtain k where k: "k < 32" "r_size r = 2 ^ k" "r_mask r = mask k" "r_capacity r < r_size r"
    by (auto simp: ring_wf_def)
  then have s: "unat (r_size r) = 2 ^ k" using unat_2_pow [of k] by simp
  have "slot r h = unat h mod 2 ^ k" for h
    by (simp add: slot_def k take_bit_eq_mask [symmetric] unsigned_take_bit_eq del: take_bit_eq_mod)
      (simp add: take_bit_eq_mod)
  then show ?thesis using that [OF k(1) s k(3)] k(4) s by (simp add: word_less_nat_alt)
qed

lemma slot_add:
  assumes "ring_wf r"
  shows "slot r (h + of_nat i) = (slot r h + i) mod unat (r_size r)"
proof -
  from assms obtain k where k: "k < 32" "unat (r_size r) = 2 ^ k" "\<And>h. slot r h = unat h mod 2 ^ k" by (rule ring_wfE) metis
  have d: "(2::nat) ^ k dvd 2 ^ 32" using k(1) by (intro le_imp_power_dvd) simp
  have "unat (h + of_nat i) mod 2 ^ k = (unat h + i) mod 2 ^ 32 mod 2 ^ k"
    by (simp add: unat_word_ariths unsigned_of_nat take_bit_eq_mod mod_simps)
  also have "\<dots> = (unat h + i) mod 2 ^ k" using d by (rule mod_mod_cancel)
  finally show ?thesis by (simp add: k mod_simps)
qed

lemma slot_less: "ring_wf r \<Longrightarrow> slot r h < unat (r_size r)"
  by (erule ring_wfE) simp

section \<open>The unrolled copies against their specification\<close>

lemma copy_by_1: "copy_by_1 k di si src dst = (\<lambda>j. if di \<le> j \<and> j < di + k then src (si + (j - di)) else dst j)"
proof (induction k arbitrary: di si dst)
  case (Suc k)
  have "Suc (si + x - Suc di) = si + x - di" if "Suc di \<le> x" for x using that by arith
  then show ?case unfolding copy_by_1.simps Suc by (auto simp: fun_eq_iff)
qed (auto simp: fun_eq_iff)

lemma copy_by_4: "copy_by_4 k di si src dst = (\<lambda>j. if di \<le> j \<and> j < di + 4 * k then src (si + (j - di)) else dst j)"
proof (induction k arbitrary: di si dst)
  case (Suc k)
  have "j = di \<or> j = di + 1 \<or> j = di + 2 \<or> j = di + 3 \<or> di + 4 \<le> j" if "di \<le> j" for j using that by arith
  then show ?case unfolding copy_by_4.simps Suc by (auto simp: fun_eq_iff)
qed (auto simp: fun_eq_iff)

lemma copy_mixed:
  "copy_by_1 (m mod 4) (di + 4 * (m div 4)) (si + 4 * (m div 4)) src (copy_by_4 (m div 4) di si src dst) =
   (\<lambda>j. if di \<le> j \<and> j < di + m then src (si + (j - di)) else dst j)"
proof -
  have "4 * (m div 4) + m mod 4 = m" by simp
  then show ?thesis by (auto simp: copy_by_1 copy_by_4 fun_eq_iff)
qed

lemma fits_iff:
  assumes "ring_wf r" "unat n \<le> unat (r_size r)"
  shows "((h AND r_mask r) + n < r_size r) = (slot r h + unat n < unat (r_size r))"
proof -
  from assms(1) obtain k where k: "k < 32" "unat (r_size r) = 2 ^ k" by (rule ring_wfE)
  have "slot r h < 2 ^ k" using slot_less [OF assms(1)] k by simp
  moreover have "(2::nat) ^ k \<le> 2 ^ 31" using k(1) by (intro power_increasing) auto
  ultimately have "slot r h + unat n < 2 ^ 32" using assms(2) k by simp
  then have "unat ((h AND r_mask r) + n) = slot r h + unat n" by (simp add: slot_def unat_word_ariths)
  then show ?thesis by (simp add: word_less_nat_alt)
qed

lemma ENQUEUE_PTRS_slot:
  assumes "ring_wf r" "unat n \<le> unat (r_size r)" "i < unat (r_size r)"
  shows "r_table (ENQUEUE_PTRS r h obj n) (slot r (h + of_nat i)) =
     (if i < unat n then obj i else r_table r (slot r (h + of_nat i)))"
proof -
  define S where "S = unat (r_size r)"
  define d where "d = slot r h"
  have d: "d < S" "i < S" "unat n \<le> S" using assms slot_less [OF assms(1)] by (simp_all add: d_def S_def)
  have s: "slot r (h + of_nat i) = (if d + i < S then d + i else d + i - S)"
    using slot_add [OF assms(1), of h i] d by (simp add: d_def S_def mod_if)
  have "unat (h AND r_mask r) = d" by (simp add: d_def slot_def)
  then show ?thesis
    using d copy_mixed [of "unat n" d 0 obj "r_table r"]
    by (auto simp: ENQUEUE_PTRS_def Let_def fits_iff [OF assms(1,2)] s copy_by_1 d_def [symmetric] S_def [symmetric])
qed

lemma DEQUEUE_PTRS_slot:
  assumes "ring_wf r" "unat n \<le> unat (r_size r)"
  shows "DEQUEUE_PTRS r h obj n i = (if i < unat n then r_table r (slot r (h + of_nat i)) else obj i)"
proof -
  define S where "S = unat (r_size r)"
  define d where "d = slot r h"
  have d: "d < S" "unat n \<le> S" using assms slot_less [OF assms(1)] by (simp_all add: d_def S_def)
  have s: "slot r (h + of_nat i) = (if d + i < S then d + i else i + d - S)" if "i < unat n"
    using slot_add [OF assms(1), of h i] d that by (simp add: d_def S_def mod_if) (simp add: add.commute)
  have a: "unat (h AND r_mask r) = d" by (simp add: d_def slot_def)
  show ?thesis
  proof (cases "d + unat n < S")
    case True
    then show ?thesis using d s copy_mixed [of "unat n" 0 d "r_table r" obj]
      by (auto simp: DEQUEUE_PTRS_def Let_def fits_iff [OF assms] a d_def [symmetric] S_def [symmetric])
  next
    case False
    then show ?thesis using d s
      by (auto simp: DEQUEUE_PTRS_def Let_def fits_iff [OF assms] copy_by_1 a d_def [symmetric] S_def [symmetric])
  qed
qed


lemma slot_inj:
  assumes "ring_wf r" "slot r (h + of_nat i) = slot r (h + of_nat j)" "i < unat (r_size r)" "j < unat (r_size r)"
  shows "i = j"
proof -
  have "(slot r h + i) mod unat (r_size r) = (slot r h + j) mod unat (r_size r)" using assms(2) slot_add [OF assms(1)] by simp
  then show ?thesis using slot_less [OF assms(1), of h] assms(3,4) by (auto simp: mod_if split: if_splits)
qed

lemma ENQUEUE_PTRS_other:
  assumes "ring_wf r" "unat n \<le> unat (r_size r)" "p < unat (r_size r)" "\<And>j. j < unat n \<Longrightarrow> slot r (h + of_nat j) \<noteq> p"
  shows "r_table (ENQUEUE_PTRS r h obj n) p = r_table r p"
proof -
  define j where "j = (if slot r h \<le> p then p - slot r h else p + unat (r_size r) - slot r h)"
  have "j < unat (r_size r)" using assms(3) slot_less [OF assms(1), of h] by (auto simp: j_def)
  moreover have "slot r (h + of_nat j) = p"
    using assms(3) slot_less [OF assms(1), of h] by (auto simp: slot_add [OF assms(1)] j_def)
  ultimately show ?thesis using ENQUEUE_PTRS_slot [OF assms(1,2)] assms(4) by metis
qed

section \<open>The ring as a bounded queue\<close>

text \<open>What the threads of the agent rely on: a queue that takes as many objects as there is room for and gives them
  back in order.\<close>

locale bounded_queue =
  fixes enq :: "'q \<Rightarrow> 'a list \<Rightarrow> nat \<times> 'q" and deq :: "'q \<Rightarrow> nat \<Rightarrow> 'a list \<times> 'q"
    and objs :: "'q \<Rightarrow> 'a list" and cap :: "'q \<Rightarrow> nat" and ok :: "'q \<Rightarrow> bool" and limit :: nat
  assumes enq_spec: "ok q \<Longrightarrow> length xs < limit \<Longrightarrow> enq q xs = (n, q') \<Longrightarrow>
      ok q' \<and> cap q' = cap q \<and> n = min (length xs) (cap q - length (objs q)) \<and> objs q' = objs q @ take n xs"
    and deq_spec: "ok q \<Longrightarrow> m < limit \<Longrightarrow> deq q m = (ys, q') \<Longrightarrow>
      ok q' \<and> cap q' = cap q \<and> ys = take m (objs q) \<and> objs q' = drop m (objs q)"
    and bound: "ok q \<Longrightarrow> length (objs q) \<le> cap q"
begin

lemma enq_all: "ok q \<Longrightarrow> length xs < limit \<Longrightarrow> length (objs q) + length xs \<le> cap q \<Longrightarrow> enq q xs = (n, q') \<Longrightarrow> n = length xs \<and> objs q' = objs q @ xs"
  using enq_spec by fastforce

lemma enq_deq_empty: "ok q \<Longrightarrow> objs q = [] \<Longrightarrow> length xs < limit \<Longrightarrow> length xs \<le> cap q \<Longrightarrow> enq q xs = (n, q') \<Longrightarrow>
   deq q' (length xs) = (ys, q'') \<Longrightarrow> ys = xs \<and> objs q'' = []"
  using enq_spec [of q xs n q'] deq_spec [of q' "length xs" ys q''] by simp

end

text \<open>A ring at rest: no operation is under way.\<close>

definition ring_rest :: "'a ring \<Rightarrow> bool" where
  "ring_rest r \<longleftrightarrow> ring_wf r \<and> ht_head (r_prod r) = ht_tail (r_prod r) \<and> ht_head (r_cons r) = ht_tail (r_cons r) \<and>
     ht_tail (r_prod r) - ht_tail (r_cons r) \<le> r_capacity r"

definition ring_used :: "'a ring \<Rightarrow> nat" where
  "ring_used r = unat (ht_tail (r_prod r) - ht_tail (r_cons r))"

definition ring_objs :: "'a ring \<Rightarrow> 'a list" where
  "ring_objs r = map (\<lambda>i. r_table r (slot r (ht_tail (r_cons r) + of_nat i))) [0..<ring_used r]"

definition ring_enqueue_burst :: "'a ring \<Rightarrow> 'a list \<Rightarrow> nat \<times> 'a ring" where
  "ring_enqueue_burst r xs =
     (case ring_do_enqueue r (\<lambda>i. xs ! i) (of_nat (length xs)) RING_QUEUE_VARIABLE of (n, _, r') \<Rightarrow> (unat n, r'))"

definition ring_dequeue_burst :: "'a ring \<Rightarrow> nat \<Rightarrow> 'a list \<times> 'a ring" where
  "ring_dequeue_burst r n =
     (case ring_do_dequeue r (r_table r) (of_nat n) RING_QUEUE_VARIABLE of
        (k, _, t, r') \<Rightarrow> (map t [0..<unat k], r'))"

text \<open>The variants that take on all objects or none, and those for one object (0, or \<^verbatim>\<open>-ENOBUFS\<close>, \<^verbatim>\<open>-ENOENT\<close>).\<close>

definition ENOBUFS :: int where "ENOBUFS = 105"
definition ENOENT :: int where "ENOENT = 2"

definition ring_enqueue_bulk :: "'a ring \<Rightarrow> 'a list \<Rightarrow> nat \<times> 'a ring" where
  "ring_enqueue_bulk r xs =
     (case ring_do_enqueue r (\<lambda>i. xs ! i) (of_nat (length xs)) RING_QUEUE_FIXED of (n, _, r') \<Rightarrow> (unat n, r'))"

definition ring_dequeue_bulk :: "'a ring \<Rightarrow> nat \<Rightarrow> 'a list \<times> 'a ring" where
  "ring_dequeue_bulk r n =
     (case ring_do_dequeue r (r_table r) (of_nat n) RING_QUEUE_FIXED of
        (k, _, t, r') \<Rightarrow> (map t [0..<unat k], r'))"

definition ring_enqueue :: "'a ring \<Rightarrow> 'a \<Rightarrow> int \<times> 'a ring" where
  "ring_enqueue r obj = (case ring_enqueue_bulk r [obj] of (n, r') \<Rightarrow> (if n \<noteq> 0 then 0 else - ENOBUFS, r'))"

definition ring_dequeue :: "'a ring \<Rightarrow> (int + 'a) \<times> 'a ring" where
  "ring_dequeue r = (case ring_dequeue_bulk r 1 of (xs, r') \<Rightarrow> (case xs of [] \<Rightarrow> Inl (- ENOENT) | x # _ \<Rightarrow> Inr x, r'))"

lemma indices [simp]:
  "r_size (set_prod_head h r) = r_size r" "r_size (set_prod_tail h r) = r_size r"
  "r_size (set_cons_head h r) = r_size r" "r_size (set_cons_tail h r) = r_size r"
  "r_mask (set_prod_head h r) = r_mask r" "r_mask (set_prod_tail h r) = r_mask r"
  "r_mask (set_cons_head h r) = r_mask r" "r_mask (set_cons_tail h r) = r_mask r"
  "r_capacity (set_prod_head h r) = r_capacity r" "r_capacity (set_prod_tail h r) = r_capacity r"
  "r_capacity (set_cons_head h r) = r_capacity r" "r_capacity (set_cons_tail h r) = r_capacity r"
  "r_table (set_prod_head h r) = r_table r" "r_table (set_prod_tail h r) = r_table r"
  "r_table (set_cons_head h r) = r_table r" "r_table (set_cons_tail h r) = r_table r"
  "r_cons (set_prod_head h r) = r_cons r" "r_cons (set_prod_tail h r) = r_cons r"
  "r_prod (set_cons_head h r) = r_prod r" "r_prod (set_cons_tail h r) = r_prod r"
  "r_prod (set_prod_head h r) = (r_prod r)\<lparr>ht_head := h\<rparr>" "r_prod (set_prod_tail h r) = (r_prod r)\<lparr>ht_tail := h\<rparr>"
  "r_cons (set_cons_head h r) = (r_cons r)\<lparr>ht_head := h\<rparr>" "r_cons (set_cons_tail h r) = (r_cons r)\<lparr>ht_tail := h\<rparr>"
  by (simp_all add: set_prod_head_def set_prod_tail_def set_cons_head_def set_cons_tail_def)

lemma ENQUEUE_PTRS_frame [simp]:
  "r_size (ENQUEUE_PTRS r h obj n) = r_size r" "r_mask (ENQUEUE_PTRS r h obj n) = r_mask r"
  "r_capacity (ENQUEUE_PTRS r h obj n) = r_capacity r" "r_prod (ENQUEUE_PTRS r h obj n) = r_prod r"
  "r_cons (ENQUEUE_PTRS r h obj n) = r_cons r"
  by (simp_all add: ENQUEUE_PTRS_def Let_def)

lemma wf_slot_cong:
  assumes "r_size r' = r_size r" "r_mask r' = r_mask r" "r_capacity r' = r_capacity r"
  shows "ring_wf r' = ring_wf r" "slot r' = slot r"
  using assms by (simp_all add: ring_wf_def slot_def fun_eq_iff)


lemma ring_used_bound: "ring_rest r \<Longrightarrow> ring_used r \<le> unat (r_capacity r) \<and> unat (r_capacity r) < unat (r_size r)"
  by (simp add: ring_rest_def ring_used_def ring_wf_def word_le_nat_alt word_less_nat_alt)

lemma prod_tail_eq: "ht_tail (r_prod r) = ht_tail (r_cons r) + of_nat (ring_used r)"
  by (simp add: ring_used_def)

lemma unat_add_small: "unat (a :: u32) + unat b < 2 ^ 32 \<Longrightarrow> unat (a + b) = unat a + unat b"
  by (simp add: unat_word_ariths)

lemma unat_of_nat_u32: "n < 2 ^ 32 \<Longrightarrow> unat (of_nat n :: u32) = n"
  by (simp add: unsigned_of_nat take_bit_nat_eq_self)

lemma ring_size_bound: "ring_wf r \<Longrightarrow> unat (r_size r) \<le> 2 ^ 31"
  by (erule ring_wfE) (simp add: power_increasing [of _ 31 "2 :: nat", simplified])

lemma burst_variable: "unat (burst_size RING_QUEUE_VARIABLE n f) = min (unat n) (unat f)"
  by (auto simp: burst_size_def word_less_nat_alt)

lemma ring_used_unat: "ring_rest r \<Longrightarrow> unat (of_nat (ring_used r) :: u32) = ring_used r"
  by (simp add: ring_used_def)

lemma prod_free_rest:
  assumes "ring_rest r"
  shows "unat (prod_free r (ht_head (r_prod r))) = unat (r_capacity r) - ring_used r"
proof -
  have "prod_free r (ht_head (r_prod r)) = r_capacity r - of_nat (ring_used r)"
    using assms prod_tail_eq [of r] by (simp add: prod_free_def ring_rest_def)
  moreover have "of_nat (ring_used r) \<le> r_capacity r"
    using ring_used_bound [OF assms] ring_used_unat [OF assms] by (simp add: word_le_nat_alt)
  ultimately show ?thesis using ring_used_unat [OF assms] by (simp add: unat_sub)
qed

lemma cons_entries_rest: "ring_rest r \<Longrightarrow> unat (cons_entries r (ht_head (r_cons r))) = ring_used r"
  by (simp add: cons_entries_def ring_rest_def ring_used_def)

text \<open>Objects written behind \<open>u\<close> others leave those alone.\<close>

lemma enqueue_table:
  assumes "ring_wf r" "u + unat w < unat (r_size r)" "i < u + unat w"
  shows "r_table (ENQUEUE_PTRS r (ct + of_nat u) f w) (slot r (ct + of_nat i)) =
     (if i < u then r_table r (slot r (ct + of_nat i)) else f (i - u))"
proof (cases "i < u")
  case True
  have "slot r (ct + of_nat u + of_nat j) \<noteq> slot r (ct + of_nat i)" if "j < unat w" for j
    using slot_inj [OF assms(1), of ct "u + j" i] that True assms(2) by (auto simp: add.assoc)
  then show ?thesis
    using ENQUEUE_PTRS_other [OF assms(1), of w "slot r (ct + of_nat i)" "ct + of_nat u"] slot_less [OF assms(1)] True assms(2)
    by simp
next
  case False
  then have "i - u < unat w" "i - u < unat (r_size r)" using assms(2,3) by arith+
  then show ?thesis
    using ENQUEUE_PTRS_slot [OF assms(1), of w "i - u" "ct + of_nat u" f] assms(2) False
    by (simp add: add.assoc flip: of_nat_add)
qed

lemma ring_enqueue_burst_spec:
  assumes "ring_rest r" "length xs < 2 ^ 32" "ring_enqueue_burst r xs = (n, r')"
  shows "ring_rest r' \<and> r_capacity r' = r_capacity r \<and>
     n = min (length xs) (unat (r_capacity r) - length (ring_objs r)) \<and> ring_objs r' = ring_objs r @ take n xs"
proof -
  define ct where "ct = ht_tail (r_cons r)"
  define u where "u = ring_used r"
  define w where "w = burst_size RING_QUEUE_VARIABLE (of_nat (length xs)) (prod_free r (ht_head (r_prod r)))"
  have wf: "ring_wf r" and h: "ht_head (r_prod r) = ct + of_nat u"
    using assms(1) prod_tail_eq [of r] by (simp_all add: ring_rest_def ct_def u_def)
  note b = ring_used_bound [OF assms(1), folded u_def] ring_size_bound [OF wf] ring_used_unat [OF assms(1), folded u_def]
  have w: "unat w = min (length xs) (unat (r_capacity r) - u)"
    using prod_free_rest [OF assms(1)] unat_of_nat_u32 [OF assms(2)] by (simp add: w_def burst_variable u_def)
  have e: "n = unat w" "r' = (if w = 0 then r else set_prod_tail (ct + of_nat u + w)
      (ENQUEUE_PTRS (set_prod_head (ct + of_nat u + w) r) (ct + of_nat u) (\<lambda>i. xs ! i) w))"
    using assms(3) by (auto simp: ring_enqueue_burst_def ring_do_enqueue_def ring_move_prod_head_def Let_def w_def h split: if_splits)
  have c: "ht_tail (r_cons r') = ct" "ht_tail (r_prod r') = ct + of_nat u + w" "slot r' = slot r"
    using prod_tail_eq [of r] wf_slot_cong(2) [of r' r] by (auto simp: e(2) ct_def u_def)
  have lt: "u + unat w \<le> unat (r_capacity r)" using w b by (auto simp: min_def)
  then have u': "ring_used r' = u + unat w"
    using b unat_add_small [of "of_nat u" w] by (simp add: ring_used_def c)
  have t: "r_table r' (slot r (ct + of_nat i)) = (ring_objs r @ take n xs) ! i" if i: "i < u + unat w" for i
    using i enqueue_table [of "set_prod_head (ct + of_nat u + w) r" u w i ct "\<lambda>i. xs ! i"] wf_slot_cong [of "set_prod_head (ct + of_nat u + w) r" r] wf b lt
    by (auto simp: e ring_objs_def nth_append ct_def [symmetric] u_def [symmetric])
  have "ring_objs r' = ring_objs r @ take n xs"
    using t w by (intro nth_equalityI) (simp_all add: ring_objs_def [of r'] ring_objs_def [of r] u_def [symmetric] c u' e(1))
  moreover have "ring_rest r'"
    using assms(1) u' w b wf_slot_cong(1) [of r' r] wf by (auto simp: ring_rest_def e(2) ring_used_def word_le_nat_alt c)
  ultimately show ?thesis using w by (auto simp: e ring_objs_def u_def)
qed

lemma ring_dequeue_burst_spec:
  assumes "ring_rest r" "m < 2 ^ 32" "ring_dequeue_burst r m = (ys, r')"
  shows "ring_rest r' \<and> r_capacity r' = r_capacity r \<and> ys = take m (ring_objs r) \<and> ring_objs r' = drop m (ring_objs r)"
proof -
  define ct where "ct = ht_tail (r_cons r)"
  define u where "u = ring_used r"
  define w where "w = burst_size RING_QUEUE_VARIABLE (of_nat m) (cons_entries r (ht_head (r_cons r)))"
  have wf: "ring_wf r" and h: "ht_head (r_cons r) = ct" using assms(1) by (simp_all add: ring_rest_def ct_def)
  note b = ring_used_bound [OF assms(1), folded u_def] ring_size_bound [OF wf] ring_used_unat [OF assms(1), folded u_def]
  have w: "unat w = min m u"
    using cons_entries_rest [OF assms(1)] unat_of_nat_u32 [OF assms(2)] by (simp add: w_def burst_variable u_def)
  have wf1: "ring_wf (set_cons_head x r)" "slot (set_cons_head x r) = slot r" for x using wf_slot_cong [of "set_cons_head x r" r] wf by simp_all
  have wle: "unat w \<le> unat (r_size (set_cons_head x r))" for x using w b by (auto simp: min_def)
  have "DEQUEUE_PTRS (set_cons_head x r) ct t w i = (if i < unat w then r_table r (slot r (ct + of_nat i)) else t i)" for x t i
    using DEQUEUE_PTRS_slot [OF wf1(1) wle] wf1(2) by simp
  then have e: "ys = map (\<lambda>i. r_table r (slot r (ct + of_nat i))) [0..<unat w]"
      "r' = (if w = 0 then r else set_cons_tail (ct + w) (set_cons_head (ct + w) r))"
    using assms(3) by (auto simp: ring_dequeue_burst_def ring_do_dequeue_def ring_move_cons_head_def Let_def w_def [unfolded h, symmetric] h split: if_splits)
  have c: "ht_tail (r_cons r') = ct + w" "ht_tail (r_prod r') = ct + of_nat u" "slot r' = slot r" "r_table r' = r_table r"
    using prod_tail_eq [of r] wf_slot_cong(2) [of r' r] by (auto simp: e(2) ct_def u_def)
  have "w \<le> of_nat u" using b w by (simp add: word_le_nat_alt)
  then have u': "ring_used r' = u - unat w" using b by (simp add: ring_used_def c unat_sub)
  have "ring_objs r' = drop m (ring_objs r)"
    using w by (intro nth_equalityI)
      (auto simp: ring_objs_def c u' u_def [symmetric] ct_def [symmetric] add.assoc)
  moreover have "ys = take m (ring_objs r)" using w by (auto simp: e(1) ring_objs_def u_def ct_def take_map min_def)
  moreover have "ring_rest r'"
    using assms(1) u' w b wf_slot_cong(1) [of r' r] wf by (auto simp: ring_rest_def e(2) ring_used_def word_le_nat_alt c)
  ultimately show ?thesis by (simp add: e(2))
qed

interpretation rq: bounded_queue ring_enqueue_burst ring_dequeue_burst ring_objs "\<lambda>r. unat (r_capacity r)" ring_rest "2 ^ 32"
proof (unfold_locales, goal_cases)
  case (1 q xs n q')
  then show ?case using ring_enqueue_burst_spec [of q xs n q'] by simp
next
  case (2 q m ys q')
  then show ?case using ring_dequeue_burst_spec [of q m ys q'] by simp
next
  case (3 q)
  then show ?case using ring_used_bound [OF 3] by (simp add: ring_objs_def)
qed


text \<open>All or nothing: a bulk operation is the burst where that takes on everything, and does nothing elsewhere.\<close>

lemma burst_fixed: "burst_size RING_QUEUE_FIXED n f = (if n \<le> f then burst_size RING_QUEUE_VARIABLE n f else 0)"
  by (auto simp: burst_size_def)

lemma ring_enqueue_bulk_spec:
  assumes "ring_rest r" "length xs < 2 ^ 32"
  shows "ring_enqueue_bulk r xs = (if length xs \<le> unat (r_capacity r) - length (ring_objs r) then ring_enqueue_burst r xs else (0, r))"
proof -
  have "(of_nat (length xs) \<le> prod_free r (ht_head (r_prod r))) = (length xs \<le> unat (r_capacity r) - length (ring_objs r))"
    using prod_free_rest [OF assms(1)] unat_of_nat_u32 [OF assms(2)] by (simp add: word_le_nat_alt ring_objs_def)
  then show ?thesis
    by (auto simp: ring_enqueue_bulk_def ring_enqueue_burst_def ring_do_enqueue_def ring_move_prod_head_def burst_fixed Let_def)
qed

lemma ring_dequeue_bulk_spec:
  assumes "ring_rest r" "m < 2 ^ 32"
  shows "ring_dequeue_bulk r m = (if m \<le> length (ring_objs r) then ring_dequeue_burst r m else ([], r))"
proof -
  have "(of_nat m \<le> cons_entries r (ht_head (r_cons r))) = (m \<le> length (ring_objs r))"
    using cons_entries_rest [OF assms(1)] unat_of_nat_u32 [OF assms(2)] by (simp add: word_le_nat_alt ring_objs_def)
  then show ?thesis
    by (auto simp: ring_dequeue_bulk_def ring_dequeue_burst_def ring_do_dequeue_def ring_move_cons_head_def burst_fixed Let_def)
qed

text \<open>One object: enqueued at the end unless the ring is full, dequeued from the front unless it is empty.\<close>

lemma ring_enqueue_spec:
  assumes "ring_rest r" "ring_enqueue r x = (e, r')"
  shows "ring_rest r' \<and> (if length (ring_objs r) < unat (r_capacity r) then e = 0 \<and> ring_objs r' = ring_objs r @ [x]
     else e = - ENOBUFS \<and> r' = r)"
proof -
  obtain n q where b: "ring_enqueue_burst r [x] = (n, q)" by fastforce
  have "length [x] < (2::nat) ^ 32" by simp
  then show ?thesis
    using assms ring_enqueue_burst_spec [OF assms(1) _ b] ring_enqueue_bulk_spec [OF assms(1), of "[x]"] b
    by (auto simp: ring_enqueue_def split: if_splits)
qed

lemma ring_dequeue_spec:
  assumes "ring_rest r" "ring_dequeue r = (e, r')"
  shows "ring_rest r' \<and> (case ring_objs r of [] \<Rightarrow> e = Inl (- ENOENT) \<and> r' = r | x # xs \<Rightarrow> e = Inr x \<and> ring_objs r' = xs)"
proof -
  obtain ys q where b: "ring_dequeue_burst r 1 = (ys, q)" by fastforce
  show ?thesis
    using assms ring_dequeue_burst_spec [OF assms(1) _ b] ring_dequeue_bulk_spec [OF assms(1), of 1] b
    by (cases "ring_objs r") (auto simp: ring_dequeue_def)
qed

text \<open>The counts read off a ring at rest.\<close>

lemma ring_count_rest:
  assumes "ring_rest r"
  shows "unat (ring_count r) = length (ring_objs r)" "unat (ring_free_count r) = unat (r_capacity r) - length (ring_objs r)"
    "ring_empty r = (ring_objs r = [])" "ring_full r = (length (ring_objs r) = unat (r_capacity r))"
proof -
  obtain k where k: "k < 32" "unat (r_size r) = 2 ^ k" "r_mask r = mask k"
    using assms by (auto simp: ring_rest_def elim: ring_wfE)
  note u = ring_used_bound [OF assms]
  have "unat ((ht_tail (r_prod r) - ht_tail (r_cons r)) AND r_mask r) = ring_used r mod 2 ^ k"
    by (simp add: k ring_used_def take_bit_eq_mask [symmetric] unsigned_take_bit_eq del: take_bit_eq_mod) (simp add: take_bit_eq_mod)
  then show c: "unat (ring_count r) = length (ring_objs r)" using u k by (simp add: ring_count_def Let_def word_less_nat_alt ring_objs_def)
  then have "ring_count r \<le> r_capacity r" using u by (simp add: word_le_nat_alt ring_objs_def)
  then show f: "unat (ring_free_count r) = unat (r_capacity r) - length (ring_objs r)" using c by (simp add: ring_free_count_def unat_sub)
  show "ring_empty r = (ring_objs r = [])" using c by (simp add: ring_empty_def unat_eq_zero [symmetric])
  show "ring_full r = (length (ring_objs r) = unat (r_capacity r))"
    using f u by (auto simp: ring_full_def unat_eq_zero [symmetric] ring_objs_def)
qed

section \<open>Creation\<close>

text \<open>Each round of \<^verbatim>\<open>align32pow2\<close> doubles the distance over which a set bit has been spread downwards.\<close>

lemma smear_step:
  assumes "\<And>j. bit (y :: u32) j = (\<exists>i<a. bit (x :: u32) (j + i))"
  shows "bit (y OR drop_bit a y) j = (\<exists>i<a + a. bit x (j + i))"
proof -
  have "bit (y OR drop_bit a y) j = ((\<exists>i<a. bit x (j + i)) \<or> (\<exists>i<a. bit x (a + j + i)))"
    by (simp add: bit_or_iff bit_drop_bit_eq assms)
  also have "\<dots> = (\<exists>i<a + a. bit x (j + i))"
  proof
    assume "(\<exists>i<a. bit x (j + i)) \<or> (\<exists>i<a. bit x (a + j + i))"
    moreover have "i < a + a" "a + i < a + a" "j + (a + i) = a + j + i" if "i < a" for i using that by simp_all
    ultimately show "\<exists>i<a + a. bit x (j + i)" by metis
  next
    assume "\<exists>i<a + a. bit x (j + i)"
    then obtain i where "i < a + a" "bit x (j + i)" by blast
    then show "(\<exists>i<a. bit x (j + i)) \<or> (\<exists>i<a. bit x (a + j + i))"
      by (cases "i < a") (auto intro: exI [of _ "i - a"])
  qed
  finally show ?thesis .
qed

lemma bit_top: "2 ^ n \<le> unat (x :: u32) \<Longrightarrow> unat x < 2 ^ Suc n \<Longrightarrow> bit x n"
proof -
  assume "2 ^ n \<le> unat x" "unat x < 2 ^ Suc n"
  then have "unat x div 2 ^ n = 1" by (intro div_nat_eqI) simp_all
  then have "bit (unat x) n" by (simp add: bit_iff_odd)
  then show ?thesis by (simp add: bit_unsigned_iff)
qed

lemma smear_mask:
  assumes "2 ^ n \<le> unat (x :: u32)" "unat x < 2 ^ Suc n" "n < 32" "\<And>j. bit (y :: u32) j = (\<exists>i<32. bit x (j + i))"
  shows "y = mask (Suc n)"
proof (rule bit_eqI)
  fix j
  assume "possible_bit TYPE(u32) j"
  have hi: "\<not> bit x k" if "k > n" for k
  proof -
    have "take_bit (Suc n) (unat x) = unat x" using assms(2) by (simp only: take_bit_nat_eq_self)
    then have "take_bit (Suc n) x = x" by (metis unsigned_take_bit_eq word_unat_eq_iff)
    then show ?thesis using that by (metis bit_take_bit_iff not_less_eq)
  qed
  have top: "bit x n" using assms(1,2) by (rule bit_top)
  show "bit y j = bit (mask (Suc n) :: u32) j"
  proof (cases "j \<le> n")
    case True
    then have "bit x (j + (n - j))" "n - j < 32" using top assms(3) by simp_all
    then show ?thesis using True assms(3,4) by (auto simp: bit_mask_iff)
  next
    case False
    then show ?thesis using hi assms(4) by (auto simp: bit_mask_iff)
  qed
qed


lemma align32pow2_smear:
  assumes "x \<noteq> 1" "x \<noteq> 0" "2 ^ n < unat x" "unat x \<le> 2 ^ Suc n" "n < 31"
  shows "align32pow2 x = 2 ^ Suc n"
proof -
  define y0 where "y0 = x - 1"
  define y1 where "y1 = y0 OR drop_bit 1 y0"
  define y2 where "y2 = y1 OR drop_bit 2 y1"
  define y3 where "y3 = y2 OR drop_bit 4 y2"
  define y4 where "y4 = y3 OR drop_bit 8 y3"
  define y5 where "y5 = y4 OR drop_bit 16 y4"
  have "bit y1 j = (\<exists>i<2. bit y0 (j + i))" for j using smear_step [of y0 1 y0] by (simp add: y1_def numeral_2_eq_2)
  from smear_step [of y1 2 y0, OF this] have "bit y2 j = (\<exists>i<4. bit y0 (j + i))" for j by (simp add: y2_def)
  from smear_step [of y2 4 y0, OF this] have "bit y3 j = (\<exists>i<8. bit y0 (j + i))" for j by (simp add: y3_def)
  from smear_step [of y3 8 y0, OF this] have "bit y4 j = (\<exists>i<16. bit y0 (j + i))" for j by (simp add: y4_def)
  from smear_step [of y4 16 y0, OF this] have b: "bit y5 j = (\<exists>i<32. bit y0 (j + i))" for j by (simp add: y5_def)
  have "unat y0 = unat x - 1" using assms(2) by (simp add: y0_def unat_minus_one)
  then have "y5 = mask (Suc n)" using assms(3-5) by (intro smear_mask [OF _ _ _ b]) auto
  moreover have "align32pow2 x = y5 + 1"
    by (simp add: align32pow2_def Let_def y5_def y4_def y3_def y2_def y1_def y0_def)
  ultimately show ?thesis by (simp add: mask_eq_exp_minus_1)
qed

text \<open>\<^verbatim>\<open>align32pow2\<close> is the least power of two that is not below its argument.\<close>

lemma align32pow2_least:
  assumes "x \<noteq> 0" "unat x \<le> 2 ^ 31"
  obtains k where "k < 32" "align32pow2 x = 2 ^ k" "unat x \<le> 2 ^ k" "\<And>m. unat x \<le> 2 ^ m \<Longrightarrow> k \<le> m"
proof (cases "x = 1")
  case True
  then show thesis using that [of 0] by (simp add: align32pow2_def)
next
  case False
  define k where "k = (LEAST m. unat x \<le> 2 ^ m)"
  have k: "unat x \<le> 2 ^ k" "\<And>m. unat x \<le> 2 ^ m \<Longrightarrow> k \<le> m"
    using LeastI [of "\<lambda>m. unat x \<le> 2 ^ m" 31] Least_le [of "\<lambda>m. unat x \<le> 2 ^ m"] assms(2) by (auto simp: k_def)
  have "unat x > 1" using assms(1) False by (metis One_nat_def less_one linorder_neqE_nat unat_1 unat_eq_zero word_unat_eq_iff)
  then obtain n where n: "k = Suc n" using k(1) by (cases k) auto
  then have "2 ^ n < unat x" using k(2) [of n] by (meson Suc_n_not_le_n not_le)
  moreover have "k \<le> 31" using k(2) [OF assms(2)] .
  ultimately have "align32pow2 x = 2 ^ k" using align32pow2_smear [OF False assms(1)] k(1) n by simp
  then show thesis using that [of k] k \<open>k \<le> 31\<close> by simp
qed


lemma power_of_2_count:
  assumes "POWEROF2 count" "count \<noteq> 0"
  obtains k where "k < 32" "count = 2 ^ k"
proof -
  obtain k where k: "2 ^ k \<le> unat count" "unat count < 2 ^ Suc k"
    using ex_power_ivl1 [of 2 "unat count"] assms(2) by (auto simp: unat_gt_0 Suc_leI)
  have "k < 32"
  proof (rule ccontr)
    assume "\<not> k < 32"
    then have "(2::nat) ^ 32 \<le> 2 ^ k" by (intro power_increasing) simp_all
    then show False using k(1) unsigned_less [of count, where 'a = nat] by simp
  qed
  moreover have "unat count = 2 ^ k"
  proof (rule ccontr)
    assume "unat count \<noteq> 2 ^ k"
    moreover have "unat (count - 1) = unat count - 1" using assms(2) by (simp add: unat_minus_one)
    ultimately have "bit (count - 1) k" using k by (intro bit_top) auto
    then have "bit ((count - 1) AND count) k" using bit_top [OF k] by (simp add: bit_and_iff)
    then show False using assms(1) by (simp add: POWEROF2_def)
  qed
  ultimately show thesis using that [of k] unat_2_pow [of k] by (simp add: word_unat_eq_iff)
qed

definition good_request :: "string \<Rightarrow> u32 \<Rightarrow> u32 \<Rightarrow> bool" where
  "good_request name count flags \<longleftrightarrow> length name < MEMZONE_NAMESIZE \<and>
     (if flags AND RING_F_EXACT_SZ \<noteq> 0 then unat count < 2 ^ 31 else count \<noteq> 0)"

lemma rest_fresh:
  assumes "k < 32" "unat c < 2 ^ k" "r_size r = 2 ^ k" "r_mask r = 2 ^ k - 1" "r_capacity r = c"
    and "ht_head (r_prod r) = 0" "ht_tail (r_prod r) = 0" "ht_head (r_cons r) = 0" "ht_tail (r_cons r) = 0"
  shows "ring_rest r \<and> ring_objs r = []"
  using assms unat_2_pow [of k]
  by (auto simp: ring_rest_def ring_wf_def mask_eq_exp_minus_1 word_less_nat_alt ring_objs_def ring_used_def)

lemma ring_create_rest:
  assumes "ring_create calloc zero name count flags = Some r" "good_request name count flags"
  shows "ring_rest r \<and> ring_objs r = [] \<and>
    r_capacity r = (if flags AND RING_F_EXACT_SZ \<noteq> 0 then count else count - 1)"
proof (cases "flags AND RING_F_EXACT_SZ = 0")
  case True
  have c: "POWEROF2 count" "count \<noteq> 0" "r = snd (ring_init name count flags (ring_zero zero))" "\<not> count > RING_SZ_MASK"
    using assms True by (auto simp: ring_create_def ring_get_memsize_def good_request_def split: if_splits)
  then obtain k where k: "k < 32" "count = 2 ^ k" using power_of_2_count by blast
  have "unat (count - 1) < 2 ^ k" using c(2) k unat_2_pow [of k] by (simp add: unat_minus_one)
  then show ?thesis
    using rest_fresh [OF k(1), of "count - 1" r] c True k assms(2) by (simp add: ring_init_def Let_def good_request_def ring_zero_def)
next
  case False
  have r: "r = snd (ring_init name count flags (ring_zero zero))" "unat count < 2 ^ 31"
    using assms False by (auto simp: ring_create_def good_request_def split: sum.splits if_splits)
  have "unat (count + 1) = unat count + 1" using r(2) by (simp add: unat_word_ariths)
  moreover from this have "count + 1 \<noteq> 0" "unat (count + 1) \<le> 2 ^ 31" using r(2) by auto
  then obtain k where k: "k < 32" "align32pow2 (count + 1) = 2 ^ k" "unat (count + 1) \<le> 2 ^ k" by (rule align32pow2_least)
  ultimately show ?thesis
    using rest_fresh [OF k(1), of count r] r False assms(2) by (simp add: ring_init_def Let_def good_request_def ring_zero_def)
qed

end
