(* ===== verification/Ring_Steps.thy ===== *)
theory Ring_Steps
  imports Ring
begin

text \<open>
  Threads working on one ring at the same time. The steps are the accesses of \<^verbatim>\<open>__ring_do_enqueue\<close> and
  \<^verbatim>\<open>__ring_do_dequeue\<close> to shared memory: loading the head, loading the opposite tail, moving the head (by a plain
  store for a single producer or consumer, by a compare-and-set otherwise), copying one object, and publishing through
  the tail once the operations before it have done so. Steps of different threads interleave in any order; memory
  is sequentially consistent, as the barriers of the source make it for these accesses.

  The history variables \<^verbatim>\<open>rs_log\<close> (the objects in the order in which their places were reserved), \<^verbatim>\<open>rs_pub\<close>,
  \<^verbatim>\<open>rs_taken\<close> and \<^verbatim>\<open>rs_out\<close> (the objects dequeued) and the natural numbers in the program counters only record what happened: no step
  depends on them.
\<close>

datatype 'a prod_pc =
    P_idle
  | P_head ring_queue_behavior "'a list" u32 nat
  | P_room ring_queue_behavior "'a list" nat u32 nat
  | P_copy "'a list" u32 nat nat

datatype 'a cons_pc =
    C_idle
  | C_head ring_queue_behavior nat u32 nat
  | C_room ring_queue_behavior nat nat u32 nat
  | C_copy nat u32 nat "'a list"

record 'a ring_sys =
  rs_ring :: "'a ring"
  rs_prod :: "nat \<Rightarrow> 'a prod_pc"
  rs_cons :: "nat \<Rightarrow> 'a cons_pc"
  rs_log :: "'a list"
  rs_pub :: nat
  rs_taken :: nat
  rs_out :: "'a list"

abbreviation at_prod :: "nat \<Rightarrow> 'a prod_pc \<Rightarrow> 'a ring_sys \<Rightarrow> 'a ring_sys" where
  "at_prod t pc s \<equiv> s\<lparr>rs_prod := (rs_prod s)(t := pc)\<rparr>"

abbreviation at_cons :: "nat \<Rightarrow> 'a cons_pc \<Rightarrow> 'a ring_sys \<Rightarrow> 'a ring_sys" where
  "at_cons t pc s \<equiv> s\<lparr>rs_cons := (rs_cons s)(t := pc)\<rparr>"

abbreviation on_ring :: "('a ring \<Rightarrow> 'a ring) \<Rightarrow> 'a ring_sys \<Rightarrow> 'a ring_sys" where
  "on_ring f s \<equiv> s\<lparr>rs_ring := f (rs_ring s)\<rparr>"

abbreviation sp :: "'a ring_sys \<Rightarrow> bool" where "sp s \<equiv> ht_single (r_prod (rs_ring s))"
abbreviation sc :: "'a ring_sys \<Rightarrow> bool" where "sc s \<equiv> ht_single (r_cons (rs_ring s))"

text \<open>A ring created for a single producer (or consumer) is used by one thread on that side, thread 0.\<close>

inductive prod_step :: "nat \<Rightarrow> 'a ring_sys \<Rightarrow> 'a ring_sys \<Rightarrow> bool" for t where
  p_start: "rs_prod s t = P_idle \<Longrightarrow> sp s \<longrightarrow> t = 0 \<Longrightarrow> length xs < 2 ^ 32 \<Longrightarrow>
    prod_step t s (at_prod t (P_head b xs (ht_head (r_prod (rs_ring s))) (length (rs_log s))) s)"
| p_none: "rs_prod s t = P_head b xs old g \<Longrightarrow>
    burst_size b (of_nat (length xs)) (prod_free (rs_ring s) old) = 0 \<Longrightarrow> prod_step t s (at_prod t P_idle s)"
| p_some: "rs_prod s t = P_head b xs old g \<Longrightarrow>
    burst_size b (of_nat (length xs)) (prod_free (rs_ring s) old) = n \<Longrightarrow> n \<noteq> 0 \<Longrightarrow>
    prod_step t s (at_prod t (P_room b xs (unat n) old g) s)"
| p_retry: "rs_prod s t = P_room b xs n old g \<Longrightarrow> \<not> sp s \<Longrightarrow> ht_head (r_prod (rs_ring s)) \<noteq> old \<Longrightarrow>
    prod_step t s (at_prod t (P_head b xs (ht_head (r_prod (rs_ring s))) (length (rs_log s))) s)"
| p_move: "rs_prod s t = P_room b xs n old g \<Longrightarrow> sp s \<or> ht_head (r_prod (rs_ring s)) = old \<Longrightarrow>
    prod_step t s (at_prod t (P_copy (take n xs) old (length (rs_log s)) 0)
      (on_ring (set_prod_head (old + of_nat n)) (s\<lparr>rs_log := rs_log s @ take n xs\<rparr>)))"
| p_write: "rs_prod s t = P_copy ys old g i \<Longrightarrow> i < length ys \<Longrightarrow>
    prod_step t s (at_prod t (P_copy ys old g (i + 1))
      (on_ring (\<lambda>r. r\<lparr>r_table := (r_table r)(slot r (old + of_nat i) := ys ! i)\<rparr>) s))"
| p_tail: "rs_prod s t = P_copy ys old g (length ys) \<Longrightarrow> sp s \<or> ht_tail (r_prod (rs_ring s)) = old \<Longrightarrow>
    prod_step t s (at_prod t P_idle
      (on_ring (set_prod_tail (old + of_nat (length ys))) (s\<lparr>rs_pub := rs_pub s + length ys\<rparr>)))"

inductive cons_step :: "nat \<Rightarrow> 'a ring_sys \<Rightarrow> 'a ring_sys \<Rightarrow> bool" for t where
  c_start: "rs_cons s t = C_idle \<Longrightarrow> sc s \<longrightarrow> t = 0 \<Longrightarrow> m < 2 ^ 32 \<Longrightarrow>
    cons_step t s (at_cons t (C_head b m (ht_head (r_cons (rs_ring s))) (rs_taken s)) s)"
| c_none: "rs_cons s t = C_head b m old g \<Longrightarrow>
    burst_size b (of_nat m) (cons_entries (rs_ring s) old) = 0 \<Longrightarrow> cons_step t s (at_cons t C_idle s)"
| c_some: "rs_cons s t = C_head b m old g \<Longrightarrow>
    burst_size b (of_nat m) (cons_entries (rs_ring s) old) = n \<Longrightarrow> n \<noteq> 0 \<Longrightarrow>
    cons_step t s (at_cons t (C_room b m (unat n) old g) s)"
| c_retry: "rs_cons s t = C_room b m n old g \<Longrightarrow> \<not> sc s \<Longrightarrow> ht_head (r_cons (rs_ring s)) \<noteq> old \<Longrightarrow>
    cons_step t s (at_cons t (C_head b m (ht_head (r_cons (rs_ring s))) (rs_taken s)) s)"
| c_move: "rs_cons s t = C_room b m n old g \<Longrightarrow> sc s \<or> ht_head (r_cons (rs_ring s)) = old \<Longrightarrow>
    cons_step t s (at_cons t (C_copy n old (rs_taken s) [])
      (on_ring (set_cons_head (old + of_nat n)) (s\<lparr>rs_taken := rs_taken s + n\<rparr>)))"
| c_read: "rs_cons s t = C_copy n old g got \<Longrightarrow> length got < n \<Longrightarrow>
    cons_step t s (at_cons t
      (C_copy n old g (got @ [r_table (rs_ring s) (slot (rs_ring s) (old + of_nat (length got)))])) s)"
| c_tail: "rs_cons s t = C_copy n old g got \<Longrightarrow> length got = n \<Longrightarrow> sc s \<or> ht_tail (r_cons (rs_ring s)) = old \<Longrightarrow>
    cons_step t s (at_cons t C_idle
      (on_ring (set_cons_tail (old + of_nat n)) (s\<lparr>rs_out := rs_out s @ got\<rparr>)))"

text \<open>Between loading a head and moving it a thread is not overtaken by \<open>2 ^ 32\<close> objects: else the compare-and-set
  would take an index of an earlier round for the one it loaded.\<close>

definition not_overtaken :: "'a ring_sys \<Rightarrow> bool" where
  "not_overtaken s \<longleftrightarrow>
     (\<forall>t. case rs_prod s t of P_room b xs n old g \<Rightarrow> length (rs_log s) < g + 2 ^ 32 | _ \<Rightarrow> True) \<and>
     (\<forall>t. case rs_cons s t of C_room b m n old g \<Rightarrow> rs_taken s < g + 2 ^ 32 | _ \<Rightarrow> True)"

definition ring_start :: "'a ring \<Rightarrow> 'a ring_sys" where
  "ring_start r = \<lparr>rs_ring = r, rs_prod = (\<lambda>_. P_idle), rs_cons = (\<lambda>_. C_idle), rs_log = [], rs_pub = 0, rs_taken = 0, rs_out = []\<rparr>"

inductive ring_reach :: "'a ring \<Rightarrow> 'a ring_sys \<Rightarrow> bool" for r where
  reach_start: "ring_reach r (ring_start r)"
| reach_prod: "ring_reach r s \<Longrightarrow> not_overtaken s \<Longrightarrow> prod_step t s s' \<Longrightarrow> ring_reach r s'"
| reach_cons: "ring_reach r s \<Longrightarrow> not_overtaken s \<Longrightarrow> cons_step t s s' \<Longrightarrow> ring_reach r s'"


section \<open>The invariant\<close>

abbreviation slot_at :: "'a ring_sys \<Rightarrow> nat \<Rightarrow> nat" where
  "slot_at s p \<equiv> slot (rs_ring s) (of_nat p)"

abbreviation obj_at :: "'a ring_sys \<Rightarrow> nat \<Rightarrow> 'a" where
  "obj_at s p \<equiv> r_table (rs_ring s) (slot_at s p)"

abbreviation rs_cap :: "'a ring_sys \<Rightarrow> nat" where
  "rs_cap s \<equiv> unat (r_capacity (rs_ring s))"

fun prod_ok :: "'a ring_sys \<Rightarrow> 'a prod_pc \<Rightarrow> bool" where
  "prod_ok s P_idle \<longleftrightarrow> True"
| "prod_ok s (P_head b xs old g) \<longleftrightarrow>
     old = of_nat g \<and> g \<le> length (rs_log s) \<and> length xs < 2 ^ 32 \<and> (sp s \<longrightarrow> g = length (rs_log s))"
| "prod_ok s (P_room b xs n old g) \<longleftrightarrow>
     old = of_nat g \<and> g \<le> length (rs_log s) \<and> length xs < 2 ^ 32 \<and> (sp s \<longrightarrow> g = length (rs_log s)) \<and>
     0 < n \<and> n \<le> length xs \<and> g + n \<le> length (rs_out s) + rs_cap s"
| "prod_ok s (P_copy ys old g i) \<longleftrightarrow>
     old = of_nat g \<and> ys \<noteq> [] \<and> rs_pub s \<le> g \<and> g + length ys \<le> length (rs_log s) \<and>
     take (length ys) (drop g (rs_log s)) = ys \<and> i \<le> length ys \<and> (\<forall>j<i. obj_at s (g + j) = ys ! j)"

fun cons_ok :: "'a ring_sys \<Rightarrow> 'a cons_pc \<Rightarrow> bool" where
  "cons_ok s C_idle \<longleftrightarrow> True"
| "cons_ok s (C_head b m old g) \<longleftrightarrow> old = of_nat g \<and> g \<le> rs_taken s \<and> m < 2 ^ 32 \<and> (sc s \<longrightarrow> g = rs_taken s)"
| "cons_ok s (C_room b m n old g) \<longleftrightarrow>
     old = of_nat g \<and> g \<le> rs_taken s \<and> m < 2 ^ 32 \<and> (sc s \<longrightarrow> g = rs_taken s) \<and> 0 < n \<and> g + n \<le> rs_pub s"
| "cons_ok s (C_copy n old g got) \<longleftrightarrow>
     old = of_nat g \<and> 0 < n \<and> length (rs_out s) \<le> g \<and> g + n \<le> rs_taken s \<and> length got \<le> n \<and>
     take (length got) (drop g (rs_log s)) = got"

text \<open>The places a thread has reserved.\<close>

fun prod_span :: "'a prod_pc \<Rightarrow> nat set" where
  "prod_span (P_copy ys old g i) = {g..<g + length ys}"
| "prod_span _ = {}"

fun cons_span :: "'a cons_pc \<Rightarrow> nat set" where
  "cons_span (C_copy n old g got) = {g..<g + n}"
| "cons_span _ = {}"

text \<open>The indices are the counts modulo \<open>2 ^ 32\<close>, in order and within the capacity.\<close>

definition counts_ok :: "'a ring_sys \<Rightarrow> bool" where
  "counts_ok s \<longleftrightarrow> ring_wf (rs_ring s) \<and>
     ht_head (r_prod (rs_ring s)) = of_nat (length (rs_log s)) \<and> ht_tail (r_prod (rs_ring s)) = of_nat (rs_pub s) \<and>
     ht_head (r_cons (rs_ring s)) = of_nat (rs_taken s) \<and> ht_tail (r_cons (rs_ring s)) = of_nat (length (rs_out s)) \<and>
     length (rs_out s) \<le> rs_taken s \<and> rs_taken s \<le> rs_pub s \<and> rs_pub s \<le> length (rs_log s) \<and>
     length (rs_log s) \<le> length (rs_out s) + rs_cap s"

text \<open>What has been dequeued is a prefix of the history, and what is published lies in the table.\<close>

definition objs_ok :: "'a ring_sys \<Rightarrow> bool" where
  "objs_ok s \<longleftrightarrow> take (length (rs_out s)) (rs_log s) = rs_out s \<and>
     (\<forall>p. length (rs_out s) \<le> p \<longrightarrow> p < rs_pub s \<longrightarrow> obj_at s p = rs_log s ! p)"

text \<open>The spans of the producers tile what is reserved and not published; those of the consumers what is taken and not
  released.\<close>

definition tiles :: "(nat \<Rightarrow> nat set) \<Rightarrow> nat \<Rightarrow> nat \<Rightarrow> bool" where
  "tiles f a b \<longleftrightarrow> (\<forall>t t'. t \<noteq> t' \<longrightarrow> f t \<inter> f t' = {}) \<and> (\<Union>t. f t) = {a..<b}"

definition spans_ok :: "'a ring_sys \<Rightarrow> bool" where
  "spans_ok s \<longleftrightarrow>
     tiles (prod_span \<circ> rs_prod s) (rs_pub s) (length (rs_log s)) \<and>
     tiles (cons_span \<circ> rs_cons s) (length (rs_out s)) (rs_taken s) \<and>
     (sp s \<longrightarrow> (\<forall>t. t \<noteq> 0 \<longrightarrow> rs_prod s t = P_idle)) \<and> (sc s \<longrightarrow> (\<forall>t. t \<noteq> 0 \<longrightarrow> rs_cons s t = C_idle))"

lemma tiles_same: "tiles f a b \<Longrightarrow> f t = X \<Longrightarrow> tiles (f(t := X)) a b"
  by auto

lemma tiles_extend:
  assumes "tiles f a b" "f t = {}" "a \<le> b" "b \<le> c"
  shows "tiles (f(t := {b..<c})) a c"
proof -
  have "f t' \<subseteq> {a..<b}" for t' using assms(1) unfolding tiles_def by blast
  then have "f t' \<inter> {b..<c} = {}" for t' by fastforce
  moreover have "(\<Union>t'. (f(t := {b..<c})) t') = (\<Union>t'. f t') \<union> {b..<c}" using assms(2) by (auto split: if_splits)
  ultimately show ?thesis using assms unfolding tiles_def by (auto simp: Int_commute)
qed

lemma tiles_shrink:
  assumes "tiles f a b" "f t = {a..<c}" "a \<le> c"
  shows "tiles (f(t := {})) c b"
proof -
  have d: "p \<notin> f t'" if "t' \<noteq> t" "p \<in> f t" for t' p using assms(1) that unfolding tiles_def by blast
  have "(\<Union>t'. (f(t := {})) t') = (\<Union>t'. f t') - f t"
  proof (rule set_eqI)
    fix p
    show "p \<in> (\<Union>t'. (f(t := {})) t') \<longleftrightarrow> p \<in> (\<Union>t'. f t') - f t"
      using d [of _ p] by (simp add: fun_upd_def) metis
  qed
  also have "\<dots> = {c..<b}" using assms by (auto simp: tiles_def)
  finally show ?thesis using assms(1) unfolding tiles_def by simp
qed

lemma tiles_subset: "tiles f a b \<Longrightarrow> f t \<subseteq> {a..<b}"
  unfolding tiles_def by blast

lemma tiles_disjoint: "tiles f a b \<Longrightarrow> p \<in> f t \<Longrightarrow> p \<in> f t' \<Longrightarrow> t = t'"
  unfolding tiles_def by blast

lemma tiles_covered: "tiles f a b \<Longrightarrow> a \<le> p \<Longrightarrow> p < b \<Longrightarrow> \<exists>t. p \<in> f t"
  using UN_iff [of p f UNIV] by (simp add: tiles_def)

definition rinv :: "'a ring_sys \<Rightarrow> bool" where
  "rinv s \<longleftrightarrow> counts_ok s \<and> objs_ok s \<and> spans_ok s \<and> (\<forall>t. prod_ok s (rs_prod s t)) \<and> (\<forall>t. cons_ok s (rs_cons s t))"

lemma slot_of_nat:
  assumes "ring_wf r"
  shows "slot r (of_nat p) = p mod unat (r_size r)"
  using slot_add [OF assms, of 0 p] by (simp add: slot_def)

lemma mod_window: "x mod S = y mod S \<Longrightarrow> x \<le> y \<Longrightarrow> y < x + S \<Longrightarrow> x = (y :: nat)"
proof -
  assume a: "x mod S = y mod S" "x \<le> y" "y < x + S"
  then have "S dvd y - x" by (metis mod_eq_dvd_iff_nat)
  moreover have "y - x < S" using a(2,3) by arith
  ultimately have "y - x = 0" using nat_dvd_not_less by blast
  then show ?thesis using a(2) by simp
qed

lemma slot_of_nat_inj:
  assumes "ring_wf r" "slot r (of_nat p) = slot r (of_nat q)" "p < q + unat (r_size r)" "q < p + unat (r_size r)"
  shows "p = q"
proof -
  have m: "p mod unat (r_size r) = q mod unat (r_size r)" using assms(2) by (simp add: slot_of_nat [OF assms(1)])
  show ?thesis
  proof (cases "p \<le> q")
    case True
    then show ?thesis using mod_window [OF m] assms(4) by simp
  next
    case False
    then show ?thesis using mod_window [OF m [symmetric]] assms(3) by simp
  qed
qed

lemma of_nat_u32_eq:
  assumes "(of_nat p :: u32) = of_nat q" "p \<le> q" "q < p + 2 ^ 32"
  shows "p = q"
proof -
  have "unat (of_nat p :: u32) = unat (of_nat q :: u32)" using assms(1) by simp
  then have "p mod 2 ^ 32 = q mod 2 ^ 32" by (simp add: unsigned_of_nat take_bit_eq_mod)
  then show ?thesis using mod_window assms(2,3) by blast
qed

lemma unat_of_nat_le: "unat (of_nat n :: u32) \<le> n"
  by (simp add: unsigned_of_nat take_bit_eq_mod)

text \<open>The room a producer computes is at most what there is, as \<open>a\<close> counts modulo \<open>2 ^ 32\<close>.\<close>

lemma burst_le: "unat (burst_size b (of_nat m) (of_nat a)) \<le> a \<and> (m < 2 ^ 32 \<longrightarrow> unat (burst_size b (of_nat m) (of_nat a)) \<le> m)"
  using unat_of_nat_le [of a] unat_of_nat_le [of m] by (auto simp: burst_size_def word_less_nat_alt not_less)


section \<open>Every step keeps it\<close>

lemma prod_ok_pcs [simp]: "prod_ok (s\<lparr>rs_prod := f\<rparr>) pc = prod_ok s pc" "prod_ok (s\<lparr>rs_cons := h\<rparr>) pc = prod_ok s pc"
  by (cases pc; simp)+

lemma cons_ok_pcs [simp]: "cons_ok (s\<lparr>rs_prod := f\<rparr>) pc = cons_ok s pc" "cons_ok (s\<lparr>rs_cons := h\<rparr>) pc = cons_ok s pc"
  by (cases pc; simp)+

lemma counts_ok_pcs [simp]:
  "counts_ok (s\<lparr>rs_prod := f\<rparr>) = counts_ok s" "counts_ok (s\<lparr>rs_cons := h\<rparr>) = counts_ok s"
  "objs_ok (s\<lparr>rs_prod := f\<rparr>) = objs_ok s" "objs_ok (s\<lparr>rs_cons := h\<rparr>) = objs_ok s"
  by (simp_all add: counts_ok_def objs_ok_def)

lemma inv_at_prod:
  assumes "rinv s" "prod_span (rs_prod s t) = {}" "prod_span pc = {}" "prod_ok s pc" "sp s \<Longrightarrow> t \<noteq> 0 \<Longrightarrow> pc = P_idle"
  shows "rinv (at_prod t pc s)"
proof -
  have "spans_ok (at_prod t pc s)"
    using assms tiles_same [of "prod_span \<circ> rs_prod s" _ _ t] by (simp add: rinv_def spans_ok_def fun_upd_comp)
  then show ?thesis using assms by (simp add: rinv_def)
qed

lemma inv_at_cons:
  assumes "rinv s" "cons_span (rs_cons s t) = {}" "cons_span pc = {}" "cons_ok s pc" "sc s \<Longrightarrow> t \<noteq> 0 \<Longrightarrow> pc = C_idle"
  shows "rinv (at_cons t pc s)"
proof -
  have "spans_ok (at_cons t pc s)"
    using assms tiles_same [of "cons_span \<circ> rs_cons s" _ _ t] by (simp add: rinv_def spans_ok_def fun_upd_comp)
  then show ?thesis using assms by (simp add: rinv_def)
qed

lemma rinv_prodD: "rinv s \<Longrightarrow> rs_prod s t = pc \<Longrightarrow> prod_ok s pc \<and> (sp s \<longrightarrow> t = 0 \<or> pc = P_idle)"
  by (auto simp: rinv_def spans_ok_def)

lemma rinv_consD: "rinv s \<Longrightarrow> rs_cons s t = pc \<Longrightarrow> cons_ok s pc \<and> (sc s \<longrightarrow> t = 0 \<or> pc = C_idle)"
  by (auto simp: rinv_def spans_ok_def)

lemma inv_p_some:
  assumes "rinv s" "rs_prod s t = P_head b xs old g" "burst_size b (of_nat (length xs)) (prod_free (rs_ring s) old) = n" "n \<noteq> 0"
  shows "rinv (at_prod t (P_room b xs (unat n) old g) s)"
proof -
  note h = rinv_prodD [OF assms(1,2)]
  have c: "counts_ok s" using assms(1) by (simp add: rinv_def)
  define a where "a = rs_cap s + length (rs_out s) - g"
  have "g \<le> rs_cap s + length (rs_out s)" using h c by (simp add: counts_ok_def)
  then have "prod_free (rs_ring s) old = of_nat a"
    using h c by (simp add: prod_free_def counts_ok_def a_def of_nat_diff)
  then have "unat n \<le> a \<and> unat n \<le> length xs" using burst_le [of b "length xs" a] assms(3) h by simp
  then have "prod_ok s (P_room b xs (unat n) old g)"
    using h assms(4) \<open>g \<le> rs_cap s + length (rs_out s)\<close> by (auto simp: a_def unat_gt_0)
  then show ?thesis using inv_at_prod [OF assms(1)] h assms(2) by auto
qed

lemma inv_c_some:
  assumes "rinv s" "rs_cons s t = C_head b m old g" "burst_size b (of_nat m) (cons_entries (rs_ring s) old) = n" "n \<noteq> 0"
  shows "rinv (at_cons t (C_room b m (unat n) old g) s)"
proof -
  note h = rinv_consD [OF assms(1,2)]
  have c: "counts_ok s" using assms(1) by (simp add: rinv_def)
  have "g \<le> rs_pub s" using h c by (simp add: counts_ok_def)
  then have "cons_entries (rs_ring s) old = of_nat (rs_pub s - g)"
    using h c by (simp add: cons_entries_def counts_ok_def of_nat_diff)
  then have "unat n \<le> rs_pub s - g" using burst_le [of b m "rs_pub s - g"] assms(3) by simp
  then have "cons_ok s (C_room b m (unat n) old g)"
    using h assms(4) \<open>g \<le> rs_pub s\<close> by (auto simp: unat_gt_0)
  then show ?thesis using inv_at_cons [OF assms(1)] h assms(2) by auto
qed

lemma spans_tiles:
  assumes "spans_ok s"
  shows "tiles (prod_span \<circ> rs_prod s) (rs_pub s) (length (rs_log s))"
    "tiles (cons_span \<circ> rs_cons s) (length (rs_out s)) (rs_taken s)"
  using assms by (simp_all add: spans_ok_def)

lemma prod_spanD: "spans_ok s \<Longrightarrow> p \<in> prod_span (rs_prod s t) \<Longrightarrow> rs_pub s \<le> p \<and> p < length (rs_log s)"
  using subsetD [OF tiles_subset [OF spans_tiles(1)], of s p t] by simp

lemma cons_spanD: "spans_ok s \<Longrightarrow> p \<in> cons_span (rs_cons s t) \<Longrightarrow> length (rs_out s) \<le> p \<and> p < rs_taken s"
  using subsetD [OF tiles_subset [OF spans_tiles(2)], of s p t] by simp

lemma prod_span_same: "spans_ok s \<Longrightarrow> p \<in> prod_span (rs_prod s t) \<Longrightarrow> p \<in> prod_span (rs_prod s t') \<Longrightarrow> t = t'"
  using tiles_disjoint [OF spans_tiles(1), of s p t t'] by simp

lemma cons_span_same: "spans_ok s \<Longrightarrow> p \<in> cons_span (rs_cons s t) \<Longrightarrow> p \<in> cons_span (rs_cons s t') \<Longrightarrow> t = t'"
  using tiles_disjoint [OF spans_tiles(2), of s p t t'] by simp

lemma prod_ok_mono:
  assumes "prod_ok s pc" "rs_log s' = rs_log s @ zs" "length (rs_out s) \<le> length (rs_out s')" "rs_cap s' = rs_cap s"
    and "sp s' = sp s" "sp s \<Longrightarrow> zs = [] \<or> pc = P_idle"
    and "\<And>p. p \<in> prod_span pc \<Longrightarrow> rs_pub s' \<le> p \<and> obj_at s' p = obj_at s p"
  shows "prod_ok s' pc"
proof (cases pc)
  case (P_copy ys old g i)
  have "obj_at s' (g + j) = ys ! j" if "j < i" for j
    using assms(1) assms(7) [of "g + j"] that P_copy by (auto simp del: of_nat_add)
  then have "\<forall>j<i. obj_at s' (g + j) = ys ! j" by blast
  moreover have "rs_pub s' \<le> g" using assms(1) assms(7) [of g] P_copy by auto
  ultimately show ?thesis using assms(1,2) unfolding P_copy prod_ok.simps by simp
qed (use assms in auto)

lemma cons_ok_mono:
  assumes "cons_ok s pc" "rs_taken s \<le> length (rs_log s)" "rs_log s' = rs_log s @ zs" "rs_taken s \<le> rs_taken s'" "rs_pub s \<le> rs_pub s'"
    and "sc s' = sc s" "sc s \<Longrightarrow> rs_taken s' = rs_taken s \<or> pc = C_idle"
    and "\<And>p. p \<in> cons_span pc \<Longrightarrow> length (rs_out s') \<le> p"
  shows "cons_ok s' pc"
proof (cases pc)
  case (C_copy n old g got)
  then have "length (rs_out s') \<le> g" using assms(1) assms(8) [of g] by auto
  then show ?thesis using assms C_copy by auto
qed (use assms in auto)

lemma window_slot:
  assumes "counts_ok s" "length (rs_out s) \<le> p" "p < length (rs_log s)" "length (rs_out s) \<le> q" "q < length (rs_log s)" "p \<noteq> q"
  shows "slot_at s p \<noteq> slot_at s q"
proof -
  have "ring_wf (rs_ring s)" "rs_cap s < unat (r_size (rs_ring s))" "length (rs_log s) \<le> length (rs_out s) + rs_cap s"
    using assms(1) by (simp_all add: counts_ok_def ring_wf_def word_less_nat_alt)
  then show ?thesis using slot_of_nat_inj [of "rs_ring s" p q] assms(2-6) by auto
qed

lemma inv_p_write:
  assumes "rinv s" "rs_prod s t = P_copy ys old g i" "i < length ys"
    and s': "s' = at_prod t (P_copy ys old g (i + 1))
      (on_ring (\<lambda>r. r\<lparr>r_table := (r_table r)(slot r (old + of_nat i) := ys ! i)\<rparr>) s)"
  shows "rinv s'"
proof -
  note h = rinv_prodD [OF assms(1,2)]
  have c: "counts_ok s" and o: "objs_ok s" and sp: "spans_ok s" using assms(1) by (simp_all add: rinv_def)
  have f: "rs_log s' = rs_log s" "rs_out s' = rs_out s" "rs_pub s' = rs_pub s" "rs_taken s' = rs_taken s" "rs_cons s' = rs_cons s"
      "rs_prod s' = (rs_prod s)(t := P_copy ys old g (i + 1))" "r_prod (rs_ring s') = r_prod (rs_ring s)"
      "r_cons (rs_ring s') = r_cons (rs_ring s)" "r_capacity (rs_ring s') = r_capacity (rs_ring s)"
      "ring_wf (rs_ring s') = ring_wf (rs_ring s)" "slot (rs_ring s') = slot (rs_ring s)"
      "r_table (rs_ring s') = (r_table (rs_ring s))(slot_at s (g + i) := ys ! i)"
    using h by (simp_all add: s' ring_wf_def slot_def fun_eq_iff)
  have gi: "length (rs_out s) \<le> g + i" "g + i < length (rs_log s)" "rs_pub s \<le> g"
    using h assms(3) c by (auto simp: counts_ok_def)
  have obj: "obj_at s' p = (if p = g + i then ys ! i else obj_at s p)" if "length (rs_out s) \<le> p" "p < length (rs_log s)" for p
    using window_slot [OF c that gi(1,2)] by (simp add: f)
  have "counts_ok s'" using c by (simp add: counts_ok_def f)
  moreover have "objs_ok s'"
    using o obj gi c by (simp add: objs_ok_def f counts_ok_def)
  moreover have "spans_ok s'"
    using sp assms(2) h tiles_same [of "prod_span \<circ> rs_prod s" _ _ t] by (simp add: spans_ok_def fun_upd_comp f)
  moreover have "prod_ok s' (rs_prod s' t')" for t'
  proof (cases "t' = t")
    case True
    have "obj_at s' (g + j) = ys ! j" if "j < i + 1" for j
      using obj [of "g + j"] h gi assms(3) c that by (auto simp: counts_ok_def simp del: of_nat_add)
    then have "\<forall>j<i + 1. obj_at s' (g + j) = ys ! j" by blast
    then show ?thesis using h assms(3) True by (simp only: prod_ok.simps f(1,3,6) fun_upd_same) simp
  next
    case False
    have p: "prod_ok s (rs_prod s t')" using assms(1) by (simp add: rinv_def)
    have "rs_pub s' \<le> p \<and> obj_at s' p = obj_at s p" if "p \<in> prod_span (rs_prod s t')" for p
    proof -
      have "p \<noteq> g + i"
        using prod_span_same [OF sp that, of t] False assms(2,3) by auto
      then show ?thesis using obj [of p] c prod_spanD [OF sp that] by (simp add: counts_ok_def f(3) del: of_nat_add)
    qed
    then show ?thesis using prod_ok_mono [OF p, of s' "[]"] False by (simp add: f(1,2,6,7,9))
  qed
  moreover have "cons_ok s' (rs_cons s' t')" for t'
  proof -
    have "cons_ok s (rs_cons s t')" using assms(1) by (simp add: rinv_def)
    then show ?thesis by (cases "rs_cons s t'") (simp_all add: f)
  qed
  ultimately show ?thesis by (simp add: rinv_def)
qed


lemma inv_p_move:
  assumes "rinv s" "not_overtaken s" "rs_prod s t = P_room b xs n old g" "sp s \<or> ht_head (r_prod (rs_ring s)) = old"
    and s': "s' = at_prod t (P_copy (take n xs) old (length (rs_log s)) 0)
      (on_ring (set_prod_head (old + of_nat n)) (s\<lparr>rs_log := rs_log s @ take n xs\<rparr>))"
  shows "rinv s'"
proof -
  note h = rinv_prodD [OF assms(1,3)]
  have c: "counts_ok s" and o: "objs_ok s" and sp: "spans_ok s" using assms(1) by (simp_all add: rinv_def)
  have "length (rs_log s) < g + 2 ^ 32" using assms(2,3) by (auto simp: not_overtaken_def dest: spec [of _ t])
  moreover have "sp s \<or> (of_nat g :: u32) = of_nat (length (rs_log s))" using assms(4) h c by (simp add: counts_ok_def) metis
  ultimately have g: "g = length (rs_log s)" using h of_nat_u32_eq [of g "length (rs_log s)"] by fastforce
  have n: "length (take n xs) = n" "0 < n" using h by simp_all
  have f: "rs_log s' = rs_log s @ take n xs" "rs_out s' = rs_out s" "rs_pub s' = rs_pub s" "rs_taken s' = rs_taken s" "rs_cons s' = rs_cons s"
      "rs_prod s' = (rs_prod s)(t := P_copy (take n xs) old (length (rs_log s)) 0)" "r_cons (rs_ring s') = r_cons (rs_ring s)"
      "ht_head (r_prod (rs_ring s')) = of_nat (length (rs_log s) + n)" "ht_tail (r_prod (rs_ring s')) = ht_tail (r_prod (rs_ring s))"
      "sp s' = sp s" "r_capacity (rs_ring s') = r_capacity (rs_ring s)"
      "ring_wf (rs_ring s') = ring_wf (rs_ring s)" "slot (rs_ring s') = slot (rs_ring s)" "r_table (rs_ring s') = r_table (rs_ring s)"
    using h g by (simp_all add: s' ring_wf_def slot_def fun_eq_iff)
  have "counts_ok s'" using c h g n by (simp add: counts_ok_def f)
  moreover have "objs_ok s'" using o c by (simp add: objs_ok_def f counts_ok_def nth_append)
  moreover have "spans_ok s'"
    using sp assms(3) h n c tiles_extend [of "prod_span \<circ> rs_prod s" "rs_pub s" "length (rs_log s)" t "length (rs_log s) + n"]
    by (simp add: spans_ok_def fun_upd_comp f counts_ok_def)
  moreover have "prod_ok s' (rs_prod s' t')" for t'
  proof (cases "t' = t")
    case True
    then show ?thesis using h n g c by (auto simp: f counts_ok_def)
  next
    case False
    have "prod_ok s (rs_prod s t')" and "sp s \<Longrightarrow> rs_prod s t' = P_idle"
      using assms(1) rinv_prodD [OF assms(1) refl, of t'] h False by (auto simp: rinv_def)
    then show ?thesis
      using prod_ok_mono [of s "rs_prod s t'" s' "take n xs"] prod_spanD [OF sp, of _ t'] False by (simp add: f)
  qed
  moreover have "cons_ok s' (rs_cons s' t')" for t'
    using cons_ok_mono [of s "rs_cons s t'" s' "take n xs"] assms(1) c cons_spanD [OF sp, of _ t'] by (simp add: rinv_def f counts_ok_def)
  ultimately show ?thesis by (simp add: rinv_def)
qed


text \<open>The operation that publishes next is the one whose span starts where the published objects end.\<close>

lemma span_first:
  assumes "tiles f a b" "f t = {g..<g + n}" "0 < n" "single \<or> (of_nat a :: u32) = of_nat g" "b \<le> a + c" "c < 2 ^ 32"
    and "\<And>t'. single \<Longrightarrow> t' \<noteq> t \<Longrightarrow> f t' = {}"
  shows "g = a"
proof -
  have sub: "{g..<g + n} \<subseteq> {a..<b}" using tiles_subset [OF assms(1), of t] assms(2) by simp
  then have ag: "a \<le> g" "g < b" using assms(3) by auto
  show ?thesis
  proof (cases single)
    case True
    obtain t' where "a \<in> f t'" using tiles_covered [OF assms(1), of a] ag by auto
    then have "a \<in> f t" using assms(7) [OF True, of t'] by (cases "t' = t") auto
    then show ?thesis using assms(2) ag by simp
  next
    case False
    then have "(of_nat a :: u32) = of_nat g" "g < a + 2 ^ 32" using assms(4-6) ag by simp_all
    then show ?thesis using of_nat_u32_eq ag(1) by metis
  qed
qed

lemma cap_less: "rs_cap s < 2 ^ 32"
  using unsigned_less [of "r_capacity (rs_ring s)", where 'a = nat] by simp

lemma inv_p_tail:
  assumes "rinv s" "rs_prod s t = P_copy ys old g (length ys)" "sp s \<or> ht_tail (r_prod (rs_ring s)) = old"
    and s': "s' = at_prod t P_idle
      (on_ring (set_prod_tail (old + of_nat (length ys))) (s\<lparr>rs_pub := rs_pub s + length ys\<rparr>))"
  shows "rinv s'"
proof -
  note h = rinv_prodD [OF assms(1,2)]
  have c: "counts_ok s" and o: "objs_ok s" and sp: "spans_ok s" using assms(1) by (simp_all add: rinv_def)
  have g: "g = rs_pub s"
    using span_first [OF spans_tiles(1) [OF sp], of t g "length ys" "sp s" "rs_cap s"] h assms(2,3) c sp cap_less [of s]
    by (auto simp: counts_ok_def spans_ok_def)
  have f: "rs_log s' = rs_log s" "rs_out s' = rs_out s" "rs_pub s' = rs_pub s + length ys" "rs_taken s' = rs_taken s" "rs_cons s' = rs_cons s"
      "rs_prod s' = (rs_prod s)(t := P_idle)" "r_cons (rs_ring s') = r_cons (rs_ring s)"
      "ht_head (r_prod (rs_ring s')) = ht_head (r_prod (rs_ring s))" "ht_tail (r_prod (rs_ring s')) = of_nat (rs_pub s + length ys)"
      "sp s' = sp s" "r_capacity (rs_ring s') = r_capacity (rs_ring s)"
      "ring_wf (rs_ring s') = ring_wf (rs_ring s)" "slot (rs_ring s') = slot (rs_ring s)" "r_table (rs_ring s') = r_table (rs_ring s)"
    using h g by (simp_all add: s' ring_wf_def slot_def fun_eq_iff)
  have "counts_ok s'" using c h g by (simp add: counts_ok_def f)
  moreover have "obj_at s' p = rs_log s' ! p" if "length (rs_out s) \<le> p" "p < rs_pub s + length ys" for p
  proof (cases "p < rs_pub s")
    case False
    have "\<forall>j<length ys. obj_at s (g + j) = ys ! j" using h by simp
    then have "obj_at s (g + (p - g)) = ys ! (p - g)" using False that g by (metis add_diff_inverse_nat nat_add_left_cancel_less)
    moreover have "ys ! (p - g) = rs_log s ! p" using h that g False nth_take [of "p - g" "length ys" "drop g (rs_log s)"] by simp
    ultimately show ?thesis using False g by (simp add: f del: of_nat_add)
  qed (use o that in \<open>simp add: objs_ok_def f\<close>)
  then have "objs_ok s'" using o by (simp add: objs_ok_def f(1-3))
  moreover have "spans_ok s'"
    using sp assms(2) h g tiles_shrink [OF spans_tiles(1) [OF sp], of t "rs_pub s + length ys"] by (simp add: spans_ok_def fun_upd_comp f)
  moreover have "prod_ok s' (rs_prod s' t')" for t'
  proof (cases "t' = t")
    case False
    have "rs_pub s' \<le> p" if "p \<in> prod_span (rs_prod s t')" for p
      using prod_spanD [OF sp that] prod_span_same [OF sp that, of t] False assms(2) g by (cases "p < g + length ys") (auto simp: f)
    then show ?thesis using prod_ok_mono [of s "rs_prod s t'" s' "[]"] assms(1) False by (simp add: f rinv_def)
  qed (simp add: f)
  moreover have "cons_ok s' (rs_cons s' t')" for t'
    using cons_ok_mono [of s "rs_cons s t'" s' "[]"] assms(1) c cons_spanD [OF sp, of _ t'] by (simp add: rinv_def f counts_ok_def)
  ultimately show ?thesis by (simp add: rinv_def)
qed

lemma inv_c_move:
  assumes "rinv s" "not_overtaken s" "rs_cons s t = C_room b m n old g" "sc s \<or> ht_head (r_cons (rs_ring s)) = old"
    and s': "s' = at_cons t (C_copy n old (rs_taken s) [])
      (on_ring (set_cons_head (old + of_nat n)) (s\<lparr>rs_taken := rs_taken s + n\<rparr>))"
  shows "rinv s'"
proof -
  note h = rinv_consD [OF assms(1,3)]
  have c: "counts_ok s" and o: "objs_ok s" and sp: "spans_ok s" using assms(1) by (simp_all add: rinv_def)
  have "rs_taken s < g + 2 ^ 32" using assms(2,3) by (auto simp: not_overtaken_def dest: spec [of _ t])
  moreover have "sc s \<or> (of_nat g :: u32) = of_nat (rs_taken s)" using assms(4) h c by (simp add: counts_ok_def) metis
  ultimately have g: "g = rs_taken s" using h of_nat_u32_eq [of g "rs_taken s"] by fastforce
  have f: "rs_log s' = rs_log s" "rs_out s' = rs_out s" "rs_pub s' = rs_pub s" "rs_taken s' = rs_taken s + n" "rs_prod s' = rs_prod s"
      "rs_cons s' = (rs_cons s)(t := C_copy n old (rs_taken s) [])" "r_prod (rs_ring s') = r_prod (rs_ring s)"
      "ht_head (r_cons (rs_ring s')) = of_nat (rs_taken s + n)" "ht_tail (r_cons (rs_ring s')) = ht_tail (r_cons (rs_ring s))"
      "sc s' = sc s" "r_capacity (rs_ring s') = r_capacity (rs_ring s)"
      "ring_wf (rs_ring s') = ring_wf (rs_ring s)" "slot (rs_ring s') = slot (rs_ring s)" "r_table (rs_ring s') = r_table (rs_ring s)"
    using h g by (simp_all add: s' ring_wf_def slot_def fun_eq_iff)
  have "counts_ok s'" using c h g by (simp add: counts_ok_def f)
  moreover have "objs_ok s'" using o by (simp add: objs_ok_def f)
  moreover have "spans_ok s'"
    using sp assms(3) h c tiles_extend [OF spans_tiles(2) [OF sp], of t "rs_taken s + n"]
    by (simp add: spans_ok_def fun_upd_comp f counts_ok_def)
  moreover have "prod_ok s' (rs_prod s' t')" for t'
    using prod_ok_mono [of s "rs_prod s t'" s' "[]"] assms(1) prod_spanD [OF sp, of _ t'] by (simp add: rinv_def f)
  moreover have "cons_ok s' (rs_cons s' t')" for t'
  proof (cases "t' = t")
    case True
    then show ?thesis using h g c by (simp add: f counts_ok_def)
  next
    case False
    have "cons_ok s (rs_cons s t')" and "sc s \<Longrightarrow> rs_cons s t' = C_idle"
      using assms(1) rinv_consD [OF assms(1) refl, of t'] h False by (auto simp: rinv_def)
    then show ?thesis
      using cons_ok_mono [of s "rs_cons s t'" s' "[]"] cons_spanD [OF sp, of _ t'] False c by (simp add: f counts_ok_def)
  qed
  ultimately show ?thesis by (simp add: rinv_def)
qed


lemma inv_c_read:
  assumes "rinv s" "rs_cons s t = C_copy n old g got" "length got < n"
  shows "rinv (at_cons t (C_copy n old g (got @ [r_table (rs_ring s) (slot (rs_ring s) (old + of_nat (length got)))])) s)"
proof -
  note h = rinv_consD [OF assms(1,2)]
  have c: "counts_ok s" and o: "objs_ok s" and sp: "spans_ok s" using assms(1) by (simp_all add: rinv_def)
  have "length (rs_out s) \<le> g + length got" "g + length got < rs_pub s" "g + length got < length (rs_log s)"
    using h c assms(3) by (auto simp: counts_ok_def)
  then have "obj_at s (g + length got) = rs_log s ! (g + length got)" "g + length got < length (rs_log s)"
    using o by (simp_all add: objs_ok_def del: of_nat_add)
  then have "take (Suc (length got)) (drop g (rs_log s)) = got @ [r_table (rs_ring s) (slot (rs_ring s) (old + of_nat (length got)))]"
    using h by (simp add: take_Suc_conv_app_nth)
  then have "cons_ok s (C_copy n old g (got @ [r_table (rs_ring s) (slot (rs_ring s) (old + of_nat (length got)))]))"
    using h assms(3) by simp
  moreover have "spans_ok (at_cons t (C_copy n old g xs) s)" for xs
    using sp assms(2) h tiles_same [OF spans_tiles(2) [OF sp], of t] by (simp add: spans_ok_def fun_upd_comp)
  ultimately show ?thesis using assms(1) by (simp add: rinv_def)
qed

lemma inv_c_tail:
  assumes "rinv s" "rs_cons s t = C_copy n old g got" "length got = n" "sc s \<or> ht_tail (r_cons (rs_ring s)) = old"
    and s': "s' = at_cons t C_idle (on_ring (set_cons_tail (old + of_nat n)) (s\<lparr>rs_out := rs_out s @ got\<rparr>))"
  shows "rinv s'"
proof -
  note h = rinv_consD [OF assms(1,2)]
  have c: "counts_ok s" and o: "objs_ok s" and sp: "spans_ok s" using assms(1) by (simp_all add: rinv_def)
  have g: "g = length (rs_out s)"
    using span_first [OF spans_tiles(2) [OF sp], of t g n "sc s" "rs_cap s"] h assms(2,4) c sp cap_less [of s]
    by (auto simp: counts_ok_def spans_ok_def)
  have f: "rs_log s' = rs_log s" "rs_out s' = rs_out s @ got" "rs_pub s' = rs_pub s" "rs_taken s' = rs_taken s" "rs_prod s' = rs_prod s"
      "rs_cons s' = (rs_cons s)(t := C_idle)" "r_prod (rs_ring s') = r_prod (rs_ring s)"
      "ht_head (r_cons (rs_ring s')) = ht_head (r_cons (rs_ring s))" "ht_tail (r_cons (rs_ring s')) = of_nat (length (rs_out s) + n)"
      "sc s' = sc s" "r_capacity (rs_ring s') = r_capacity (rs_ring s)"
      "ring_wf (rs_ring s') = ring_wf (rs_ring s)" "slot (rs_ring s') = slot (rs_ring s)" "r_table (rs_ring s') = r_table (rs_ring s)"
    using h g by (simp_all add: s' ring_wf_def slot_def fun_eq_iff)
  have l: "length (rs_out s @ got) = length (rs_out s) + n" using assms(3) by simp
  have "counts_ok s'" using c h g l by (simp add: counts_ok_def f)
  moreover have "take (length (rs_out s) + n) (rs_log s) = rs_out s @ got"
    using o h g assms(3) by (simp add: objs_ok_def take_add)
  then have "objs_ok s'" using o by (simp add: objs_ok_def f assms(3))
  moreover have "spans_ok s'"
    using sp assms(2) h g tiles_shrink [OF spans_tiles(2) [OF sp], of t "length (rs_out s) + n"] l by (simp add: spans_ok_def fun_upd_comp f)
  moreover have "prod_ok s' (rs_prod s' t')" for t'
    using prod_ok_mono [of s "rs_prod s t'" s' "[]"] assms(1) prod_spanD [OF sp, of _ t'] by (simp add: rinv_def f)
  moreover have "cons_ok s' (rs_cons s' t')" for t'
  proof (cases "t' = t")
    case False
    have "length (rs_out s') \<le> p" if "p \<in> cons_span (rs_cons s t')" for p
      using cons_spanD [OF sp that] cons_span_same [OF sp that, of t] False assms(2,3) g by (cases "p < g + n") (auto simp: f)
    then show ?thesis using cons_ok_mono [of s "rs_cons s t'" s' "[]"] assms(1) False c by (simp add: f rinv_def counts_ok_def)
  qed (simp add: f)
  ultimately show ?thesis by (simp add: rinv_def)
qed

lemma loaded_head_ok:
  assumes "rinv s"
  shows "length xs < 2 ^ 32 \<Longrightarrow> prod_ok s (P_head b xs (ht_head (r_prod (rs_ring s))) (length (rs_log s)))"
    "m < 2 ^ 32 \<Longrightarrow> cons_ok s (C_head b m (ht_head (r_cons (rs_ring s))) (rs_taken s))"
  using assms by (simp_all add: rinv_def counts_ok_def)

lemma prod_step_inv:
  assumes "prod_step t s s'" "rinv s" "not_overtaken s"
  shows "rinv s'"
  using assms(1)
proof cases
  case (p_start xs b)
  then show ?thesis using inv_at_prod [OF assms(2) _ _ loaded_head_ok(1) [OF assms(2)], of t] by simp
next
  case (p_none b xs old g)
  then show ?thesis using inv_at_prod [OF assms(2), of t] by simp
next
  case (p_some b xs old g n)
  then show ?thesis using inv_p_some [OF assms(2)] by blast
next
  case (p_retry b xs n old g)
  then show ?thesis
    using inv_at_prod [OF assms(2) _ _ loaded_head_ok(1) [OF assms(2)], of t] rinv_prodD [OF assms(2) p_retry(2)] by simp
next
  case (p_move b xs n old g)
  then show ?thesis using inv_p_move [OF assms(2,3)] by blast
next
  case (p_write ys old g i)
  then show ?thesis using inv_p_write [OF assms(2)] by blast
next
  case (p_tail ys old g)
  then show ?thesis using inv_p_tail [OF assms(2)] by blast
qed

lemma cons_step_inv:
  assumes "cons_step t s s'" "rinv s" "not_overtaken s"
  shows "rinv s'"
  using assms(1)
proof cases
  case (c_start m b)
  then show ?thesis using inv_at_cons [OF assms(2) _ _ loaded_head_ok(2) [OF assms(2)], of t] by simp
next
  case (c_none b m old g)
  then show ?thesis using inv_at_cons [OF assms(2), of t] by simp
next
  case (c_some b m old g n)
  then show ?thesis using inv_c_some [OF assms(2)] by blast
next
  case (c_retry b m n old g)
  then show ?thesis
    using inv_at_cons [OF assms(2) _ _ loaded_head_ok(2) [OF assms(2)], of t] rinv_consD [OF assms(2) c_retry(2)] by simp
next
  case (c_move b m n old g)
  then show ?thesis using inv_c_move [OF assms(2,3)] by blast
next
  case (c_read n old g got)
  then show ?thesis using inv_c_read [OF assms(2)] by blast
next
  case (c_tail n old g got)
  then show ?thesis using inv_c_tail [OF assms(2)] by blast
qed

lemma rinv_start:
  assumes "ring_wf r" "ht_head (r_prod r) = 0" "ht_tail (r_prod r) = 0" "ht_head (r_cons r) = 0" "ht_tail (r_cons r) = 0"
  shows "rinv (ring_start r)"
  using assms by (simp add: rinv_def ring_start_def counts_ok_def objs_ok_def spans_ok_def tiles_def)

lemma reach_inv:
  assumes "ring_reach r s" "ring_wf r" "ht_head (r_prod r) = 0" "ht_tail (r_prod r) = 0" "ht_head (r_cons r) = 0" "ht_tail (r_cons r) = 0"
  shows "rinv s \<and> r_capacity (rs_ring s) = r_capacity r"
  using assms(1)
proof induction
  case reach_start
  then show ?case using rinv_start [OF assms(2-)] by (simp add: ring_start_def)
next
  case (reach_prod s t s')
  then show ?case using prod_step_inv by (auto elim: prod_step.cases)
next
  case (reach_cons s t s')
  then show ?case using cons_step_inv by (auto elim: cons_step.cases)
qed


lemma created_zero:
  assumes "ring_create calloc zero name count flags = Some r"
  shows "ht_head (r_prod r) = 0" "ht_tail (r_prod r) = 0" "ht_head (r_cons r) = 0" "ht_tail (r_cons r) = 0"
  using assms by (auto simp: ring_create_def ring_init_def ring_zero_def Let_def split: sum.splits if_splits)

lemma created_inv:
  assumes "ring_create calloc zero name count flags = Some r" "good_request name count flags" "ring_reach r s"
  shows "rinv s \<and> r_capacity (rs_ring s) = r_capacity r"
  using reach_inv [OF assms(3) _ created_zero [OF assms(1)]] ring_create_rest [OF assms(1,2)] by (simp add: ring_rest_def)

text \<open>At rest the table holds what was enqueued and not yet dequeued.\<close>

lemma idle_objs:
  assumes "rinv s" "\<forall>t. rs_prod s t = P_idle" "\<forall>t. rs_cons s t = C_idle"
  shows "rs_log s = rs_out s @ ring_objs (rs_ring s)"
proof -
  have c: "counts_ok s" and o: "objs_ok s" and sp: "spans_ok s" using assms(1) by (simp_all add: rinv_def)
  have "\<not> rs_pub s < length (rs_log s)" "\<not> length (rs_out s) < rs_taken s"
    using tiles_covered [OF spans_tiles(1) [OF sp], of "rs_pub s"] tiles_covered [OF spans_tiles(2) [OF sp], of "length (rs_out s)"] assms(2,3)
    by auto
  then have e: "rs_pub s = length (rs_log s)" "rs_taken s = length (rs_out s)" using c by (simp_all add: counts_ok_def)
  have u: "ring_used (rs_ring s) = length (rs_log s) - length (rs_out s)"
  proof -
    have "ht_tail (r_prod (rs_ring s)) - ht_tail (r_cons (rs_ring s)) = of_nat (length (rs_log s) - length (rs_out s))"
      using c e by (simp add: counts_ok_def of_nat_diff)
    moreover have "length (rs_log s) - length (rs_out s) < 2 ^ 32" using c cap_less [of s] by (auto simp: counts_ok_def)
    ultimately show ?thesis by (simp add: ring_used_def unat_of_nat_u32)
  qed
  have "ring_objs (rs_ring s) = drop (length (rs_out s)) (rs_log s)"
    using o c e by (intro nth_equalityI) (auto simp: ring_objs_def u objs_ok_def counts_ok_def simp flip: of_nat_add)
  then show ?thesis using o by (metis append_take_drop_id objs_ok_def)
qed

text \<open>C6: The ring is a queue, for any number of threads. Take a ring made by \<^verbatim>\<open>ring_create\<close> and any
  interleaving of enqueues and dequeues by any threads (one producer or one consumer where the ring was made for one).
  What has been dequeued is at every moment a prefix of what has been enqueued, in the order in which places were
  reserved: nothing is lost, duplicated, reordered or invented, also when the indices wrap around. At most the capacity
  lies in between, and when no operation is under way the table holds exactly that.
  The ring was asked for with a name of fewer than 32 characters and, for an exact size, fewer than 2^31 entries, else
  not zero entries; memory is sequentially consistent; and between loading a head and moving it no thread is overtaken by 2^32
  objects.\<close>

theorem ring_fifo:
  assumes "ring_create calloc zero name count flags = Some r" "good_request name count flags" "ring_reach r s"
  shows "\<exists>rest. rs_log s = rs_out s @ rest \<and> length rest \<le> unat (r_capacity r) \<and>
    ((\<forall>t. rs_prod s t = P_idle) \<and> (\<forall>t. rs_cons s t = C_idle) \<longrightarrow> rest = ring_objs (rs_ring s))"
proof -
  have i: "rinv s" "r_capacity (rs_ring s) = r_capacity r" using created_inv [OF assms] by simp_all
  have e: "rs_log s = rs_out s @ drop (length (rs_out s)) (rs_log s)"
    using i(1) by (metis append_take_drop_id objs_ok_def rinv_def)
  moreover have "length (drop (length (rs_out s)) (rs_log s)) \<le> unat (r_capacity r)"
    using i by (simp add: rinv_def counts_ok_def) linarith
  moreover have "drop (length (rs_out s)) (rs_log s) = ring_objs (rs_ring s)" if "\<forall>t. rs_prod s t = P_idle" "\<forall>t. rs_cons s t = C_idle"
    using idle_objs [OF i(1) that] by (metis append_eq_conv_conj)
  ultimately show ?thesis by metis
qed

text \<open>A ring of four slots, and an enqueue of one object on it, step by step.\<close>

definition ring4 :: "nat ring" where
  "ring4 = \<lparr>r_flags = 0, r_size = 4, r_mask = 3, r_capacity = 3, r_prod = \<lparr>ht_head = 0, ht_tail = 0, ht_single = False\<rparr>,
     r_cons = \<lparr>ht_head = 0, ht_tail = 0, ht_single = False\<rparr>, r_table = (\<lambda>_. 0)\<rparr>"

definition ring4_moved :: "nat ring_sys" where
  "ring4_moved = (ring_start ring4)\<lparr>rs_ring := set_prod_head 1 ring4, rs_prod := (\<lambda>_. P_idle)(7 := P_copy [5] 0 0 0), rs_log := [5]\<rparr>"

definition ring4_done :: "nat ring_sys" where
  "ring4_done = (ring_start ring4)\<lparr>rs_ring := set_prod_tail 1 (set_prod_head 1 ring4)\<lparr>r_table := (\<lambda>_. 0)(0 := 5)\<rparr>, rs_log := [5], rs_pub := 1\<rparr>"

lemma ring4_created: "ring_create (\<lambda>_. True) 0 ''events'' 4 0 = Some ring4"
  by (simp add: ring_create_def ring_get_memsize_def ring_init_def ring_zero_def ring4_def RING_F_EXACT_SZ_def POWEROF2_def
      RING_SZ_MASK_def MEMZONE_NAMESIZE_def)

lemma ring4_good: "good_request ''events'' 4 0"
  by (simp add: good_request_def MEMZONE_NAMESIZE_def RING_F_EXACT_SZ_def POWEROF2_def RING_SZ_MASK_def)

lemmas ring4_simps = ring4_def ring_start_def ring4_moved_def ring4_done_def set_prod_head_def set_prod_tail_def
  not_overtaken_def burst_size_def prod_free_def slot_def

lemma ring4_reach_moved: "ring_reach ring4 ring4_moved"
proof -
  define s1 where "s1 = at_prod 7 (P_head RING_QUEUE_VARIABLE [5] 0 0) (ring_start ring4)"
  define s2 where "s2 = at_prod 7 (P_room RING_QUEUE_VARIABLE [5] 1 0 0) (ring_start ring4)"
  have "prod_step 7 (ring_start ring4) s1" using p_start [of "ring_start ring4" 7 "[5]" RING_QUEUE_VARIABLE] by (simp add: s1_def ring4_simps)
  moreover have "prod_step 7 s1 s2" using p_some [of s1 7 RING_QUEUE_VARIABLE "[5]" 0 0 1] by (simp add: s1_def s2_def ring4_simps)
  moreover have "prod_step 7 s2 ring4_moved" using p_move [of s2 7 RING_QUEUE_VARIABLE "[5]" 1 0 0] by (simp add: s2_def ring4_simps)
  moreover have "not_overtaken (ring_start ring4)" "not_overtaken s1" "not_overtaken s2" by (simp_all add: s1_def s2_def ring4_simps)
  ultimately show ?thesis by (metis reach_prod reach_start)
qed

lemma ring4_reach_done: "ring_reach ring4 ring4_done"
proof -
  define s3 where "s3 = at_prod 7 (P_copy [5] 0 0 1) (ring4_moved\<lparr>rs_ring := (rs_ring ring4_moved)\<lparr>r_table := (\<lambda>_. 0)(0 := 5)\<rparr>\<rparr>)"
  have "prod_step 7 ring4_moved s3" using p_write [of ring4_moved 7 "[5]" 0 0 0] by (simp add: s3_def ring4_simps)
  moreover have "prod_step 7 s3 ring4_done" using p_tail [of s3 7 "[5]" 0 0] by (simp add: s3_def ring4_simps fun_upd_idem)
  moreover have "not_overtaken ring4_moved" "not_overtaken s3" by (simp_all add: s3_def ring4_simps)
  ultimately show ?thesis using ring4_reach_moved by (metis reach_prod)
qed

theorem ring_fifo_witness:
  "ring_reach ring4 ring4_done \<and> ring_objs (rs_ring ring4_done) = [5] \<and>
   (\<exists>rest. rs_log ring4_done = rs_out ring4_done @ rest \<and> length rest \<le> unat (r_capacity ring4) \<and>
      ((\<forall>t. rs_prod ring4_done t = P_idle) \<and> (\<forall>t. rs_cons ring4_done t = C_idle) \<longrightarrow> rest = ring_objs (rs_ring ring4_done)))"
  using ring_fifo [OF ring4_created ring4_good ring4_reach_done] ring4_reach_done
  by (simp add: ring4_simps ring_objs_def ring_used_def)

lemma prod_can_step:
  assumes "rinv s" "rs_prod s t \<noteq> P_idle" "\<And>ys old g. rs_prod s t = P_copy ys old g (length ys) \<Longrightarrow> g = rs_pub s"
  shows "\<exists>s'. prod_step t s s'"
proof (cases "rs_prod s t")
  case (P_head b xs old g)
  then show ?thesis using p_none [OF P_head] p_some [OF P_head refl] by blast
next
  case (P_room b xs n old g)
  then show ?thesis using p_retry [OF P_room] p_move [OF P_room] by blast
next
  case (P_copy ys old g i)
  have ok: "old = of_nat g" "i \<le> length ys" using rinv_prodD [OF assms(1) P_copy] by simp_all
  show ?thesis
  proof (cases "i < length ys")
    case False
    then have "rs_prod s t = P_copy ys old g (length ys)" using P_copy ok(2) by simp
    moreover from this have "ht_tail (r_prod (rs_ring s)) = old" using assms(1,3) ok(1) by (simp add: rinv_def counts_ok_def)
    ultimately show ?thesis using p_tail by blast
  qed (use p_write [OF P_copy] in blast)
qed (use assms in simp)

lemma cons_can_step:
  assumes "rinv s" "rs_cons s t \<noteq> C_idle" "\<And>n old g got. rs_cons s t = C_copy n old g got \<Longrightarrow> length got = n \<Longrightarrow> g = length (rs_out s)"
  shows "\<exists>s'. cons_step t s s'"
proof (cases "rs_cons s t")
  case (C_head b m old g)
  then show ?thesis using c_none [OF C_head] c_some [OF C_head refl] by blast
next
  case (C_room b m n old g)
  then show ?thesis using c_retry [OF C_room] c_move [OF C_room] by blast
next
  case (C_copy n old g got)
  have ok: "old = of_nat g" "length got \<le> n" using rinv_consD [OF assms(1) C_copy] by simp_all
  show ?thesis
  proof (cases "length got < n")
    case False
    then have "length got = n" using ok(2) by simp
    moreover from this have "ht_tail (r_cons (rs_ring s)) = old" using assms(1,3) C_copy ok(1) by (simp add: rinv_def counts_ok_def)
    ultimately show ?thesis using c_tail [OF C_copy] by blast
  qed (use c_read [OF C_copy] in blast)
qed (use assms in simp)

text \<open>C17: Waiting ends. The loop in \<^verbatim>\<open>update_tail\<close> waits for operations that started earlier. Whenever some
  enqueue (dequeue) is under way, some enqueue (dequeue) that is under way can take its next step: threads never wait
  for each other in a circle.
  The ring was asked for with a name of fewer than 32 characters and, for an exact size, fewer than 2^31 entries, else
  not zero entries; memory is sequentially consistent; and between loading a head and moving it no thread is overtaken by 2^32
  objects.\<close>

theorem ring_no_deadlock:
  assumes "ring_create calloc zero name count flags = Some r" "good_request name count flags" "ring_reach r s"
  shows "(rs_prod s t \<noteq> P_idle \<longrightarrow> (\<exists>t' s'. rs_prod s t' \<noteq> P_idle \<and> prod_step t' s s')) \<and>
    (rs_cons s u \<noteq> C_idle \<longrightarrow> (\<exists>u' s'. rs_cons s u' \<noteq> C_idle \<and> cons_step u' s s'))"
proof -
  have i: "rinv s" using created_inv [OF assms] by simp
  have c: "counts_ok s" and sp: "spans_ok s" using i by (simp_all add: rinv_def)
  have "\<exists>t' s'. rs_prod s t' \<noteq> P_idle \<and> prod_step t' s s'" if "rs_prod s t \<noteq> P_idle"
  proof (cases "rs_pub s < length (rs_log s)")
    case True
    then obtain t' where t': "rs_pub s \<in> prod_span (rs_prod s t')" using tiles_covered [OF spans_tiles(1) [OF sp]] by auto
    then have "g = rs_pub s" if "rs_prod s t' = P_copy ys old g j" for ys old g j using rinv_prodD [OF i that] t' that by simp
    moreover have "rs_prod s t' \<noteq> P_idle" using t' by auto
    ultimately show ?thesis using prod_can_step [OF i, of t'] by blast
  next
    case False
    have "g = rs_pub s" if "rs_prod s t = P_copy ys old g j" for ys old g j using rinv_prodD [OF i that] False by auto
    then show ?thesis using prod_can_step [OF i that] that by blast
  qed
  moreover have "\<exists>u' s'. rs_cons s u' \<noteq> C_idle \<and> cons_step u' s s'" if "rs_cons s u \<noteq> C_idle"
  proof (cases "length (rs_out s) < rs_taken s")
    case True
    then obtain u' where u': "length (rs_out s) \<in> cons_span (rs_cons s u')" using tiles_covered [OF spans_tiles(2) [OF sp]] by auto
    then have "g = length (rs_out s)" if "rs_cons s u' = C_copy n old g got" for n old g got using rinv_consD [OF i that] u' that by simp
    moreover have "rs_cons s u' \<noteq> C_idle" using u' by auto
    ultimately show ?thesis using cons_can_step [OF i, of u'] by blast
  next
    case False
    have "g = length (rs_out s)" if "rs_cons s u = C_copy n old g got" for n old g got using rinv_consD [OF i that] False by auto
    then show ?thesis using cons_can_step [OF i that] that by blast
  qed
  ultimately show ?thesis by blast
qed

theorem ring_no_deadlock_witness:
  "ring_reach ring4 ring4_moved \<and> rs_prod ring4_moved 7 \<noteq> P_idle \<and>
   (\<exists>t' s'. rs_prod ring4_moved t' \<noteq> P_idle \<and> prod_step t' ring4_moved s')"
proof -
  have "rs_prod ring4_moved 7 \<noteq> P_idle" by (simp add: ring4_simps)
  then show ?thesis using ring_no_deadlock [OF ring4_created ring4_good ring4_reach_moved, of 7 0] ring4_reach_moved by blast
qed

end
