(* ===== verification/Bihash.thy ===== *)
theory Bihash
  imports ZT_Prelude
begin

text \<open>
  The bounded-index hash table of \<^verbatim>\<open>user/bihash_template.c\<close> and \<^verbatim>\<open>user/bihash_template.h\<close>, in the instance
  \<^verbatim>\<open>user/bihash_8_8.h\<close> (keys and values of 64 bits, seven pairs to a page, one page behind every bucket header), which
  holds the process caches, the mount tables and the string caches of the agent.

  Memory is the arena of the table. A block of pages is a list of pairs, stored under the offset of its first byte;
  block sizes and offsets are such that blocks do not overlap, which is part of the invariant. A free block is
  linked through the first word of its first pair, as in the source. Offsets and sizes are natural numbers: the
  invariant keeps the arena below \<open>2 ^ 36\<close> bytes, the width of the offset in a bucket, so that none of them wraps.

  Operations run one after the other. An attempt to take a lock that is held then never ends, and is the error
  \<^verbatim>\<open>Spins\<close>. The checks of \<^verbatim>\<open>ASSERT\<close> only write to the log.
\<close>

unbundle bit_operations_syntax

section \<open>Bits and the hash function\<close>

definition count_leading_zeros :: "u64 \<Rightarrow> nat" where
  "count_leading_zeros x = length (takeWhile (\<lambda>i. \<not> bit x i) (rev [0..<64]))"

definition min_log2 :: "u64 \<Rightarrow> nat" where
  "min_log2 x = 64 - count_leading_zeros x - 1"

definition max_log2 :: "u64 \<Rightarrow> nat" where
  "max_log2 x = (let l = min_log2 x in if x > push_bit l 1 then l + 1 else l)"

definition round_pow2 :: "nat \<Rightarrow> nat \<Rightarrow> nat" where
  "round_pow2 x pow2 = (x + pow2 - 1) div pow2 * pow2"

definition pow2_mask :: "nat \<Rightarrow> u64" where "pow2_mask x = push_bit x 1 - 1"

definition extract_bits :: "u64 \<Rightarrow> nat \<Rightarrow> nat \<Rightarrow> u64" where
  "extract_bits x start count = drop_bit start x AND pow2_mask count"

definition PRIME64_1 :: u64 where "PRIME64_1 = 11400714785074694791"
definition PRIME64_2 :: u64 where "PRIME64_2 = 14029467366897019727"
definition PRIME64_3 :: u64 where "PRIME64_3 = 1609587929392839161"
definition PRIME64_4 :: u64 where "PRIME64_4 = 9650029242287828579"
definition PRIME64_5 :: u64 where "PRIME64_5 = 2870177450012600261"

definition XXH_rotl64 :: "u64 \<Rightarrow> nat \<Rightarrow> u64" where
  "XXH_rotl64 x r = push_bit r x OR drop_bit (64 - r) x"

definition xxhash :: "u64 \<Rightarrow> u64" where
  "xxhash key =
     (let k1 = key * PRIME64_2;
          k1 = XXH_rotl64 k1 31;
          k1 = k1 * PRIME64_1;
          h64 = 0x9e3779b97f4a7c13 + PRIME64_5 + 8;
          h64 = h64 XOR k1;
          h64 = XXH_rotl64 h64 27 * PRIME64_1 + PRIME64_4;
          h64 = h64 XOR drop_bit 33 h64;
          h64 = h64 * PRIME64_2;
          h64 = h64 XOR drop_bit 29 h64;
          h64 = h64 * PRIME64_3
      in h64 XOR drop_bit 32 h64)"

section \<open>Pairs, buckets and the table\<close>

record bihash_kv =
  kv_key :: u64
  kv_value :: u64

definition BIHASH_KVP_PER_PAGE :: nat where "BIHASH_KVP_PER_PAGE = 7"
definition FREE_VALUE :: u64 where "FREE_VALUE = 0xFEEDFACE8BADF00D"

definition bihash_mark_free :: "bihash_kv \<Rightarrow> bihash_kv" where
  "bihash_mark_free v = v\<lparr>kv_value := FREE_VALUE\<rparr>"

definition bihash_is_free :: "bihash_kv \<Rightarrow> bool" where
  "bihash_is_free v \<longleftrightarrow> kv_value v = FREE_VALUE"

definition bihash_hash :: "bihash_kv \<Rightarrow> u64" where
  "bihash_hash v = xxhash (kv_key v)"

definition zero_kv :: bihash_kv where "zero_kv = \<lparr>kv_key = 0, kv_value = 0\<rparr>"

definition KV_SZ :: nat where "KV_SZ = 16"
definition BUCKET_SZ :: nat where "BUCKET_SZ = 8"

record bihash_bucket =
  b_offset :: nat
  b_lock :: bool
  b_linear_search :: bool
  b_log2_pages :: nat
  b_refcnt :: u16

record bihash =
  bh_nbuckets :: u32
  bh_log2_nbuckets :: nat
  bh_buckets :: "nat \<Rightarrow> bihash_bucket"
  bh_mem :: "nat \<Rightarrow> bihash_kv list"
  bh_freelists :: "nat list"
  bh_arena_next :: nat
  bh_arena_size :: nat
  bh_arena_mapped :: nat
  bh_alloc_lock :: bool
  bh_working_copies :: "nat list"
  bh_working_copy_lengths :: "int list"
  bh_saved_bucket :: bihash_bucket
  bh_instantiated :: bool
  bh_add :: u64
  bh_replace :: u64
  bh_del :: u64
  bh_working_copy_lost :: u64
  bh_split_add :: u64
  bh_splits :: u64
  bh_resplit :: u64
  bh_linear :: u64

text \<open>What the system grants: memory for a vector of so many elements of a size, and mappings (at an offset, of a length) with huge
  or with ordinary pages.\<close>

record bihash_env =
  be_vec :: "nat \<Rightarrow> nat \<Rightarrow> bool"
  be_mmap_huge :: "nat \<Rightarrow> nat \<Rightarrow> bool"
  be_mmap :: "nat \<Rightarrow> nat \<Rightarrow> bool"

datatype bihash_error = Spins | Null_deref | Bad_shift | Uninit

type_synonym 'a bihash_result = "bihash_error + 'a"

abbreviation kvs :: "nat \<Rightarrow> nat" where "kvs l \<equiv> BIHASH_KVP_PER_PAGE * 2 ^ l"
abbreviation page_bytes :: "nat \<Rightarrow> nat" where "page_bytes l \<equiv> KV_SZ * kvs l"

definition set_bucket :: "nat \<Rightarrow> bihash_bucket \<Rightarrow> bihash \<Rightarrow> bihash" where
  "set_bucket i b h = h\<lparr>bh_buckets := (bh_buckets h)(i := b)\<rparr>"

definition set_block :: "nat \<Rightarrow> bihash_kv list \<Rightarrow> bihash \<Rightarrow> bihash" where
  "set_block off blk h = h\<lparr>bh_mem := (bh_mem h)(off := blk)\<rparr>"

definition lock_bucket :: "nat \<Rightarrow> bihash \<Rightarrow> bihash" where
  "lock_bucket i h = set_bucket i ((bh_buckets h i)\<lparr>b_lock := True\<rparr>) h"

definition unlock_bucket :: "nat \<Rightarrow> bihash \<Rightarrow> bihash" where
  "unlock_bucket i h = set_bucket i ((bh_buckets h i)\<lparr>b_lock := False\<rparr>) h"

text \<open>The page behind the header of bucket \<open>i\<close>.\<close>

definition bucket_page :: "nat \<Rightarrow> nat" where
  "bucket_page i = i * (BUCKET_SZ + page_bytes 0) + BUCKET_SZ"

definition get_bucket :: "bihash \<Rightarrow> u64 \<Rightarrow> nat" where
  "get_bucket h hash = unat (hash AND ucast (bh_nbuckets h - 1))"

definition bucket_is_empty :: "bihash_bucket \<Rightarrow> bool" where
  "bucket_is_empty b \<longleftrightarrow> b_log2_pages b = 0 \<and> b_refcnt b = 1"

section \<open>Loops\<close>

text \<open>The first of \<open>n\<close> positions from \<open>s\<close> on with a property: every \<^verbatim>\<open>for\<close> over the pairs of a page.\<close>

fun scan :: "nat \<Rightarrow> nat \<Rightarrow> (nat \<Rightarrow> bool) \<Rightarrow> nat option" where
  "scan s 0 P = None"
| "scan s (Suc n) P = (if P s then Some s else scan (Suc s) n P)"

text \<open>Where the pairs for a hash lie: the whole block of a linear bucket, one page otherwise.\<close>

definition page_of :: "nat \<Rightarrow> nat \<Rightarrow> u64 \<Rightarrow> nat" where
  "page_of lb l hash = unat (extract_bits hash lb l)"

definition search_start :: "nat \<Rightarrow> bool \<Rightarrow> nat \<Rightarrow> u64 \<Rightarrow> nat" where
  "search_start lb linear l hash = (if linear then 0 else BIHASH_KVP_PER_PAGE * page_of lb l hash)"

definition search_limit :: "bool \<Rightarrow> nat \<Rightarrow> nat" where
  "search_limit linear l = (if linear then kvs l else BIHASH_KVP_PER_PAGE)"

definition find_free :: "nat \<Rightarrow> nat \<Rightarrow> bihash_kv list \<Rightarrow> nat option" where
  "find_free s n blk = scan s n (\<lambda>i. bihash_is_free (blk ! i))"

definition find_live :: "nat \<Rightarrow> nat \<Rightarrow> u64 \<Rightarrow> bihash_kv list \<Rightarrow> nat option" where
  "find_live s n k blk = scan s n (\<lambda>i. \<not> bihash_is_free (blk ! i) \<and> kv_key (blk ! i) = k)"

text \<open>\<^verbatim>\<open>split_and_rehash\<close>: each pair in use goes to the first free slot of its new home page. The flag tells whether
  all found one.\<close>

fun rehash_loop :: "nat \<Rightarrow> nat \<Rightarrow> bihash_kv list \<Rightarrow> bihash_kv list \<Rightarrow> bool \<times> bihash_kv list" where
  "rehash_loop lb l [] new = (True, new)"
| "rehash_loop lb l (kv # old) new =
     (if bihash_is_free kv then rehash_loop lb l old new
      else case find_free (BIHASH_KVP_PER_PAGE * page_of lb l (bihash_hash kv)) BIHASH_KVP_PER_PAGE new of
             None \<Rightarrow> (False, new)
           | Some j \<Rightarrow> rehash_loop lb l old (new[j := kv]))"

text \<open>\<^verbatim>\<open>split_and_rehash_linear\<close>: one after the other, \<open>j\<close> the next slot.\<close>

fun linear_loop :: "bihash_kv list \<Rightarrow> nat \<Rightarrow> bihash_kv list \<Rightarrow> bool \<times> bihash_kv list" where
  "linear_loop [] j new = (True, new)"
| "linear_loop (kv # old) j new =
     (if length new \<le> j then (False, new)
      else if bihash_is_free kv then linear_loop old j new
      else case find_free j (length new - j) new of
             None \<Rightarrow> (False, new)
           | Some i \<Rightarrow> linear_loop old (i + 1) (new[i := kv]))"

section \<open>Memory\<close>

definition alloc_aligned :: "bihash_env \<Rightarrow> nat \<Rightarrow> bihash \<Rightarrow> nat option \<times> bihash" where
  "alloc_aligned e nbytes h =
     (let rv = bh_arena_next h;
          h1 = h\<lparr>bh_arena_next := rv + round_pow2 nbytes 64\<rparr>;
          mapped = bh_arena_mapped h
      in if bh_arena_next h1 > bh_arena_size h1 then (None, h1)
         else if bh_arena_next h1 > mapped
         then let alloc = bh_arena_next h1 - mapped;
                  alloc = (if mapped div 4 > alloc then mapped div 4 else alloc);
                  alloc = round_pow2 alloc (2 ^ 21)
              in if be_mmap_huge e mapped alloc \<or> be_mmap e mapped alloc
                 then (Some rv, h1\<lparr>bh_arena_mapped := mapped + alloc\<rparr>)
                 else (None, h1)
         else (Some rv, h1))"

text \<open>Fresh memory is zero. A block from a free list keeps its old keys; all its pairs become free.\<close>

definition value_alloc :: "bihash_env \<Rightarrow> nat \<Rightarrow> bihash \<Rightarrow> nat option \<times> bihash" where
  "value_alloc e l h =
     (let fl = bh_freelists h
      in if length fl \<le> l \<or> fl ! l = 0
         then if length fl \<le> l \<and> \<not> be_vec e (l + 1) 8 then (None, h)
              else case alloc_aligned e (page_bytes l) (h\<lparr>bh_freelists := fl @ replicate (l + 1 - length fl) 0\<rparr>) of
                     (None, h') \<Rightarrow> (None, h')
                   | (Some rv, h') \<Rightarrow> (Some rv, set_block rv (map bihash_mark_free (replicate (kvs l) zero_kv)) h')
         else let rv = fl ! l
              in (Some rv, set_block rv (map bihash_mark_free (bh_mem h rv))
                    (h\<lparr>bh_freelists := fl[l := unat (kv_key (bh_mem h rv ! 0))]\<rparr>)))"

definition value_free :: "nat \<Rightarrow> nat \<Rightarrow> bihash \<Rightarrow> bihash" where
  "value_free v l h =
     (let fl = bh_freelists h
      in set_block v ((bh_mem h v)[0 := (bh_mem h v ! 0)\<lparr>kv_key := of_nat (fl ! l)\<rparr>]) (h\<lparr>bh_freelists := fl[l := v]\<rparr>))"

text \<open>\<open>t\<close> is the thread. The bucket is moved to the copy while the block is split.\<close>

definition working_copy_vecs :: "bihash_env \<Rightarrow> nat \<Rightarrow> bihash \<Rightarrow> bool \<times> bihash" where
  "working_copy_vecs e t h =
     (if t < length (bh_working_copies h) then (True, h)
      else if \<not> be_vec e (t + 1) 8 then (False, h)
      else let h1 = h\<lparr>bh_working_copies := bh_working_copies h @ replicate (t + 1 - length (bh_working_copies h)) 0\<rparr>
           in if \<not> be_vec e (t + 1) 4 \<and> length (bh_working_copy_lengths h) \<le> t then (False, h1)
              else (True, h1\<lparr>bh_working_copy_lengths :=
                      bh_working_copy_lengths h @ replicate (t + 1 - length (bh_working_copy_lengths h)) (- 1)\<rparr>))"

definition make_working_copy :: "bihash_env \<Rightarrow> nat \<Rightarrow> nat \<Rightarrow> bihash \<Rightarrow> bool \<times> bihash" where
  "make_working_copy e t i h0 =
     (case working_copy_vecs e t h0 of
        (False, h) \<Rightarrow> (False, h)
      | (True, h) \<Rightarrow>
          (let b = bh_buckets h i;
               l = b_log2_pages b;
               h1 = h\<lparr>bh_saved_bucket := b\<rparr>
           in case (if int l > bh_working_copy_lengths h ! t
                    then (case alloc_aligned e (page_bytes l) h1 of
                            (None, h2) \<Rightarrow> (None, h2)
                          | (Some w, h2) \<Rightarrow>
                              (Some w, set_block w (replicate (kvs l) zero_kv)
                                (h2\<lparr>bh_working_copy_lengths := (bh_working_copy_lengths h2)[t := int l],
                                    bh_working_copies := (bh_working_copies h2)[t := w],
                                    bh_working_copy_lost := bh_working_copy_lost h2 + push_bit l 1\<rparr>)))
                    else (Some (bh_working_copies h ! t), h1)) of
                (None, h2) \<Rightarrow> (False, h2)
              | (Some w, h2) \<Rightarrow>
                  (True, set_bucket i (b\<lparr>b_offset := w\<rparr>)
                     (set_block w (take (kvs l) (bh_mem h2 (b_offset b)) @ drop (kvs l) (bh_mem h2 w)) h2))))"

section \<open>Splitting a bucket\<close>

definition split_and_rehash :: "bihash_env \<Rightarrow> nat \<Rightarrow> nat \<Rightarrow> nat \<Rightarrow> bihash \<Rightarrow> (nat option \<times> bihash) bihash_result" where
  "split_and_rehash e old old_l new_l h =
     (case value_alloc e new_l h of
        (None, h1) \<Rightarrow> if list_ex (\<lambda>kv. \<not> bihash_is_free kv) (take (kvs old_l) (bh_mem h1 old)) then Inl Null_deref else Inr (None, h1)
      | (Some nv, h1) \<Rightarrow>
          (case rehash_loop (bh_log2_nbuckets h1) new_l (take (kvs old_l) (bh_mem h1 old)) (bh_mem h1 nv) of
             (ok, blk) \<Rightarrow> if ok then Inr (Some nv, set_block nv blk h1)
                          else Inr (None, value_free nv new_l (set_block nv blk h1))))"

definition split_and_rehash_linear :: "bihash_env \<Rightarrow> nat \<Rightarrow> nat \<Rightarrow> nat \<Rightarrow> bihash \<Rightarrow> (nat option \<times> bihash) bihash_result" where
  "split_and_rehash_linear e old old_l new_l h =
     (case value_alloc e new_l h of
        (None, h1) \<Rightarrow> if list_ex (\<lambda>kv. \<not> bihash_is_free kv) (take (kvs old_l) (bh_mem h1 old)) then Inl Null_deref else Inr (None, h1)
      | (Some nv, h1) \<Rightarrow>
          (case linear_loop (take (kvs old_l) (bh_mem h1 old)) 0 (bh_mem h1 nv) of
             (ok, blk) \<Rightarrow> if ok then Inr (Some nv, set_block nv blk h1)
                          else Inr (None, value_free nv new_l (set_block nv blk h1))))"

text \<open>The labels \<^verbatim>\<open>mark_linear\<close> and \<^verbatim>\<open>try_resplit\<close> and the code before them, each with the current \<^verbatim>\<open>new_log2_pages\<close>. The result is the new block,
  its size and whether it is linear, with the pair added.\<close>

fun mark_linear :: "bihash_env \<Rightarrow> nat \<Rightarrow> nat \<Rightarrow> bihash_kv \<Rightarrow> nat \<Rightarrow> bihash \<Rightarrow> (nat \<times> nat \<times> bool \<times> bihash) bihash_result" where
  "mark_linear e old old_l add_v 0 h = Inl Bad_shift"
| "mark_linear e old old_l add_v (Suc l) h =
     (case split_and_rehash_linear e old old_l l h of
        Inl err \<Rightarrow> Inl err
      | Inr (None, h1) \<Rightarrow> Inl Null_deref
      | Inr (Some nv, h1) \<Rightarrow>
          (let h2 = h1\<lparr>bh_linear := bh_linear h1 + 1, bh_resplit := bh_resplit h1 + 1,
                       bh_splits := bh_splits h1 + of_nat old_l + 1\<rparr>
           in case find_free 0 (kvs l) (bh_mem h2 nv) of
                Some i \<Rightarrow> Inr (nv, l, True, set_block nv ((bh_mem h2 nv)[i := add_v]) h2)
              | None \<Rightarrow> mark_linear e old old_l add_v l (value_free nv l h2)))"

definition try_resplit :: "bihash_env \<Rightarrow> nat \<Rightarrow> nat \<Rightarrow> bihash_kv \<Rightarrow> nat \<Rightarrow> bihash \<Rightarrow> (nat \<times> nat \<times> bool \<times> bihash) bihash_result" where
  "try_resplit e old old_l add_v l0 h =
     (let l = l0 + 1
      in case split_and_rehash e old old_l l h of
           Inl err \<Rightarrow> Inl err
         | Inr (None, h1) \<Rightarrow> mark_linear e old old_l add_v l h1
         | Inr (Some nv, h1) \<Rightarrow>
             (let h2 = h1\<lparr>bh_resplit := bh_resplit h1 + 1, bh_splits := bh_splits h1 + of_nat old_l + 1\<rparr>
              in case find_free (BIHASH_KVP_PER_PAGE * page_of (bh_log2_nbuckets h2) l (bihash_hash add_v)) BIHASH_KVP_PER_PAGE (bh_mem h2 nv) of
                   Some i \<Rightarrow> Inr (nv, l, False, set_block nv ((bh_mem h2 nv)[i := add_v]) h2)
                 | None \<Rightarrow> mark_linear e old old_l add_v l (value_free nv l h2)))"

definition split_add :: "bihash_env \<Rightarrow> nat \<Rightarrow> nat \<Rightarrow> bihash_kv \<Rightarrow> bihash \<Rightarrow> (nat \<times> nat \<times> bool \<times> bihash) bihash_result" where
  "split_add e old old_l add_v h =
     (let l = old_l + 1
      in case split_and_rehash e old old_l l h of
           Inl err \<Rightarrow> Inl err
         | Inr (None, h1) \<Rightarrow> try_resplit e old old_l add_v l h1
         | Inr (Some nv, h1) \<Rightarrow>
             (case find_free (BIHASH_KVP_PER_PAGE * page_of (bh_log2_nbuckets h1) l (bihash_hash add_v)) BIHASH_KVP_PER_PAGE (bh_mem h1 nv) of
                Some i \<Rightarrow> Inr (nv, l, False, set_block nv ((bh_mem h1 nv)[i := add_v]) h1)
              | None \<Rightarrow> try_resplit e old old_l add_v l (value_free nv l h1)))"

text \<open>The label \<^verbatim>\<open>expand_ok\<close>: the new block takes the place of the old one, which goes to its free list unless it is the
  page behind the header.\<close>

definition expand_ok :: "nat \<Rightarrow> bihash_bucket \<Rightarrow> nat \<Rightarrow> nat \<Rightarrow> bool \<Rightarrow> bihash \<Rightarrow> bihash" where
  "expand_ok i saved nv l linear h =
     (let h4 = set_bucket i \<lparr>b_offset = nv, b_lock = False, b_linear_search = linear, b_log2_pages = l, b_refcnt = b_refcnt saved + 1\<rparr> h;
          h5 = (if b_log2_pages saved > 0 then value_free (b_offset saved) (b_log2_pages saved) h4 else h4)
      in h5\<lparr>bh_alloc_lock := False\<rparr>)"

text \<open>The bucket is full: copy it, split it, put the new block in its place. Without memory for the copy the function
  returns with both locks held. For a new block of one page \<^verbatim>\<open>tmp_b.refcnt\<close> would not be set.\<close>

definition expand_bucket :: "bihash_env \<Rightarrow> nat \<Rightarrow> nat \<Rightarrow> bihash_kv \<Rightarrow> bihash \<Rightarrow> (int \<times> bihash) bihash_result" where
  "expand_bucket e t i add_v h =
     (if bh_alloc_lock h then Inl Spins
      else case make_working_copy e t i (h\<lparr>bh_alloc_lock := True\<rparr>) of
             (False, h1) \<Rightarrow> Inr (- 4, h1)
           | (True, h1) \<Rightarrow>
               (let saved = bh_saved_bucket h1;
                    old_l = b_log2_pages saved;
                    h2 = h1\<lparr>bh_split_add := bh_split_add h1 + 1, bh_splits := bh_splits h1 + of_nat old_l + 1\<rparr>
                in case split_add e (bh_working_copies h2 ! t) old_l add_v h2 of
                     Inl err \<Rightarrow> Inl err
                   | Inr (nv, l, linear, h3) \<Rightarrow> if l = 0 then Inl Uninit else Inr (0, expand_ok i saved nv l linear h3)))"

section \<open>Adding, deleting, searching\<close>

text \<open>\<open>stale\<close> is the test for pairs that may be overwritten when the bucket is full, if there is one.\<close>

definition bihash_add ::
    "bihash_env \<Rightarrow> nat \<Rightarrow> (bihash_kv \<Rightarrow> bool) option \<Rightarrow> bool \<Rightarrow> bihash_kv \<Rightarrow> u64 \<Rightarrow> nat \<Rightarrow> bihash \<Rightarrow> (int \<times> bihash) bihash_result" where
  "bihash_add e t stale no_overwrite add_v hash i h =
     (let b = bh_buckets h i;
          blk = bh_mem h (b_offset b);
          s = search_start (bh_log2_nbuckets h) (b_linear_search b) (b_log2_pages b) hash;
          limit = search_limit (b_linear_search b) (b_log2_pages b)
      in case find_live s limit (kv_key add_v) blk of
           Some j \<Rightarrow>
             if no_overwrite then Inr (- 2, unlock_bucket i h)
             else let h1 = unlock_bucket i (set_block (b_offset b) (blk[j := (blk ! j)\<lparr>kv_value := kv_value add_v\<rparr>]) h)
                  in Inr (0, h1\<lparr>bh_replace := bh_replace h1 + 1\<rparr>)
         | None \<Rightarrow>
             (case find_free s limit blk of
                Some j \<Rightarrow>
                  let h1 = set_block (b_offset b) (blk[j := add_v]) h;
                      h2 = unlock_bucket i (set_bucket i (b\<lparr>b_refcnt := b_refcnt b + 1\<rparr>) h1)
                  in Inr (0, h2\<lparr>bh_add := bh_add h2 + 1\<rparr>)
              | None \<Rightarrow>
                  (case (case stale of None \<Rightarrow> None | Some f \<Rightarrow> scan s limit (\<lambda>j. f (blk ! j))) of
                     Some j \<Rightarrow>
                       let h1 = unlock_bucket i (set_block (b_offset b) (blk[j := add_v]) h)
                       in Inr (0, h1\<lparr>bh_replace := bh_replace h1 + 1\<rparr>)
                   | None \<Rightarrow> expand_bucket e t i add_v h)))"

definition free_backing_store :: "bihash_bucket \<Rightarrow> bihash \<Rightarrow> (int \<times> bihash) bihash_result" where
  "free_backing_store tmp_b h =
     (if bh_alloc_lock h then Inl Spins
      else let h1 = value_free (b_offset tmp_b) (b_log2_pages tmp_b) h
           in Inr (0, h1\<lparr>bh_del := bh_del h1 + 1\<rparr>))"

definition bihash_del :: "u64 \<Rightarrow> u64 \<Rightarrow> nat \<Rightarrow> bihash \<Rightarrow> (int \<times> bihash) bihash_result" where
  "bihash_del k hash i h =
     (let b = bh_buckets h i;
          blk = bh_mem h (b_offset b);
          s = search_start (bh_log2_nbuckets h) (b_linear_search b) (b_log2_pages b) hash;
          limit = search_limit (b_linear_search b) (b_log2_pages b)
      in case find_live s limit k blk of
           None \<Rightarrow> Inr (- 3, unlock_bucket i h)
         | Some j \<Rightarrow>
             let h1 = set_block (b_offset b) (blk[j := bihash_mark_free (blk ! j)]) h
             in if b_refcnt b > 1
                then let b' = b\<lparr>b_refcnt := b_refcnt b - 1\<rparr>
                     in if b_refcnt b' = 1 \<and> b_log2_pages b' > 0
                        then let h2 = set_bucket i (b'\<lparr>b_offset := bucket_page i, b_linear_search := False, b_log2_pages := 0\<rparr>) h1;
                                 h3 = unlock_bucket i (set_block (bucket_page i) (map bihash_mark_free (bh_mem h2 (bucket_page i))) h2)
                             in free_backing_store b' (h3\<lparr>bh_del := bh_del h3 + 1\<rparr>)
                        else let h2 = unlock_bucket i (set_bucket i b' h1) in Inr (0, h2\<lparr>bh_del := bh_del h2 + 1\<rparr>)
                else free_backing_store b
                       (set_bucket i \<lparr>b_offset = 0, b_lock = False, b_linear_search = False, b_log2_pages = 0, b_refcnt = 0\<rparr> h1))"

definition add_del_inline_with_hash ::
    "bihash_env \<Rightarrow> nat \<Rightarrow> (bihash_kv \<Rightarrow> bool) option \<Rightarrow> bihash_kv \<Rightarrow> u64 \<Rightarrow> int \<Rightarrow> bihash \<Rightarrow> (int \<times> bihash) bihash_result" where
  "add_del_inline_with_hash e t stale add_v hash is_add h =
     (let i = get_bucket h hash
      in if b_lock (bh_buckets h i) then Inl Spins
         else if is_add \<noteq> 0 then bihash_add e t stale (is_add = 2) add_v hash i (lock_bucket i h)
         else bihash_del (kv_key add_v) hash i (lock_bucket i h))"

definition bihash_add_del :: "bihash_env \<Rightarrow> nat \<Rightarrow> bihash_kv \<Rightarrow> int \<Rightarrow> bihash \<Rightarrow> (int \<times> bihash) bihash_result" where
  "bihash_add_del e t add_v is_add h = add_del_inline_with_hash e t None add_v (bihash_hash add_v) is_add h"

definition bihash_add_or_overwrite_stale ::
    "bihash_env \<Rightarrow> nat \<Rightarrow> bihash_kv \<Rightarrow> (bihash_kv \<Rightarrow> bool) \<Rightarrow> bihash \<Rightarrow> (int \<times> bihash) bihash_result" where
  "bihash_add_or_overwrite_stale e t add_v stale h = add_del_inline_with_hash e t (Some stale) add_v (bihash_hash add_v) 1 h"

definition bihash_search_with_hash :: "bihash \<Rightarrow> u64 \<Rightarrow> bihash_kv \<Rightarrow> (int \<times> bihash_kv option) bihash_result" where
  "bihash_search_with_hash h hash search_key =
     (let b = bh_buckets h (get_bucket h hash);
          blk = bh_mem h (b_offset b)
      in if bucket_is_empty b then Inr (- 1, None)
         else if b_lock b then Inl Spins
         else case scan (search_start (bh_log2_nbuckets h) (b_linear_search b) (b_log2_pages b) hash)
                     (search_limit (b_linear_search b) (b_log2_pages b)) (\<lambda>i. kv_key (blk ! i) = kv_key search_key) of
                None \<Rightarrow> Inr (- 1, None)
              | Some i \<Rightarrow> if bihash_is_free (blk ! i) then Inr (- 1, None) else Inr (0, Some (blk ! i)))"

definition bihash_search :: "bihash \<Rightarrow> bihash_kv \<Rightarrow> (int \<times> bihash_kv option) bihash_result" where
  "bihash_search h search_key = bihash_search_with_hash h (bihash_hash search_key) search_key"

text \<open>A callback that leaves the table alone; \<^verbatim>\<open>False\<close> is \<^verbatim>\<open>BIHASH_WALK_STOP\<close>.\<close>

fun walk_block :: "(bihash_kv \<Rightarrow> 's \<Rightarrow> bool \<times> 's) \<Rightarrow> bihash_kv list \<Rightarrow> 's \<Rightarrow> bool \<times> 's" where
  "walk_block cb [] s = (True, s)"
| "walk_block cb (kv # kvl) s =
     (if bihash_is_free kv then walk_block cb kvl s
      else case cb kv s of (False, s') \<Rightarrow> (False, s') | (True, s') \<Rightarrow> walk_block cb kvl s')"

fun walk_buckets :: "(bihash_kv \<Rightarrow> 's \<Rightarrow> bool \<times> 's) \<Rightarrow> bihash \<Rightarrow> nat list \<Rightarrow> 's \<Rightarrow> 's" where
  "walk_buckets cb h [] s = s"
| "walk_buckets cb h (i # is) s =
     (let b = bh_buckets h i
      in if bucket_is_empty b then walk_buckets cb h is s
         else case walk_block cb (take (kvs (b_log2_pages b)) (bh_mem h (b_offset b))) s of
                (False, s') \<Rightarrow> s'
              | (True, s') \<Rightarrow> walk_buckets cb h is s')"

definition bihash_foreach_key_value_pair :: "bihash \<Rightarrow> (bihash_kv \<Rightarrow> 's \<Rightarrow> bool \<times> 's) \<Rightarrow> 's \<Rightarrow> 's" where
  "bihash_foreach_key_value_pair h cb s = walk_buckets cb h [0..<unat (bh_nbuckets h)] s"

section \<open>Creation\<close>

text \<open>\<open>reserve\<close> and \<open>lock_mem\<close> tell whether the address space and the memory of the lock are granted. The product of the numbers of
  buckets and of pairs is computed in 32 bits.\<close>

definition bihash_instantiate :: "bihash_env \<Rightarrow> (nat \<Rightarrow> bool) \<Rightarrow> nat \<Rightarrow> bihash \<Rightarrow> int \<times> bihash" where
  "bihash_instantiate e reserve memory_size h =
     (if \<not> reserve memory_size then (- 1, h)
      else case alloc_aligned e (unat (bh_nbuckets h) * BUCKET_SZ + unat (bh_nbuckets h * of_nat BIHASH_KVP_PER_PAGE) * KV_SZ)
                  (h\<lparr>bh_arena_next := 0, bh_arena_size := memory_size, bh_arena_mapped := 0\<rparr>) of
             (None, h1) \<Rightarrow> (- 1, h1)
           | (Some _, h1) \<Rightarrow>
               (0, h1\<lparr>bh_buckets := (\<lambda>i. if i < unat (bh_nbuckets h)
                         then \<lparr>b_offset = bucket_page i, b_lock = False, b_linear_search = False, b_log2_pages = 0, b_refcnt = 1\<rparr>
                         else bh_buckets h1 i),
                      bh_mem := (\<lambda>off. if \<exists>i<unat (bh_nbuckets h). off = bucket_page i
                         then map bihash_mark_free (replicate (kvs 0) zero_kv) else bh_mem h1 off),
                      bh_instantiated := True\<rparr>))"

definition bihash_init :: "bihash_env \<Rightarrow> (nat \<Rightarrow> bool) \<Rightarrow> bool \<Rightarrow> u32 \<Rightarrow> nat \<Rightarrow> bihash \<Rightarrow> int \<times> bihash" where
  "bihash_init e reserve lock_mem nbuckets memory_size h =
     (let l = max_log2 (ucast nbuckets);
          n = push_bit l 1 :: u32;
          h1 = h\<lparr>bh_nbuckets := n, bh_log2_nbuckets := max_log2 (ucast n), bh_instantiated := False\<rparr>
      in if \<not> lock_mem then (- 1, h1)
         else bihash_instantiate e reserve memory_size (h1\<lparr>bh_alloc_lock := False\<rparr>))"

end
