(* ===== verification/Bihash_Blocks.thy ===== *)
theory Bihash_Blocks
  imports Bihash
begin

text \<open>
  Blocks of pairs of the hash table as finite maps. A block represents the map of its pairs in use. Deleting marks only the value of a
  pair, so that free slots keep old keys, and the search looks at keys first: it is right because a pair in use always
  lies before any free slot with the same key that is searched with it. That is part of the invariant of a block.
\<close>

unbundle bit_operations_syntax

section \<open>Scanning\<close>

lemma scan_Some: "scan s n P = Some i \<longleftrightarrow> s \<le> i \<and> i < s + n \<and> P i \<and> (\<forall>j. s \<le> j \<longrightarrow> j < i \<longrightarrow> \<not> P j)"
proof (induction n arbitrary: s)
  case (Suc n)
  show ?case
  proof (cases "P s")
    case True
    have "\<not> s < i" if "\<forall>j. s \<le> j \<longrightarrow> j < i \<longrightarrow> \<not> P j" using that [rule_format, of s] True by auto
    then have "(s \<le> i \<and> i < s + Suc n \<and> P i \<and> (\<forall>j. s \<le> j \<longrightarrow> j < i \<longrightarrow> \<not> P j)) = (i = s)" using True by fastforce
    then show ?thesis using True by auto
  next
    case False
    have "\<not> P j" if "\<forall>j. Suc s \<le> j \<longrightarrow> j < i \<longrightarrow> \<not> P j" "s \<le> j" "j < i" for j using that False by (cases "j = s") auto
    then have "(\<forall>j. s \<le> j \<longrightarrow> j < i \<longrightarrow> \<not> P j) = (\<forall>j. Suc s \<le> j \<longrightarrow> j < i \<longrightarrow> \<not> P j)" by auto
    moreover have "(s \<le> i \<and> i < s + Suc n \<and> P i) = (Suc s \<le> i \<and> i < Suc s + n \<and> P i)"
      using False by (cases "i = s") auto
    ultimately show ?thesis using False Suc [of "Suc s"] by auto
  qed
qed auto

lemma scan_None: "scan s n P = None \<longleftrightarrow> (\<forall>i. s \<le> i \<longrightarrow> i < s + n \<longrightarrow> \<not> P i)"
proof (induction n arbitrary: s)
  case (Suc n)
  have "(\<forall>i. s \<le> i \<longrightarrow> i < s + Suc n \<longrightarrow> \<not> P i) = (\<not> P s \<and> (\<forall>i. Suc s \<le> i \<longrightarrow> i < Suc s + n \<longrightarrow> \<not> P i))"
  proof -
    have "\<not> P i" if "\<not> P s" "\<forall>i. Suc s \<le> i \<longrightarrow> i < Suc s + n \<longrightarrow> \<not> P i" "s \<le> i" "i < s + Suc n" for i
      using that by (cases "i = s") auto
    then show ?thesis by auto
  qed
  then show ?case using Suc by simp
qed auto

abbreviation live :: "bihash_kv \<Rightarrow> bool" where "live kv \<equiv> \<not> bihash_is_free kv"

section \<open>Blocks of pairs\<close>

primrec block_map :: "bihash_kv list \<Rightarrow> u64 \<Rightarrow> u64 option" where
  "block_map [] k = None"
| "block_map (kv # blk) k = (if live kv \<and> kv_key kv = k then Some (kv_value kv) else block_map blk k)"

definition live_count :: "bihash_kv list \<Rightarrow> nat" where
  "live_count blk = length (filter live blk)"

text \<open>Keys of pairs in use are distinct, belong to the bucket and lie on their page unless the block is linear;
  and the order of pairs in use and free slots.\<close>

definition keys_distinct :: "bihash_kv list \<Rightarrow> bool" where
  "keys_distinct blk \<longleftrightarrow> (\<forall>p<length blk. \<forall>q<length blk. live (blk ! p) \<longrightarrow> live (blk ! q) \<longrightarrow> kv_key (blk ! p) = kv_key (blk ! q) \<longrightarrow> p = q)"

definition keys_placed :: "nat \<Rightarrow> bool \<Rightarrow> nat \<Rightarrow> (u64 \<Rightarrow> bool) \<Rightarrow> bihash_kv list \<Rightarrow> bool" where
  "keys_placed lb linear l mine blk \<longleftrightarrow>
     (\<forall>p<length blk. live (blk ! p) \<longrightarrow> mine (kv_key (blk ! p)) \<and>
        (linear \<or> p div BIHASH_KVP_PER_PAGE = page_of lb l (xxhash (kv_key (blk ! p)))))"

definition stale_after :: "bool \<Rightarrow> bihash_kv list \<Rightarrow> bool" where
  "stale_after linear blk \<longleftrightarrow>
     (\<forall>q<length blk. \<forall>p<q. bihash_is_free (blk ! p) \<longrightarrow> live (blk ! q) \<longrightarrow> kv_key (blk ! p) = kv_key (blk ! q) \<longrightarrow>
        \<not> linear \<and> p div BIHASH_KVP_PER_PAGE \<noteq> q div BIHASH_KVP_PER_PAGE)"

definition block_ok :: "nat \<Rightarrow> bool \<Rightarrow> nat \<Rightarrow> (u64 \<Rightarrow> bool) \<Rightarrow> bihash_kv list \<Rightarrow> bool" where
  "block_ok lb linear l mine blk \<longleftrightarrow>
     length blk = kvs l \<and> keys_distinct blk \<and> keys_placed lb linear l mine blk \<and> stale_after linear blk"

lemma keys_distinctD:
  "keys_distinct blk \<Longrightarrow> p < length blk \<Longrightarrow> q < length blk \<Longrightarrow> live (blk ! p) \<Longrightarrow> live (blk ! q) \<Longrightarrow> kv_key (blk ! p) = kv_key (blk ! q) \<Longrightarrow> p = q"
  by (simp add: keys_distinct_def)

lemma block_okD:
  assumes "block_ok lb linear l mine blk"
  shows "length blk = kvs l" "keys_distinct blk" "keys_placed lb linear l mine blk" "stale_after linear blk"
  using assms by (simp_all add: block_ok_def)

lemma stale_afterD:
  "stale_after linear blk \<Longrightarrow> p < q \<Longrightarrow> q < length blk \<Longrightarrow> bihash_is_free (blk ! p) \<Longrightarrow> live (blk ! q) \<Longrightarrow> kv_key (blk ! p) = kv_key (blk ! q) \<Longrightarrow>
   \<not> linear \<and> p div BIHASH_KVP_PER_PAGE \<noteq> q div BIHASH_KVP_PER_PAGE"
  by (simp add: stale_after_def)

lemma block_map_None: "block_map blk k = None \<longleftrightarrow> (\<forall>p<length blk. live (blk ! p) \<longrightarrow> kv_key (blk ! p) \<noteq> k)"
proof (induction blk)
  case (Cons kv blk)
  then show ?case by (auto simp: less_Suc_eq_0_disj)
qed simp

lemma block_map_SomeD: "block_map blk k = Some v \<Longrightarrow> \<exists>p<length blk. live (blk ! p) \<and> kv_key (blk ! p) = k \<and> kv_value (blk ! p) = v"
proof (induction blk)
  case (Cons kv blk)
  then show ?case by (cases "live kv \<and> kv_key kv = k") (auto simp: less_Suc_eq_0_disj)
qed simp

lemma block_map_Some:
  assumes "keys_distinct blk"
  shows "block_map blk k = Some v \<longleftrightarrow> (\<exists>p<length blk. live (blk ! p) \<and> kv_key (blk ! p) = k \<and> kv_value (blk ! p) = v)"
proof
  assume "\<exists>p<length blk. live (blk ! p) \<and> kv_key (blk ! p) = k \<and> kv_value (blk ! p) = v"
  then obtain p where p: "p < length blk" "live (blk ! p)" "kv_key (blk ! p) = k" "kv_value (blk ! p) = v" by blast
  then obtain w where w: "block_map blk k = Some w" using block_map_None by fastforce
  from block_map_SomeD [OF this] obtain q where "q < length blk" "live (blk ! q)" "kv_key (blk ! q) = k" "kv_value (blk ! q) = w" by blast
  then show "block_map blk k = Some v" using assms p w by (metis keys_distinct_def)
qed (rule block_map_SomeD)

lemma live_count_update:
  "p < length blk \<Longrightarrow> live_count (blk[p := kv]) + (if live (blk ! p) then 1 else 0) = live_count blk + (if live kv then 1 else 0)"
proof (induction blk arbitrary: p)
  case (Cons x blk)
  then show ?case by (cases p) (auto simp: live_count_def)
qed simp

lemma live_count_pos: "p < length blk \<Longrightarrow> live (blk ! p) \<Longrightarrow> 0 < live_count blk"
  by (auto simp: live_count_def filter_empty_conv)

lemma live_count_0: "live_count blk = 0 \<longleftrightarrow> block_map blk = (\<lambda>_. None)"
proof
  assume "block_map blk = (\<lambda>_. None)"
  then have "\<forall>p<length blk. bihash_is_free (blk ! p)" using block_map_None by metis
  then show "live_count blk = 0" by (auto simp: live_count_def filter_empty_conv in_set_conv_nth)
next
  assume "live_count blk = 0"
  then show "block_map blk = (\<lambda>_. None)" using live_count_pos by (fastforce simp: block_map_None fun_eq_iff)
qed

text \<open>The searched positions are those of the block where the key may be.\<close>

lemma page_less: "page_of lb l hash < 2 ^ l"
proof (cases "l < 64")
  case True
  have "pow2_mask l = mask l" by (simp add: pow2_mask_def mask_eq_exp_minus_1 push_bit_eq_mult)
  then have "extract_bits hash lb l = take_bit l (drop_bit lb hash)" by (simp add: extract_bits_def take_bit_eq_mask)
  then show ?thesis by (simp add: page_of_def unsigned_take_bit_eq del: take_bit_eq_mod)
next
  case False
  have "unat (extract_bits hash lb l) < 2 ^ 64" using unsigned_less [of "extract_bits hash lb l", where 'a = nat] by simp
  moreover have "(2::nat) ^ 64 \<le> 2 ^ l" using False by (intro power_increasing) auto
  ultimately show ?thesis by (simp add: page_of_def)
qed

lemma search_range: "search_start lb linear l hash + search_limit linear l \<le> kvs l"
proof -
  have "BIHASH_KVP_PER_PAGE * (page_of lb l hash + 1) \<le> BIHASH_KVP_PER_PAGE * 2 ^ l" using page_less by (intro mult_le_mono2) (simp add: Suc_leI)
  then show ?thesis by (simp add: search_start_def search_limit_def)
qed

definition searched :: "nat \<Rightarrow> bool \<Rightarrow> nat \<Rightarrow> u64 \<Rightarrow> nat \<Rightarrow> bool" where
  "searched lb linear l hash p \<longleftrightarrow> search_start lb linear l hash \<le> p \<and> p < search_start lb linear l hash + search_limit linear l"

lemma searched_iff: "p < kvs l \<Longrightarrow> searched lb linear l hash p = (linear \<or> p div BIHASH_KVP_PER_PAGE = page_of lb l hash)"
proof -
  assume p: "p < kvs l"
  have "(BIHASH_KVP_PER_PAGE * a \<le> p \<and> p < BIHASH_KVP_PER_PAGE * a + BIHASH_KVP_PER_PAGE) = (p div BIHASH_KVP_PER_PAGE = a)" for a
    by (auto simp: BIHASH_KVP_PER_PAGE_def)
  then show ?thesis using p by (auto simp: searched_def search_start_def search_limit_def)
qed

lemma searchedI:
  assumes "block_ok lb linear l mine blk" "p < length blk" "live (blk ! p)"
  shows "searched lb linear l (xxhash (kv_key (blk ! p))) p"
  using assms searched_iff [of p l lb linear "xxhash (kv_key (blk ! p))"] by (auto simp: block_ok_def keys_placed_def)

lemma searched_less: "searched lb linear l hash p \<Longrightarrow> p < kvs l"
  using search_range [of lb linear l hash] by (simp add: searched_def)

lemma find_live_Some:
  assumes "block_ok lb linear l mine blk"
  shows "find_live (search_start lb linear l (xxhash k)) (search_limit linear l) k blk = Some j \<longleftrightarrow> j < length blk \<and> live (blk ! j) \<and> kv_key (blk ! j) = k"
proof
  assume "find_live (search_start lb linear l (xxhash k)) (search_limit linear l) k blk = Some j"
  then have "searched lb linear l (xxhash k) j" "live (blk ! j)" "kv_key (blk ! j) = k" by (simp_all add: find_live_def scan_Some searched_def)
  then show "j < length blk \<and> live (blk ! j) \<and> kv_key (blk ! j) = k" using searched_less block_okD(1) [OF assms] by simp
next
  assume j: "j < length blk \<and> live (blk ! j) \<and> kv_key (blk ! j) = k"
  have "\<not> (live (blk ! i) \<and> kv_key (blk ! i) = k)" if "i < j" for i
    using keys_distinctD [OF block_okD(2) [OF assms], of i j] j that by auto
  moreover have "searched lb linear l (xxhash k) j" using searchedI [OF assms] j by auto
  ultimately show "find_live (search_start lb linear l (xxhash k)) (search_limit linear l) k blk = Some j"
    using j by (simp add: find_live_def scan_Some searched_def)
qed

lemma find_live_None:
  assumes "block_ok lb linear l mine blk"
  shows "find_live (search_start lb linear l (xxhash k)) (search_limit linear l) k blk = None \<longleftrightarrow> block_map blk k = None"
  unfolding block_map_None using find_live_Some [OF assms, of k] by (metis not_None_eq)

text \<open>The search loop, which compares keys before it looks whether the slot is free.\<close>

lemma search_scan:
  assumes "block_ok lb linear l mine blk"
  shows "(case scan (search_start lb linear l (xxhash k)) (search_limit linear l) (\<lambda>i. kv_key (blk ! i) = k) of
       None \<Rightarrow> None | Some i \<Rightarrow> if bihash_is_free (blk ! i) then None else Some (blk ! i)) =
     map_option (\<lambda>v. \<lparr>kv_key = k, kv_value = v\<rparr>) (block_map blk k)"
proof (cases "block_map blk k")
  case None
  have "bihash_is_free (blk ! i)" if "scan (search_start lb linear l (xxhash k)) (search_limit linear l) (\<lambda>i. kv_key (blk ! i) = k) = Some i" for i
  proof -
    have "searched lb linear l (xxhash k) i" "kv_key (blk ! i) = k" using that by (simp_all add: scan_Some searched_def)
    moreover from this have "i < length blk" using searched_less block_okD(1) [OF assms] by simp
    ultimately show ?thesis using None block_map_None by blast
  qed
  then show ?thesis by (simp add: None split: option.splits)
next
  case (Some v)
  then obtain p where p: "p < length blk" "live (blk ! p)" "kv_key (blk ! p) = k" "kv_value (blk ! p) = v" using block_map_SomeD by blast
  have sp: "searched lb linear l (xxhash k) p" using searchedI [OF assms p(1,2)] p(3) by simp
  have "kv_key (blk ! i) \<noteq> k" if i: "search_start lb linear l (xxhash k) \<le> i" "i < p" for i
  proof
    assume k: "kv_key (blk ! i) = k"
    have si: "searched lb linear l (xxhash k) i" "i < length blk" using i p(1) sp by (auto simp: searched_def)
    have "bihash_is_free (blk ! i)" using keys_distinctD [OF block_okD(2) [OF assms] si(2) p(1) _ p(2)] i(2) k p(3) by auto
    then have "\<not> linear \<and> i div BIHASH_KVP_PER_PAGE \<noteq> p div BIHASH_KVP_PER_PAGE"
      using stale_afterD [OF block_okD(4) [OF assms] i(2) p(1) _ p(2)] k p(3) by simp
    moreover have "p < kvs l" "i < kvs l" using p(1) si(2) block_okD(1) [OF assms] by simp_all
    ultimately show False using searched_iff si(1) sp by metis
  qed
  then have "scan (search_start lb linear l (xxhash k)) (search_limit linear l) (\<lambda>i. kv_key (blk ! i) = k) = Some p"
    using sp p by (simp add: scan_Some searched_def)
  moreover have "blk ! p = \<lparr>kv_key = k, kv_value = v\<rparr>" using p by simp
  ultimately show ?thesis using p Some by simp
qed

text \<open>Writing a pair into a slot of the block.\<close>

lemma block_map_update:
  assumes "keys_distinct blk" "keys_distinct (blk[j := kv])" "j < length blk" "live kv"
    and "live (blk ! j) \<Longrightarrow> kv_key (blk ! j) = kv_key kv"
  shows "block_map (blk[j := kv]) = (block_map blk)(kv_key kv \<mapsto> kv_value kv)"
proof
  fix k
  have new: "block_map (blk[j := kv]) (kv_key kv) = Some (kv_value kv)" using assms by (auto simp: block_map_Some)
  have "(block_map (blk[j := kv]) k = Some v) = (block_map blk k = Some v)" if "k \<noteq> kv_key kv" for v
  proof -
    have "(p < length blk \<and> live (blk[j := kv] ! p) \<and> kv_key (blk[j := kv] ! p) = k \<and> kv_value (blk[j := kv] ! p) = v) =
       (p < length blk \<and> live (blk ! p) \<and> kv_key (blk ! p) = k \<and> kv_value (blk ! p) = v)" for p
      using that assms(5) by (cases "p = j") auto
    then show ?thesis using assms(1,2) by (simp add: block_map_Some)
  qed
  then show "block_map (blk[j := kv]) k = ((block_map blk)(kv_key kv \<mapsto> kv_value kv)) k"
    using new by (cases "k = kv_key kv"; cases "block_map blk k"; cases "block_map (blk[j := kv]) k") auto
qed

lemma nth_update_cases: "j < length blk \<Longrightarrow> blk[j := kv] ! p = (if p = j then kv else blk ! p)"
  by simp

lemma block_write:
  assumes "block_ok lb linear l mine blk" "searched lb linear l (xxhash (kv_key kv)) j" "mine (kv_key kv)" "live kv"
    and same: "\<And>p. p < length blk \<Longrightarrow> p \<noteq> j \<Longrightarrow> live (blk ! p) \<Longrightarrow> kv_key (blk ! p) \<noteq> kv_key kv"
    and first: "\<And>p. searched lb linear l (xxhash (kv_key kv)) p \<Longrightarrow> p < j \<Longrightarrow> bihash_is_free (blk ! p) \<Longrightarrow> kv_key (blk ! p) \<noteq> kv_key kv"
  shows "block_ok lb linear l mine (blk[j := kv])"
proof -
  note ok = block_okD [OF assms(1)]
  have j: "j < length blk" using searched_less [OF assms(2)] ok(1) by simp
  note n = nth_update_cases [OF j]
  have same': "kv_key kv \<noteq> kv_key (blk ! p)" if "p < length blk" "p \<noteq> j" "live (blk ! p)" for p using same [OF that] by simp
  have "keys_distinct (blk[j := kv])"
    unfolding keys_distinct_def n using keys_distinctD [OF ok(2)] same same' by (auto split: if_splits)
  moreover have "keys_placed lb linear l mine (blk[j := kv])"
    unfolding keys_placed_def n using ok(3) searched_iff [of j l] assms(2,3) j ok(1) by (auto simp: keys_placed_def split: if_splits)
  moreover have "stale_after linear (blk[j := kv])"
    unfolding stale_after_def n
  proof (intro allI impI)
    fix q p assume a: "q < length (blk[j := kv])" "p < q" "bihash_is_free (if p = j then kv else blk ! p)"
      "live (if q = j then kv else blk ! q)" "kv_key (if p = j then kv else blk ! p) = kv_key (if q = j then kv else blk ! q)"
    then have p: "p \<noteq> j" "p < kvs l" using assms(4) ok(1) by auto
    show "\<not> linear \<and> p div BIHASH_KVP_PER_PAGE \<noteq> q div BIHASH_KVP_PER_PAGE"
    proof (cases "q = j")
      case True
      then have "\<not> searched lb linear l (xxhash (kv_key kv)) p" using first a p by auto
      then show ?thesis using searched_iff [OF p(2)] searched_iff [of j l] assms(2) j ok(1) True by metis
    next
      case False
      then show ?thesis using stale_afterD [OF ok(4), of p q] a p by simp
    qed
  qed
  ultimately show ?thesis using ok(1) by (simp add: block_ok_def)
qed

text \<open>The ways in which a pair gets into a block: into the first free slot, over a pair with the same key, or over a
  pair of a full page.\<close>

lemma block_add:
  assumes "block_ok lb linear l mine blk" "mine (kv_key kv)" "live kv" "block_map blk (kv_key kv) = None"
    and "find_free (search_start lb linear l (xxhash (kv_key kv))) (search_limit linear l) blk = Some j"
  shows "block_ok lb linear l mine (blk[j := kv])" "block_map (blk[j := kv]) = (block_map blk)(kv_key kv \<mapsto> kv_value kv)"
    "live_count (blk[j := kv]) = live_count blk + 1"
proof -
  have j: "searched lb linear l (xxhash (kv_key kv)) j" "bihash_is_free (blk ! j)"
      "\<And>p. searched lb linear l (xxhash (kv_key kv)) p \<Longrightarrow> p < j \<Longrightarrow> live (blk ! p)"
    using assms(5) by (auto simp: find_free_def scan_Some searched_def)
  have lt: "j < length blk" using searched_less [OF j(1)] block_okD(1) [OF assms(1)] by simp
  show ok: "block_ok lb linear l mine (blk[j := kv])"
    using assms(4) j(3) by (intro block_write [OF assms(1) j(1) assms(2,3)]) (auto simp: block_map_None)
  show "block_map (blk[j := kv]) = (block_map blk)(kv_key kv \<mapsto> kv_value kv)"
    using block_map_update [OF block_okD(2) [OF assms(1)] block_okD(2) [OF ok] lt assms(3)] j(2) by simp
  show "live_count (blk[j := kv]) = live_count blk + 1" using live_count_update [OF lt, of kv] j(2) assms(3) by simp
qed

lemma block_replace:
  assumes "block_ok lb linear l mine blk" "j < length blk" "live (blk ! j)" "kv_key (blk ! j) = kv_key kv" "live kv"
  shows "block_ok lb linear l mine (blk[j := kv])" "block_map (blk[j := kv]) = (block_map blk)(kv_key kv \<mapsto> kv_value kv)"
    "live_count (blk[j := kv]) = live_count blk"
proof -
  note ok = block_okD [OF assms(1)]
  have m: "mine (kv_key kv)" "searched lb linear l (xxhash (kv_key kv)) j"
    using ok(3) assms(2-4) searchedI [OF assms(1-3)] by (auto simp: keys_placed_def)
  have st: "kv_key (blk ! p) \<noteq> kv_key kv"
    if p: "searched lb linear l (xxhash (kv_key kv)) p" "p < j" "bihash_is_free (blk ! p)" for p
  proof
    assume "kv_key (blk ! p) = kv_key kv"
    then have "\<not> linear \<and> p div BIHASH_KVP_PER_PAGE \<noteq> j div BIHASH_KVP_PER_PAGE"
      using stale_afterD [OF ok(4) p(2) assms(2) p(3) assms(3)] assms(4) by simp
    moreover have "p < kvs l" "j < kvs l" using p(2) assms(2) ok(1) by simp_all
    ultimately show False using searched_iff p(1) m(2) by metis
  qed
  show b: "block_ok lb linear l mine (blk[j := kv])"
    using keys_distinctD [OF ok(2) _ assms(2) _ assms(3)] assms(4) st by (intro block_write [OF assms(1) m(2,1) assms(5)]) auto
  show "block_map (blk[j := kv]) = (block_map blk)(kv_key kv \<mapsto> kv_value kv)"
    using block_map_update [OF ok(2) block_okD(2) [OF b] assms(2,5)] assms(4) by simp
  show "live_count (blk[j := kv]) = live_count blk" using live_count_update [OF assms(2), of kv] assms(3,5) by simp
qed

lemma block_delete:
  assumes "block_ok lb linear l mine blk" "j < length blk" "live (blk ! j)"
  shows "block_ok lb linear l mine (blk[j := bihash_mark_free (blk ! j)])"
    "block_map (blk[j := bihash_mark_free (blk ! j)]) = (block_map blk)(kv_key (blk ! j) := None)"
    "live_count (blk[j := bihash_mark_free (blk ! j)]) + 1 = live_count blk"
proof -
  note ok = block_okD [OF assms(1)] and n = nth_update_cases [OF assms(2)]
  let ?b = "blk[j := bihash_mark_free (blk ! j)]"
  have f: "bihash_is_free (bihash_mark_free x)" "kv_key (bihash_mark_free x) = kv_key x" for x
    by (simp_all add: bihash_is_free_def bihash_mark_free_def)
  have d: "keys_distinct ?b" unfolding keys_distinct_def n using keys_distinctD [OF ok(2)] f by (auto split: if_splits)
  moreover have "keys_placed lb linear l mine ?b" unfolding keys_placed_def n using ok(3) f by (auto simp: keys_placed_def)
  moreover have "stale_after linear ?b"
    unfolding stale_after_def n
  proof (intro allI impI)
    fix q p assume a: "q < length ?b" "p < q" "bihash_is_free (if p = j then bihash_mark_free (blk ! j) else blk ! p)"
      "live (if q = j then bihash_mark_free (blk ! j) else blk ! q)"
      "kv_key (if p = j then bihash_mark_free (blk ! j) else blk ! p) = kv_key (if q = j then bihash_mark_free (blk ! j) else blk ! q)"
    then have "q \<noteq> j" "kv_key (blk ! p) = kv_key (blk ! q)" using f by (auto split: if_splits)
    moreover from this have "p \<noteq> j" using keys_distinctD [OF ok(2), of j q] a assms f by auto
    ultimately show "\<not> linear \<and> p div BIHASH_KVP_PER_PAGE \<noteq> q div BIHASH_KVP_PER_PAGE"
      using stale_afterD [OF ok(4), of p q] a by simp
  qed
  ultimately show "block_ok lb linear l mine ?b" using ok(1) by (simp add: block_ok_def)
  show "live_count ?b + 1 = live_count blk" using live_count_update [OF assms(2), of "bihash_mark_free (blk ! j)"] assms(3) f by simp
  show "block_map ?b = (block_map blk)(kv_key (blk ! j) := None)"
  proof
    fix k
    have e: "(p < length blk \<and> live (?b ! p) \<and> kv_key (?b ! p) = k \<and> kv_value (?b ! p) = v) =
       (p < length blk \<and> live (blk ! p) \<and> kv_key (blk ! p) = k \<and> kv_value (blk ! p) = v \<and> k \<noteq> kv_key (blk ! j))" for p v
      unfolding n using keys_distinctD [OF ok(2), of p j] assms f by auto
    have "(block_map ?b k = Some v) = (\<exists>p. p < length blk \<and> live (?b ! p) \<and> kv_key (?b ! p) = k \<and> kv_value (?b ! p) = v)" for v
      using block_map_Some [OF d] by simp
    then have "(block_map ?b k = Some v) = (block_map blk k = Some v \<and> k \<noteq> kv_key (blk ! j))" for v
      unfolding e block_map_Some [OF ok(2)] by auto
    then show "block_map ?b k = ((block_map blk)(kv_key (blk ! j) := None)) k"
      by (cases "k = kv_key (blk ! j)") (simp_all, metis not_None_eq, metis not_None_eq)
  qed
qed

lemma block_overwrite:
  assumes "block_ok lb linear l mine blk" "mine (kv_key kv)" "live kv" "block_map blk (kv_key kv) = None"
    and "find_free (search_start lb linear l (xxhash (kv_key kv))) (search_limit linear l) blk = None"
    and "searched lb linear l (xxhash (kv_key kv)) j"
  shows "block_ok lb linear l mine (blk[j := kv])"
    "block_map (blk[j := kv]) = (block_map blk)(kv_key (blk ! j) := None, kv_key kv \<mapsto> kv_value kv)"
    "live_count (blk[j := kv]) = live_count blk"
proof -
  have full: "live (blk ! p)" if "searched lb linear l (xxhash (kv_key kv)) p" for p
    using assms(5) that by (auto simp: find_free_def scan_None searched_def)
  have lt: "j < length blk" using searched_less [OF assms(6)] block_okD(1) [OF assms(1)] by simp
  let ?d = "blk[j := bihash_mark_free (blk ! j)]"
  note del = block_delete [OF assms(1) lt full [OF assms(6)]]
  have e: "?d[j := kv] = blk[j := kv]" by simp
  have "p = j" if "searched lb linear l (xxhash (kv_key kv)) p" "bihash_is_free (?d ! p)" for p
    using full [OF that(1)] that(2) by (cases "p = j") auto
  moreover have "bihash_is_free (?d ! j)" using lt by (simp add: bihash_is_free_def bihash_mark_free_def)
  ultimately have "find_free (search_start lb linear l (xxhash (kv_key kv))) (search_limit linear l) ?d = Some j"
    using assms(6) by (fastforce simp: find_free_def scan_Some searched_def)
  moreover have "block_map ?d (kv_key kv) = None" using del(2) assms(4) by simp
  ultimately show "block_ok lb linear l mine (blk[j := kv])"
      "block_map (blk[j := kv]) = (block_map blk)(kv_key (blk ! j) := None, kv_key kv \<mapsto> kv_value kv)"
      "live_count (blk[j := kv]) = live_count blk"
    using block_add [OF del(1) assms(2,3)] del(2,3) e by simp_all
qed

section \<open>Rehashing\<close>

lemma all_free:
  assumes "length blk = kvs l" "\<forall>p<length blk. bihash_is_free (blk ! p)"
  shows "block_ok lb linear l mine blk" "block_map blk = (\<lambda>_. None)" "live_count blk = 0"
proof -
  show "block_ok lb linear l mine blk" using assms by (auto simp: block_ok_def keys_distinct_def keys_placed_def stale_after_def)
  show m: "block_map blk = (\<lambda>_. None)" using assms by (auto simp: block_map_None fun_eq_iff)
  show "live_count blk = 0" using m live_count_0 by blast
qed

lemma keys_distinct_Cons:
  assumes "keys_distinct (kv # blk)"
  shows "keys_distinct blk" "live kv \<Longrightarrow> block_map blk (kv_key kv) = None"
proof -
  show "keys_distinct blk" unfolding keys_distinct_def
    using keys_distinctD [OF assms, of "Suc _" "Suc _"] by auto
  show "block_map blk (kv_key kv) = None" if "live kv"
    unfolding block_map_None using keys_distinctD [OF assms, of "Suc _" 0] that by auto
qed

lemma block_map_move:
  assumes "live kv" "block_map old (kv_key kv) = None"
  shows "M(kv_key kv \<mapsto> kv_value kv) ++ block_map old = M ++ block_map (kv # old)"
proof -
  have "block_map (kv # old) = (block_map old)(kv_key kv \<mapsto> kv_value kv)" using assms(1) by (auto simp: fun_eq_iff)
  then show ?thesis using assms(2) by (simp add: map_add_upd_left domIff)
qed

text \<open>A list of pairs moved into a block, each into the first free slot of its place.\<close>

lemma rehash_loop_length: "rehash_loop lb l old new = (ok, blk) \<Longrightarrow> length blk = length new"
  by (induction lb l old new rule: rehash_loop.induct) (auto split: if_splits option.splits)

lemma rehash_loop_spec:
  assumes "rehash_loop lb l old new = (True, blk)" "block_ok lb False l mine new" "keys_distinct old"
    "\<forall>kv\<in>set old. live kv \<longrightarrow> mine (kv_key kv) \<and> block_map new (kv_key kv) = None"
  shows "block_ok lb False l mine blk \<and> block_map blk = block_map new ++ block_map old \<and> live_count blk = live_count new + live_count old"
  using assms
proof (induction lb l old new rule: rehash_loop.induct)
  case (1 lb l new)
  then show ?case by (auto simp: live_count_def map_add_def fun_eq_iff)
next
  case (2 lb l kv old new)
  note d = keys_distinct_Cons [OF "2.prems"(3)]
  show ?case
  proof (cases "bihash_is_free kv")
    case True
    have "block_map (kv # old) = block_map old" using True by (auto simp: fun_eq_iff)
    then show ?thesis using True 2 d by (simp add: live_count_def)
  next
    case False
    then obtain j where j: "find_free (BIHASH_KVP_PER_PAGE * page_of lb l (bihash_hash kv)) BIHASH_KVP_PER_PAGE new = Some j"
      "rehash_loop lb l old (new[j := kv]) = (True, blk)" using "2.prems"(1) by (auto split: option.splits)
    have "find_free (search_start lb False l (xxhash (kv_key kv))) (search_limit False l) new = Some j"
      using j(1) by (simp add: search_start_def search_limit_def bihash_hash_def)
    note add = block_add [OF "2.prems"(2) _ False _ this]
    have kv: "mine (kv_key kv)" "block_map new (kv_key kv) = None" using "2.prems"(4) False by simp_all
    have "block_map new (kv_key x) = None \<and> kv_key x \<noteq> kv_key kv \<and> mine (kv_key x)" if "x \<in> set old" "live x" for x
      using that "2.prems"(4) d(2) [OF False] by (auto simp: block_map_None in_set_conv_nth)
    then have "\<forall>x\<in>set old. live x \<longrightarrow> mine (kv_key x) \<and> block_map (new[j := kv]) (kv_key x) = None" using add(2) [OF kv] by simp
    then have "block_ok lb False l mine blk \<and> block_map blk = block_map (new[j := kv]) ++ block_map old \<and>
        live_count blk = live_count (new[j := kv]) + live_count old"
      using "2.IH"(2) [OF False j(1,2) add(1) [OF kv] d(1)] by blast
    moreover have "block_map (new[j := kv]) ++ block_map old = block_map new ++ block_map (kv # old)"
      using add(2) [OF kv] block_map_move [OF False d(2) [OF False]] by simp
    ultimately show ?thesis using add(3) [OF kv] False by (simp add: live_count_def del: block_map.simps)
  qed
qed

lemma linear_loop_spec:
  assumes "block_ok lb True l mine new" "keys_distinct old" "\<forall>p<length new. j \<le> p \<longrightarrow> bihash_is_free (new ! p)"
    "\<forall>p<j. live (new ! p)" "j + length old < length new"
    "\<forall>kv\<in>set old. live kv \<longrightarrow> mine (kv_key kv) \<and> block_map new (kv_key kv) = None"
  shows "\<exists>blk. linear_loop old j new = (True, blk) \<and> block_ok lb True l mine blk \<and>
     block_map blk = block_map new ++ block_map old \<and> live_count blk = live_count new + live_count old \<and>
     (\<exists>p<length blk. bihash_is_free (blk ! p))"
  using assms
proof (induction old j new rule: linear_loop.induct)
  case (1 j new)
  then show ?case by (auto simp: live_count_def map_add_def fun_eq_iff)
next
  case (2 kv old j new)
  note d = keys_distinct_Cons [OF "2.prems"(2)]
  have lt: "\<not> length new \<le> j" using "2.prems"(5) by simp
  show ?case
  proof (cases "bihash_is_free kv")
    case True
    have "block_map (kv # old) = block_map old" using True by (auto simp: fun_eq_iff)
    then show ?thesis using True lt "2.IH"(1) [OF lt True "2.prems"(1) d(1) "2.prems"(3,4)] "2.prems"(5,6) by (simp add: live_count_def)
  next
    case False
    have f: "bihash_is_free (new ! j)" "\<forall>p<j. live (new ! p)" using "2.prems"(3,4) lt by auto
    then have j: "find_free j (length new - j) new = Some j" using lt by (auto simp: find_free_def scan_Some)
    have "find_free (search_start lb True l (xxhash (kv_key kv))) (search_limit True l) new = Some j"
      using f lt block_okD(1) [OF "2.prems"(1)] by (auto simp: search_start_def search_limit_def find_free_def scan_Some)
    note add = block_add [OF "2.prems"(1) _ False _ this]
    have kv: "mine (kv_key kv)" "block_map new (kv_key kv) = None" using "2.prems"(6) False by simp_all
    have x: "block_map new (kv_key x) = None \<and> kv_key x \<noteq> kv_key kv \<and> mine (kv_key x)" if "x \<in> set old" "live x" for x
      using that "2.prems"(6) d(2) [OF False] by (auto simp: block_map_None in_set_conv_nth)
    have "\<exists>blk. linear_loop old (j + 1) (new[j := kv]) = (True, blk) \<and> block_ok lb True l mine blk \<and>
       block_map blk = block_map (new[j := kv]) ++ block_map old \<and> live_count blk = live_count (new[j := kv]) + live_count old \<and>
       (\<exists>p<length blk. bihash_is_free (blk ! p))"
    proof (rule "2.IH"(2) [OF lt False j add(1) [OF kv] d(1)])
      show "\<forall>p<length (new[j := kv]). j + 1 \<le> p \<longrightarrow> bihash_is_free (new[j := kv] ! p)" using "2.prems"(3) by simp
      show "\<forall>p<j + 1. live (new[j := kv] ! p)" using f(2) False lt by (auto simp: nth_list_update less_Suc_eq)
      show "j + 1 + length old < length (new[j := kv])" using "2.prems"(5) by simp
      show "\<forall>x\<in>set old. live x \<longrightarrow> mine (kv_key x) \<and> block_map (new[j := kv]) (kv_key x) = None" using x add(2) [OF kv] by simp
    qed
    moreover have "block_map (new[j := kv]) ++ block_map old = block_map new ++ block_map (kv # old)"
      using add(2) [OF kv] block_map_move [OF False d(2) [OF False]] by simp
    ultimately show ?thesis using add(3) [OF kv] False lt j by (simp add: live_count_def del: block_map.simps)
  qed
qed

end
