(* ===== verification/Bihash_Memory.thy ===== *)
theory Bihash_Memory
  imports Bihash_Blocks
begin

text \<open>
  The memory of the hash table: what allocation, the free lists, the working copies and the splitting of a bucket do.
  Every offset of the arena plays one role (a bucket's page, a bucket's block, a block of a free list, a working copy, the
  block of the operation under way), so that blocks with different roles are different blocks.
\<close>

section \<open>Memory\<close>

datatype role = R_none | R_page nat | R_bucket nat | R_free nat | R_work nat | R_new

fun free_chain :: "(nat \<Rightarrow> bihash_kv list) \<Rightarrow> nat \<Rightarrow> nat list \<Rightarrow> bool" where
  "free_chain mem first [] = (first = 0)"
| "free_chain mem first (x # xs) = (first = x \<and> x \<noteq> 0 \<and> free_chain mem (unat (kv_key (mem x ! 0))) xs)"

definition lists_ok :: "(nat \<Rightarrow> role) \<Rightarrow> bihash \<Rightarrow> bool" where
  "lists_ok \<rho> h \<longleftrightarrow> (\<forall>l<length (bh_freelists h). \<exists>xs. distinct xs \<and> (\<forall>x\<in>set xs. \<rho> x = R_free l) \<and>
     free_chain (bh_mem h) (bh_freelists h ! l) xs)"

definition block_at :: "(nat \<Rightarrow> role) \<Rightarrow> bihash \<Rightarrow> nat \<Rightarrow> bool" where
  "block_at \<rho> h x \<longleftrightarrow> 0 < x \<and> 0 < length (bh_mem h x) \<and> x + KV_SZ * length (bh_mem h x) \<le> bh_arena_next h \<and>
     (\<forall>y. \<rho> y \<noteq> R_none \<longrightarrow> x < y \<longrightarrow> x + KV_SZ * length (bh_mem h x) \<le> y) \<and>
     (\<forall>l. \<rho> x = R_free l \<longrightarrow> l < length (bh_freelists h) \<and> length (bh_mem h x) = kvs l)"

definition work_ok :: "(nat \<Rightarrow> role) \<Rightarrow> bihash \<Rightarrow> bool" where
  "work_ok \<rho> h \<longleftrightarrow> length (bh_working_copy_lengths h) = length (bh_working_copies h) \<and>
     (\<forall>t<length (bh_working_copies h). 0 \<le> bh_working_copy_lengths h ! t \<longrightarrow>
        \<rho> (bh_working_copies h ! t) = R_work t \<and> length (bh_mem h (bh_working_copies h ! t)) = kvs (nat (bh_working_copy_lengths h ! t)))"

definition mem_ok :: "(nat \<Rightarrow> role) \<Rightarrow> bihash \<Rightarrow> bool" where
  "mem_ok \<rho> h \<longleftrightarrow> lists_ok \<rho> h \<and> (\<forall>x. \<rho> x \<noteq> R_none \<longrightarrow> block_at \<rho> h x) \<and> work_ok \<rho> h \<and>
     0 < bh_arena_next h \<and> bh_arena_next h \<le> bh_arena_size h \<and> bh_arena_size h \<le> 2 ^ 36"

lemma free_chain_cong: "(\<And>x. x \<in> set xs \<Longrightarrow> mem' x = mem x) \<Longrightarrow> free_chain mem' first xs = free_chain mem first xs"
  by (induction xs arbitrary: first) auto

lemma mem_okD:
  assumes "mem_ok \<rho> h" "\<rho> x \<noteq> R_none"
  shows "block_at \<rho> h x" "0 < x" "x < bh_arena_next h" "x < 2 ^ 36" "0 < length (bh_mem h x)"
proof -
  show b: "block_at \<rho> h x" using assms by (simp add: mem_ok_def)
  then show l: "0 < x" "0 < length (bh_mem h x)" by (simp_all add: block_at_def)
  have "x + KV_SZ * length (bh_mem h x) \<le> bh_arena_next h" using b by (simp add: block_at_def)
  moreover have "0 < KV_SZ * length (bh_mem h x)" using l by (simp add: KV_SZ_def)
  ultimately show "x < bh_arena_next h" by linarith
  then show "x < 2 ^ 36" using assms(1) by (simp add: mem_ok_def)
qed

text \<open>Fields that memory does not depend on.\<close>

lemma mem_ok_cong:
  assumes "bh_mem h' = bh_mem h" "bh_freelists h' = bh_freelists h" "bh_arena_next h' = bh_arena_next h"
    "bh_arena_size h' = bh_arena_size h" "bh_working_copies h' = bh_working_copies h"
    "bh_working_copy_lengths h' = bh_working_copy_lengths h"
  shows "mem_ok \<rho> h' = mem_ok \<rho> h"
  by (simp add: mem_ok_def lists_ok_def block_at_def work_ok_def assms)

text \<open>A block changes its role, its contents but not its size, or both, as long as it is in no free list.\<close>

definition owned :: "role \<Rightarrow> bool" where
  "owned r \<longleftrightarrow> (case r of R_page i \<Rightarrow> True | R_bucket i \<Rightarrow> True | R_new \<Rightarrow> True | _ \<Rightarrow> False)"

lemma owned_simps [simp]:
  "owned (R_page i)" "owned (R_bucket i)" "owned R_new" "\<not> owned R_none" "\<not> owned (R_free l)" "\<not> owned (R_work t)"
  by (simp_all add: owned_def)

lemma mem_ok_retag:
  assumes "mem_ok \<rho> h" "owned (\<rho> v)" "owned r"
  shows "mem_ok (\<rho>(v := r)) h"
proof -
  have n: "((\<rho>(v := r)) y \<noteq> R_none) = (\<rho> y \<noteq> R_none)" "((\<rho>(v := r)) y = R_free l) = (\<rho> y = R_free l)" "((\<rho>(v := r)) y = R_work l) = (\<rho> y = R_work l)" for y l
    using assms(2,3) by auto
  show ?thesis using assms(1) unfolding mem_ok_def lists_ok_def block_at_def work_ok_def n .
qed

lemma mem_ok_set_block:
  assumes "mem_ok \<rho> h" "\<And>l. \<rho> v \<noteq> R_free l" "length blk = length (bh_mem h v)"
  shows "mem_ok \<rho> (set_block v blk h)"
proof -
  let ?m = "(bh_mem h)(v := blk)"
  have len: "length (?m x) = length (bh_mem h x)" for x using assms(3) by simp
  have "\<exists>xs. distinct xs \<and> (\<forall>x\<in>set xs. \<rho> x = R_free l) \<and> free_chain ?m (bh_freelists h ! l) xs" if l: "l < length (bh_freelists h)" for l
  proof -
    obtain xs where xs: "distinct xs" "\<forall>x\<in>set xs. \<rho> x = R_free l" "free_chain (bh_mem h) (bh_freelists h ! l) xs"
      using assms(1) l by (auto simp: mem_ok_def lists_ok_def)
    then have "free_chain ?m (bh_freelists h ! l) xs" using free_chain_cong [of xs ?m "bh_mem h"] assms(2) by (metis fun_upd_apply)
    then show ?thesis using xs by blast
  qed
  then have "lists_ok \<rho> (set_block v blk h)" by (simp add: lists_ok_def set_block_def)
  moreover have "block_at \<rho> (set_block v blk h) x = block_at \<rho> h x" for x by (simp add: block_at_def set_block_def len [unfolded fun_upd_def])
  moreover have "work_ok \<rho> (set_block v blk h) = work_ok \<rho> h" by (simp add: work_ok_def set_block_def len [unfolded fun_upd_def])
  ultimately show ?thesis using assms(1) by (simp add: mem_ok_def set_block_def)
qed

section \<open>What the memory operations keep\<close>

definition same_table :: "bihash \<Rightarrow> bihash \<Rightarrow> bool" where
  "same_table h h' \<longleftrightarrow> bh_buckets h' = bh_buckets h \<and> bh_nbuckets h' = bh_nbuckets h \<and> bh_log2_nbuckets h' = bh_log2_nbuckets h \<and>
     bh_alloc_lock h' = bh_alloc_lock h \<and> bh_working_copies h' = bh_working_copies h \<and>
     bh_working_copy_lengths h' = bh_working_copy_lengths h \<and> bh_saved_bucket h' = bh_saved_bucket h \<and> bh_arena_size h' = bh_arena_size h \<and>
     length (bh_freelists h) \<le> length (bh_freelists h')"

definition kept :: "role \<Rightarrow> bool" where
  "kept r \<longleftrightarrow> (case r of R_page i \<Rightarrow> True | R_bucket i \<Rightarrow> True | R_work t \<Rightarrow> True | _ \<Rightarrow> False)"

lemma kept_simps [simp]:
  "kept (R_page i)" "kept (R_bucket i)" "\<not> kept R_new" "\<not> kept R_none" "\<not> kept (R_free l)" "kept (R_work t)"
  by (simp_all add: kept_def)

definition keeps :: "(nat \<Rightarrow> role) \<Rightarrow> bihash \<Rightarrow> (nat \<Rightarrow> role) \<Rightarrow> bihash \<Rightarrow> bool" where
  "keeps \<rho> h \<rho>' h' \<longleftrightarrow> same_table h h' \<and> (\<forall>x. kept (\<rho> x) \<longrightarrow> \<rho>' x = \<rho> x \<and> bh_mem h' x = bh_mem h x)"

lemma keeps_trans: "keeps \<rho> h \<rho>' h' \<Longrightarrow> keeps \<rho>' h' \<rho>'' h'' \<Longrightarrow> keeps \<rho> h \<rho>'' h''"
  by (auto simp: keeps_def same_table_def)

lemma keeps_stats [simp]:
  "keeps \<rho> h \<rho>' (h'\<lparr>bh_linear := a\<rparr>) = keeps \<rho> h \<rho>' h'" "keeps \<rho> h \<rho>' (h'\<lparr>bh_resplit := a\<rparr>) = keeps \<rho> h \<rho>' h'"
  "keeps \<rho> h \<rho>' (h'\<lparr>bh_splits := a\<rparr>) = keeps \<rho> h \<rho>' h'"
  by (simp_all add: keeps_def same_table_def)

lemma mem_ok_fields [simp]:
  "mem_ok \<rho> (h\<lparr>bh_linear := a\<rparr>) = mem_ok \<rho> h" "mem_ok \<rho> (h\<lparr>bh_resplit := a\<rparr>) = mem_ok \<rho> h"
  "mem_ok \<rho> (h\<lparr>bh_splits := a\<rparr>) = mem_ok \<rho> h" "mem_ok \<rho> (h\<lparr>bh_split_add := a\<rparr>) = mem_ok \<rho> h"
  "mem_ok \<rho> (h\<lparr>bh_add := a\<rparr>) = mem_ok \<rho> h" "mem_ok \<rho> (h\<lparr>bh_replace := a\<rparr>) = mem_ok \<rho> h"
  "mem_ok \<rho> (h\<lparr>bh_del := a\<rparr>) = mem_ok \<rho> h" "mem_ok \<rho> (h\<lparr>bh_alloc_lock := c\<rparr>) = mem_ok \<rho> h"
  "mem_ok \<rho> (h\<lparr>bh_buckets := d\<rparr>) = mem_ok \<rho> h" "mem_ok \<rho> (h\<lparr>bh_saved_bucket := f\<rparr>) = mem_ok \<rho> h"
  by (simp_all add: mem_ok_def lists_ok_def block_at_def work_ok_def)

abbreviation rounded :: "nat \<Rightarrow> nat" where "rounded l \<equiv> round_pow2 (page_bytes l) 64"

lemma round_64: "n \<le> round_pow2 n 64" "round_pow2 n 64 \<le> n + 63"
  by (simp_all add: round_pow2_def)

lemma alloc_aligned_Some:
  assumes "alloc_aligned e n h = (Some rv, h')"
  shows "rv = bh_arena_next h" "h' = h\<lparr>bh_arena_next := rv + round_pow2 n 64, bh_arena_mapped := bh_arena_mapped h'\<rparr>"
    "rv + round_pow2 n 64 \<le> bh_arena_size h"
  using assms by (auto simp: alloc_aligned_def Let_def split: if_splits)

lemma mark_free_simps [simp]: "bihash_is_free (bihash_mark_free x)" "kv_key (bihash_mark_free x) = kv_key x"
  by (simp_all add: bihash_is_free_def bihash_mark_free_def)

lemma chain_of:
  assumes "mem_ok \<rho> h" "l < length (bh_freelists h)"
  obtains xs where "distinct xs" "\<forall>x\<in>set xs. \<rho> x = R_free l" "free_chain (bh_mem h) (bh_freelists h ! l) xs"
  using assms by (auto simp: mem_ok_def lists_ok_def)

lemma freelist_less:
  assumes "mem_ok \<rho> h" "l < length (bh_freelists h)"
  shows "bh_freelists h ! l < 2 ^ 36"
proof -
  obtain xs where xs: "\<forall>x\<in>set xs. \<rho> x = R_free l" "free_chain (bh_mem h) (bh_freelists h ! l) xs" using chain_of [OF assms] by metis
  show ?thesis
  proof (cases xs)
    case (Cons x ys)
    then have "\<rho> (bh_freelists h ! l) \<noteq> R_none" using xs by auto
    then show ?thesis using mem_okD(4) [OF assms(1)] by blast
  qed (use xs in simp)
qed

text \<open>A chain survives changes elsewhere.\<close>

lemma chain_kept:
  assumes "mem_ok \<rho> h" "l < length (bh_freelists h)" "\<And>x. \<rho> x = R_free l \<Longrightarrow> \<rho>' x = R_free l \<and> mem' x = bh_mem h x"
  shows "\<exists>xs. distinct xs \<and> (\<forall>x\<in>set xs. \<rho>' x = R_free l) \<and> free_chain mem' (bh_freelists h ! l) xs"
proof -
  obtain xs where xs: "distinct xs" "\<forall>x\<in>set xs. \<rho> x = R_free l" "free_chain (bh_mem h) (bh_freelists h ! l) xs" using chain_of [OF assms(1,2)] by metis
  then have "free_chain mem' (bh_freelists h ! l) xs" using free_chain_cong [of xs mem' "bh_mem h"] assms(3) by metis
  then show ?thesis using xs assms(3) by metis
qed

lemma work_kept:
  assumes "mem_ok \<rho> h" "\<And>x t. \<rho> x = R_work t \<Longrightarrow> \<rho>' x = R_work t \<and> bh_mem h' x = bh_mem h x"
    "bh_working_copies h' = bh_working_copies h" "bh_working_copy_lengths h' = bh_working_copy_lengths h"
  shows "work_ok \<rho>' h'"
  using assms by (auto simp: mem_ok_def work_ok_def)

definition got_block :: "(nat \<Rightarrow> role) \<Rightarrow> bihash \<Rightarrow> nat \<Rightarrow> nat \<Rightarrow> bihash \<Rightarrow> bool" where
  "got_block \<rho> h l nv h' \<longleftrightarrow> mem_ok (\<rho>(nv := R_new)) h' \<and> keeps \<rho> h (\<rho>(nv := R_new)) h' \<and> \<not> kept (\<rho> nv) \<and>
     length (bh_mem h' nv) = kvs l \<and> (\<forall>p<kvs l. bihash_is_free (bh_mem h' nv ! p)) \<and> l < length (bh_freelists h') \<and>
     bh_arena_next h' \<le> bh_arena_next h + round_pow2 (page_bytes l) 64"

lemma kvs_pos: "0 < kvs l"
  by (simp add: BIHASH_KVP_PER_PAGE_def)

lemma fresh_block:
  assumes "mem_ok \<rho> h" "length fl \<ge> length (bh_freelists h)"
    and "\<And>k. k < length fl \<Longrightarrow> fl ! k = (if k < length (bh_freelists h) then bh_freelists h ! k else 0)"
    and "alloc_aligned e (page_bytes l) (h\<lparr>bh_freelists := fl\<rparr>) = (Some nv, h1)" "length blk = kvs l"
  shows "mem_ok (\<rho>(nv := R_new)) (set_block nv blk h1) \<and> keeps \<rho> h (\<rho>(nv := R_new)) (set_block nv blk h1) \<and> \<rho> nv = R_none \<and>
     bh_freelists (set_block nv blk h1) = fl \<and> bh_arena_next (set_block nv blk h1) = bh_arena_next h + rounded l \<and> bh_mem (set_block nv blk h1) nv = blk"
proof -
  define h' where "h' = set_block nv blk h1"
  note a = alloc_aligned_Some [OF assms(4)]
  have nv: "nv = bh_arena_next h" "nv + round_pow2 (page_bytes l) 64 \<le> bh_arena_size h" using a by simp_all
  have f: "bh_mem h' = (bh_mem h)(nv := blk)" "bh_freelists h' = fl"
      "bh_arena_next h' = nv + round_pow2 (page_bytes l) 64" "bh_arena_size h' = bh_arena_size h" "bh_working_copies h' = bh_working_copies h"
      "bh_working_copy_lengths h' = bh_working_copy_lengths h" "same_table h h'"
    using assms(2) unfolding h'_def by (subst a(2), simp add: set_block_def same_table_def)+
  have none: "\<rho> x = R_none" if "nv \<le> x" for x using mem_okD(3) [OF assms(1), of x] that nv(1) by (cases "\<rho> x = R_none") auto
  have ne: "x \<noteq> nv" if "\<rho> x \<noteq> R_none" for x using none that by auto
  have big: "page_bytes l \<le> round_pow2 (page_bytes l) 64" by (rule round_64)
  have "lists_ok (\<rho>(nv := R_new)) h'"
    unfolding lists_ok_def f(2)
  proof (intro allI impI)
    fix k assume k: "k < length fl"
    show "\<exists>xs. distinct xs \<and> (\<forall>x\<in>set xs. (\<rho>(nv := R_new)) x = R_free k) \<and> free_chain (bh_mem h') (fl ! k) xs"
    proof (cases "k < length (bh_freelists h)")
      case True
      then show ?thesis using chain_kept [OF assms(1) True, of "\<rho>(nv := R_new)" "bh_mem h'"] assms(3) [OF k] ne f(1) by auto
    qed (use assms(3) [OF k] in \<open>auto intro: exI [of _ "[]"]\<close>)
  qed
  moreover have "block_at (\<rho>(nv := R_new)) h' x" if "(\<rho>(nv := R_new)) x \<noteq> R_none" for x
  proof (cases "x = nv")
    case True
    have "y \<le> nv" if "(\<rho>(nv := R_new)) y \<noteq> R_none" for y using none [of y] that by (cases "nv \<le> y"; cases "y = nv") auto
    then show ?thesis using True nv assms(1) big kvs_pos [of l] by (force simp: block_at_def f mem_ok_def assms(5))
  next
    case False
    then have b: "block_at \<rho> h x" "x < nv" using that mem_okD [OF assms(1), of x] nv(1) by auto
    then show ?thesis using False assms(2) nv(1) by (auto simp: block_at_def f)
  qed
  moreover have "work_ok (\<rho>(nv := R_new)) h'" using ne by (intro work_kept [OF assms(1)]) (auto simp: f)
  ultimately have "mem_ok (\<rho>(nv := R_new)) h'" using assms(1) nv f(3,4) by (simp add: mem_ok_def)
  moreover have "keeps \<rho> h (\<rho>(nv := R_new)) h'" using f(1,7) none [of nv] by (auto simp: keeps_def)
  ultimately show ?thesis unfolding h'_def [symmetric] using f nv(1) none [of nv] by simp
qed

lemma value_alloc_reuse:
  assumes "mem_ok \<rho> h" "l < length (bh_freelists h)" "bh_freelists h ! l = nv" "nv \<noteq> 0"
  shows "got_block \<rho> h l nv (set_block nv (map bihash_mark_free (bh_mem h nv))
     (h\<lparr>bh_freelists := (bh_freelists h)[l := unat (kv_key (bh_mem h nv ! 0))]\<rparr>))"
proof -
  define h' where "h' = set_block nv (map bihash_mark_free (bh_mem h nv))
     (h\<lparr>bh_freelists := (bh_freelists h)[l := unat (kv_key (bh_mem h nv ! 0))]\<rparr>)"
  have f: "bh_mem h' = (bh_mem h)(nv := map bihash_mark_free (bh_mem h nv))" "bh_freelists h' = (bh_freelists h)[l := unat (kv_key (bh_mem h nv ! 0))]"
      "bh_arena_next h' = bh_arena_next h" "bh_arena_size h' = bh_arena_size h" "bh_working_copies h' = bh_working_copies h"
      "bh_working_copy_lengths h' = bh_working_copy_lengths h" "same_table h h'"
    by (simp_all add: h'_def set_block_def same_table_def)
  obtain xs where xs: "distinct xs" "\<forall>x\<in>set xs. \<rho> x = R_free l" "free_chain (bh_mem h) nv xs" using chain_of [OF assms(1,2)] assms(3) by metis
  then obtain ys where ys: "xs = nv # ys" using assms(4) by (cases xs) auto
  have r: "\<rho> nv = R_free l" "nv \<notin> set ys" "free_chain (bh_mem h) (unat (kv_key (bh_mem h nv ! 0))) ys" using xs ys by auto
  have len: "length (bh_mem h' x) = length (bh_mem h x)" for x by (simp add: f)
  have "lists_ok (\<rho>(nv := R_new)) h'"
    unfolding lists_ok_def f(2)
  proof (intro allI impI)
    fix k assume k: "k < length ((bh_freelists h)[l := unat (kv_key (bh_mem h nv ! 0))])"
    show "\<exists>zs. distinct zs \<and> (\<forall>x\<in>set zs. (\<rho>(nv := R_new)) x = R_free k) \<and>
        free_chain (bh_mem h') ((bh_freelists h)[l := unat (kv_key (bh_mem h nv ! 0))] ! k) zs"
    proof (cases "k = l")
      case True
      have "free_chain (bh_mem h') (unat (kv_key (bh_mem h nv ! 0))) ys"
        using free_chain_cong [of ys "bh_mem h'" "bh_mem h"] r by (metis f(1) fun_upd_other)
      then show ?thesis using True xs ys r(2) assms(2) by (intro exI [of _ ys]) auto
    next
      case False
      have "(\<rho>(nv := R_new)) x = R_free k \<and> bh_mem h' x = bh_mem h x" if "\<rho> x = R_free k" for x using that False r(1) f(1) by auto
      then show ?thesis using chain_kept [OF assms(1), of k "\<rho>(nv := R_new)" "bh_mem h'"] k False by simp
    qed
  qed
  moreover have "block_at (\<rho>(nv := R_new)) h' x" if "(\<rho>(nv := R_new)) x \<noteq> R_none" for x
  proof -
    have "\<rho> x \<noteq> R_none" using that r(1) by (cases "x = nv") auto
    then have "block_at \<rho> h x" by (rule mem_okD [OF assms(1)])
    moreover have "((\<rho>(nv := R_new)) y \<noteq> R_none) = (\<rho> y \<noteq> R_none)" for y using r(1) by auto
    ultimately show ?thesis by (auto simp: block_at_def len) (auto simp: f split: if_splits)
  qed
  moreover have "work_ok (\<rho>(nv := R_new)) h'" using r(1) by (intro work_kept [OF assms(1)]) (auto simp: f)
  ultimately have "mem_ok (\<rho>(nv := R_new)) h'" using assms(1) f(3,4) by (simp add: mem_ok_def)
  moreover have "keeps \<rho> h (\<rho>(nv := R_new)) h'" using f(1,7) r(1) by (auto simp: keeps_def)
  moreover have "length (bh_mem h nv) = kvs l" using mem_okD(1) [OF assms(1), of nv] r(1) by (simp add: block_at_def)
  ultimately show ?thesis unfolding h'_def [symmetric] got_block_def using f assms(2) r(1) by simp
qed

lemma value_alloc_Some:
  assumes "mem_ok \<rho> h" "value_alloc e l h = (Some nv, h')"
  shows "got_block \<rho> h l nv h'"
proof (cases "length (bh_freelists h) \<le> l \<or> bh_freelists h ! l = 0")
  case True
  define fl where "fl = bh_freelists h @ replicate (l + 1 - length (bh_freelists h)) 0"
  obtain h1 where h1: "alloc_aligned e (page_bytes l) (h\<lparr>bh_freelists := fl\<rparr>) = (Some nv, h1)"
      "h' = set_block nv (map bihash_mark_free (replicate (kvs l) zero_kv)) h1"
    using assms(2) True by (auto simp: value_alloc_def Let_def fl_def split: if_splits prod.splits option.splits)
  have "length (map bihash_mark_free (replicate (kvs l) zero_kv)) = kvs l" by simp
  from fresh_block [OF assms(1) _ _ h1(1) this] show ?thesis unfolding h1(2) got_block_def by (auto simp: fl_def nth_append)
next
  case False
  then have "nv = bh_freelists h ! l" "h' = set_block nv (map bihash_mark_free (bh_mem h nv))
     (h\<lparr>bh_freelists := (bh_freelists h)[l := unat (kv_key (bh_mem h nv ! 0))]\<rparr>)"
    using assms(2) by (auto simp: value_alloc_def Let_def)
  then show ?thesis using value_alloc_reuse [OF assms(1), of l nv] False by auto
qed

lemma value_free_ok:
  assumes "mem_ok \<rho> h" "owned (\<rho> v)" "length (bh_mem h v) = kvs l" "l < length (bh_freelists h)"
  shows "mem_ok (\<rho>(v := R_free l)) (value_free v l h)" "\<And>x. x \<noteq> v \<Longrightarrow> bh_mem (value_free v l h) x = bh_mem h x"
    "same_table h (value_free v l h)" "bh_arena_next (value_free v l h) = bh_arena_next h"
    "length (bh_freelists (value_free v l h)) = length (bh_freelists h)"
proof -
  define h' where "h' = value_free v l h"
  have f: "bh_mem h' = (bh_mem h)(v := (bh_mem h v)[0 := (bh_mem h v ! 0)\<lparr>kv_key := of_nat (bh_freelists h ! l)\<rparr>])"
      "bh_freelists h' = (bh_freelists h)[l := v]"
      "bh_arena_next h' = bh_arena_next h" "bh_arena_size h' = bh_arena_size h" "bh_working_copies h' = bh_working_copies h"
      "bh_working_copy_lengths h' = bh_working_copy_lengths h" "same_table h h'"
    by (simp_all add: h'_def value_free_def Let_def set_block_def same_table_def)
  have len: "length (bh_mem h' x) = length (bh_mem h x)" for x by (simp add: f)
  have v0: "v \<noteq> 0" "\<rho> v \<noteq> R_none" using mem_okD(2) [OF assms(1), of v] assms(2) by (cases "\<rho> v"; auto)+
  have nx: "unat (kv_key (bh_mem h' v ! 0)) = bh_freelists h ! l"
    using freelist_less [OF assms(1,4)] assms(3) kvs_pos [of l] by (simp add: f unat_of_nat_u64)
  have "lists_ok (\<rho>(v := R_free l)) h'"
    unfolding lists_ok_def f(2)
  proof (intro allI impI)
    fix k assume k: "k < length ((bh_freelists h)[l := v])"
    obtain xs where xs: "distinct xs" "\<forall>x\<in>set xs. \<rho> x = R_free k" "free_chain (bh_mem h) (bh_freelists h ! k) xs" using chain_of [OF assms(1), of k] k by auto
    have n: "v \<notin> set xs" using xs(2) assms(2) by auto
    then have c: "free_chain (bh_mem h') (bh_freelists h ! k) xs" using free_chain_cong [of xs "bh_mem h'" "bh_mem h"] xs(3) by (metis f(1) fun_upd_other)
    show "\<exists>zs. distinct zs \<and> (\<forall>x\<in>set zs. (\<rho>(v := R_free l)) x = R_free k) \<and> free_chain (bh_mem h') ((bh_freelists h)[l := v] ! k) zs"
    proof (cases "k = l")
      case True
      then show ?thesis using xs n c nx v0(1) assms(4) by (intro exI [of _ "v # xs"]) auto
    next
      case False
      then show ?thesis using xs n c by (intro exI [of _ xs]) auto
    qed
  qed
  moreover have "block_at (\<rho>(v := R_free l)) h' x" if "(\<rho>(v := R_free l)) x \<noteq> R_none" for x
  proof -
    have "\<rho> x \<noteq> R_none" using that v0(2) by (cases "x = v") auto
    then have "block_at \<rho> h x" by (rule mem_okD [OF assms(1)])
    moreover have "((\<rho>(v := R_free l)) y \<noteq> R_none) = (\<rho> y \<noteq> R_none)" for y using v0(2) by auto
    ultimately show ?thesis using assms(3,4) by (auto simp: block_at_def len) (auto simp: f split: if_splits)
  qed
  moreover have "work_ok (\<rho>(v := R_free l)) h'" using assms(2) by (intro work_kept [OF assms(1)]) (auto simp: f)
  ultimately show "mem_ok (\<rho>(v := R_free l)) (value_free v l h)" using assms(1) f(3,4) unfolding h'_def [symmetric] by (simp add: mem_ok_def)
  show "\<And>x. x \<noteq> v \<Longrightarrow> bh_mem (value_free v l h) x = bh_mem h x" "same_table h (value_free v l h)"
      "bh_arena_next (value_free v l h) = bh_arena_next h" "length (bh_freelists (value_free v l h)) = length (bh_freelists h)"
    using f unfolding h'_def by simp_all
qed

text \<open>With enough room in the arena, and a system that grants what is asked for, allocation succeeds.\<close>

definition grants :: "bihash_env \<Rightarrow> bool" where
  "grants e \<longleftrightarrow> (\<forall>n sz. be_vec e n sz) \<and> (\<forall>a n. be_mmap_huge e a n \<or> be_mmap e a n)"

lemma alloc_frame:
  assumes "alloc_aligned e n h = (r, h')"
  shows "bh_mem h' = bh_mem h" "bh_buckets h' = bh_buckets h" "bh_freelists h' = bh_freelists h" "bh_arena_size h' = bh_arena_size h"
    "bh_alloc_lock h' = bh_alloc_lock h" "bh_nbuckets h' = bh_nbuckets h" "bh_log2_nbuckets h' = bh_log2_nbuckets h"
    "bh_working_copies h' = bh_working_copies h" "bh_working_copy_lengths h' = bh_working_copy_lengths h" "bh_saved_bucket h' = bh_saved_bucket h"
  using assms by (auto simp: alloc_aligned_def Let_def split: if_splits)

lemma alloc_aligned_None:
  assumes "alloc_aligned e n h = (None, h')" "grants e"
  shows "bh_arena_size h < bh_arena_next h + round_pow2 n 64"
  using assms by (auto simp: alloc_aligned_def Let_def grants_def split: if_splits)

lemma value_alloc_None:
  assumes "value_alloc e l h = (None, h')" "grants e"
  shows "bh_arena_size h < bh_arena_next h + rounded l"
  using assms alloc_aligned_None [of e "page_bytes l" "h\<lparr>bh_freelists := bh_freelists h @ replicate (l + 1 - length (bh_freelists h)) 0\<rparr>"]
  by (auto simp: value_alloc_def Let_def grants_def split: if_splits prod.splits option.splits)

definition short_of :: "bihash_env \<Rightarrow> nat \<Rightarrow> bihash \<Rightarrow> bool" where
  "short_of e n h \<longleftrightarrow> grants e \<longrightarrow> bh_arena_size h < bh_arena_next h + n"

section \<open>Splitting\<close>

text \<open>The block of the operation under way, with its contents.\<close>

definition new_block ::
    "(nat \<Rightarrow> role) \<Rightarrow> bihash \<Rightarrow> nat \<Rightarrow> nat \<Rightarrow> bool \<Rightarrow> (u64 \<Rightarrow> bool) \<Rightarrow> (u64 \<Rightarrow> u64 option) \<Rightarrow> nat \<Rightarrow> (nat \<Rightarrow> role) \<Rightarrow> bihash \<Rightarrow> bool" where
  "new_block \<rho> h nv l linear mine m c \<rho>' h' \<longleftrightarrow>
     mem_ok \<rho>' h' \<and> keeps \<rho> h \<rho>' h' \<and> \<rho>' nv = R_new \<and> l < length (bh_freelists h') \<and>
     block_ok (bh_log2_nbuckets h) linear l mine (bh_mem h' nv) \<and> block_map (bh_mem h' nv) = m \<and> live_count (bh_mem h' nv) = c"

lemma keeps_set_new:
  assumes "keeps \<rho> h \<rho>' h'" "\<rho>' nv = R_new"
  shows "keeps \<rho> h \<rho>' (set_block nv blk h')"
proof -
  have "x \<noteq> nv" if "kept (\<rho> x)" for x using assms that by (auto simp: keeps_def)
  then show ?thesis using assms(1) by (auto simp: keeps_def same_table_def set_block_def)
qed

lemma new_block_free:
  assumes "mem_ok \<rho>' h'" "keeps \<rho> h \<rho>' h'" "\<rho>' nv = R_new" "l < length (bh_freelists h')" "length (bh_mem h' nv) = kvs l"
  shows "mem_ok (\<rho>'(nv := R_free l)) (value_free nv l h')" "keeps \<rho> h (\<rho>'(nv := R_free l)) (value_free nv l h')"
    "bh_arena_next (value_free nv l h') = bh_arena_next h'"
proof -
  have o: "owned (\<rho>' nv)" using assms(3) by simp
  note v = value_free_ok [OF assms(1) o assms(5,4)]
  show "mem_ok (\<rho>'(nv := R_free l)) (value_free nv l h')" by (rule v)
  have "x \<noteq> nv" if "kept (\<rho> x)" for x using assms(2,3) that by (auto simp: keeps_def)
  then show "keeps \<rho> h (\<rho>'(nv := R_free l)) (value_free nv l h')" using assms(2) v(2,3,5) by (auto simp: keeps_def same_table_def)
  show "bh_arena_next (value_free nv l h') = bh_arena_next h'" by (rule v)
qed

lemma new_block_add:
  assumes "new_block \<rho> h nv l linear mine m c \<rho>' h'" "mine (kv_key kv)" "live kv" "m (kv_key kv) = None"
    "find_free (search_start (bh_log2_nbuckets h) linear l (xxhash (kv_key kv))) (search_limit linear l) (bh_mem h' nv) = Some j"
  shows "new_block \<rho> h nv l linear mine (m(kv_key kv \<mapsto> kv_value kv)) (c + 1) \<rho>' (set_block nv ((bh_mem h' nv)[j := kv]) h')"
proof -
  have n: "mem_ok \<rho>' h'" "keeps \<rho> h \<rho>' h'" "\<rho>' nv = R_new" "l < length (bh_freelists h')" "block_map (bh_mem h' nv) = m" "live_count (bh_mem h' nv) = c"
      "block_ok (bh_log2_nbuckets h) linear l mine (bh_mem h' nv)"
    using assms(1) by (simp_all add: new_block_def)
  have "block_map (bh_mem h' nv) (kv_key kv) = None" using n(5) assms(4) by simp
  note a = block_add [OF n(7) assms(2,3) this assms(5)]
  have "mem_ok \<rho>' (set_block nv ((bh_mem h' nv)[j := kv]) h')" using n(1,3) by (intro mem_ok_set_block) simp_all
  moreover have "keeps \<rho> h \<rho>' (set_block nv ((bh_mem h' nv)[j := kv]) h')" by (rule keeps_set_new [OF n(2,3)])
  ultimately show ?thesis using a n(3-6) by (simp add: new_block_def set_block_def)
qed

text \<open>The pairs to move are those of the working copy \<open>w\<close>.\<close>

definition old_pairs :: "(nat \<Rightarrow> role) \<Rightarrow> bihash \<Rightarrow> nat \<Rightarrow> nat \<Rightarrow> (u64 \<Rightarrow> bool) \<Rightarrow> bihash_kv list \<Rightarrow> bool" where
  "old_pairs \<rho> h w ol mine blk \<longleftrightarrow> mem_ok \<rho> h \<and> (\<exists>t. \<rho> w = R_work t) \<and> take (kvs ol) (bh_mem h w) = blk \<and> length blk = kvs ol \<and>
     keys_distinct blk \<and> (\<forall>kv\<in>set blk. live kv \<longrightarrow> mine (kv_key kv)) \<and> 0 < live_count blk"

lemma old_pairs_kept: "old_pairs \<rho> h w ol mine blk \<Longrightarrow> mem_ok \<rho>' h' \<Longrightarrow> keeps \<rho> h \<rho>' h' \<Longrightarrow> old_pairs \<rho>' h' w ol mine blk"
  by (auto simp: old_pairs_def keeps_def)

lemma live_count_ex: "0 < live_count blk \<Longrightarrow> list_ex live blk"
  by (auto simp: live_count_def list_ex_iff filter_empty_conv)

lemma map_add_empty_left: "(\<lambda>_. None) ++ m = m"
  by (simp add: map_add_def fun_eq_iff split: option.splits)

lemma split_and_rehash_spec:
  assumes "old_pairs \<rho> h w ol mine blk"
  shows "case split_and_rehash e w ol l h of
      Inl err \<Rightarrow> err = Null_deref \<and> short_of e (rounded l) h
    | Inr (r, h') \<Rightarrow> bh_arena_next h' \<le> bh_arena_next h + rounded l \<and>
        (case r of None \<Rightarrow> \<exists>\<rho>'. mem_ok \<rho>' h' \<and> keeps \<rho> h \<rho>' h'
         | Some nv \<Rightarrow> \<exists>\<rho>'. new_block \<rho> h nv l False mine (block_map blk) (live_count blk) \<rho>' h')"
proof (cases "value_alloc e l h")
  case (Pair r h1)
  note o = assms [unfolded old_pairs_def]
  show ?thesis
  proof (cases r)
    case None
    have "bh_mem h1 w = bh_mem h w" using Pair None
      by (auto simp: value_alloc_def alloc_aligned_def Let_def split: if_splits prod.splits option.splits)
    then show ?thesis using Pair None o live_count_ex value_alloc_None [of e l h h1] by (auto simp: split_and_rehash_def short_of_def)
  next
    case (Some nv)
    have g: "got_block \<rho> h l nv h1" using value_alloc_Some [of \<rho> h e l nv h1] o Pair Some by simp
    define \<rho>' where "\<rho>' = \<rho>(nv := R_new)"
    have m: "mem_ok \<rho>' h1" "keeps \<rho> h \<rho>' h1" "\<rho>' nv = R_new" "length (bh_mem h1 nv) = kvs l" "\<forall>p<kvs l. bihash_is_free (bh_mem h1 nv ! p)"
        "l < length (bh_freelists h1)" "bh_arena_next h1 \<le> bh_arena_next h + rounded l"
      using g by (simp_all add: got_block_def \<rho>'_def)
    have w: "take (kvs ol) (bh_mem h1 w) = blk" using old_pairs_kept [OF assms m(1,2)] by (simp add: old_pairs_def)
    obtain ok new where loop: "rehash_loop (bh_log2_nbuckets h1) l blk (bh_mem h1 nv) = (ok, new)" by fastforce
    have lb: "bh_log2_nbuckets h1 = bh_log2_nbuckets h" using m(2) by (simp add: keeps_def same_table_def)
    have len: "length new = kvs l" using rehash_loop_length [OF loop] m(4) by simp
    have s: "mem_ok \<rho>' (set_block nv new h1)" "keeps \<rho> h \<rho>' (set_block nv new h1)"
      using mem_ok_set_block [OF m(1), of nv new] keeps_set_new [OF m(2,3), of new] m(3,4) len by simp_all
    show ?thesis
    proof (cases ok)
      case True
      note fr = all_free [OF m(4)] 
      have "block_ok (bh_log2_nbuckets h) False l mine new \<and> block_map new = block_map (bh_mem h1 nv) ++ block_map blk \<and>
          live_count new = live_count (bh_mem h1 nv) + live_count blk"
        using rehash_loop_spec [of "bh_log2_nbuckets h" l blk "bh_mem h1 nv" new mine] loop True lb fr m(4,5) o by simp
      then have "new_block \<rho> h nv l False mine (block_map blk) (live_count blk) \<rho>' (set_block nv new h1)"
        using s m(3,6) fr m(4,5) by (simp add: new_block_def set_block_def map_add_empty_left)
      then show ?thesis using Pair Some loop w True m(7) by (auto simp: split_and_rehash_def set_block_def)
    next
      case False
      have "l < length (bh_freelists (set_block nv new h1))" "length (bh_mem (set_block nv new h1) nv) = kvs l" using m(6) len by (simp_all add: set_block_def)
      from new_block_free [OF s m(3) this] show ?thesis
        using Pair Some loop w False m(7) by (auto simp: split_and_rehash_def set_block_def)
    qed
  qed
qed

text \<open>In a larger block the linear copy always succeeds, and leaves a free slot.\<close>

lemma split_and_rehash_linear_spec:
  assumes "old_pairs \<rho> h w ol mine blk" "ol < l"
  shows "case split_and_rehash_linear e w ol l h of
      Inl err \<Rightarrow> err = Null_deref \<and> short_of e (rounded l) h
    | Inr (r, h') \<Rightarrow> \<exists>nv \<rho>'. r = Some nv \<and> new_block \<rho> h nv l True mine (block_map blk) (live_count blk) \<rho>' h' \<and>
        (\<exists>p<kvs l. bihash_is_free (bh_mem h' nv ! p))"
proof (cases "value_alloc e l h")
  case (Pair r h1)
  note o = assms(1) [unfolded old_pairs_def]
  show ?thesis
  proof (cases r)
    case None
    have "bh_mem h1 w = bh_mem h w" using Pair None
      by (auto simp: value_alloc_def alloc_aligned_def Let_def split: if_splits prod.splits option.splits)
    then show ?thesis using Pair None o live_count_ex value_alloc_None [of e l h h1] by (auto simp: split_and_rehash_linear_def short_of_def)
  next
    case (Some nv)
    have g: "got_block \<rho> h l nv h1" using value_alloc_Some [of \<rho> h e l nv h1] o Pair Some by simp
    define \<rho>' where "\<rho>' = \<rho>(nv := R_new)"
    have m: "mem_ok \<rho>' h1" "keeps \<rho> h \<rho>' h1" "\<rho>' nv = R_new" "length (bh_mem h1 nv) = kvs l" "\<forall>p<kvs l. bihash_is_free (bh_mem h1 nv ! p)"
        "l < length (bh_freelists h1)"
      using g by (simp_all add: got_block_def \<rho>'_def)
    have w: "take (kvs ol) (bh_mem h1 w) = blk" using old_pairs_kept [OF assms(1) m(1,2)] by (simp add: old_pairs_def)
    note fr = all_free [OF m(4)]
    have "kvs ol < kvs l" using assms(2) by (simp add: BIHASH_KVP_PER_PAGE_def)
    then obtain new where new: "linear_loop blk 0 (bh_mem h1 nv) = (True, new)" "block_ok (bh_log2_nbuckets h) True l mine new"
        "block_map new = block_map (bh_mem h1 nv) ++ block_map blk" "live_count new = live_count (bh_mem h1 nv) + live_count blk"
        "\<exists>p<length new. bihash_is_free (new ! p)"
      using linear_loop_spec [of "bh_log2_nbuckets h" l mine "bh_mem h1 nv" blk 0] fr m(4,5) o by auto
    have len: "length new = kvs l" by (rule block_okD [OF new(2)])
    have s: "mem_ok \<rho>' (set_block nv new h1)" "keeps \<rho> h \<rho>' (set_block nv new h1)"
      using mem_ok_set_block [OF m(1), of nv new] keeps_set_new [OF m(2,3), of new] m(3,4) len by simp_all
    then have "new_block \<rho> h nv l True mine (block_map blk) (live_count blk) \<rho>' (set_block nv new h1)"
      using new m(3,6) fr m(4,5) by (simp add: new_block_def set_block_def map_add_empty_left)
    then show ?thesis using Pair Some new(1,5) len w by (auto simp: split_and_rehash_linear_def set_block_def)
  qed
qed

lemma new_block_stats:
  assumes "new_block \<rho> h nv l linear mine m c \<rho>' h'"
  shows "new_block \<rho> h nv l linear mine m c \<rho>' (h'\<lparr>bh_linear := x, bh_resplit := y, bh_splits := z\<rparr>)"
    "new_block \<rho> h nv l linear mine m c \<rho>' (h'\<lparr>bh_resplit := y, bh_splits := z\<rparr>)"
  using assms by (simp_all add: new_block_def)

lemma new_block_trans:
  assumes "keeps \<rho> h \<rho>1 h1" "new_block \<rho>1 h1 nv l linear mine m c \<rho>' h'"
  shows "new_block \<rho> h nv l linear mine m c \<rho>' h'"
  using assms keeps_trans [OF assms(1)] by (auto simp: new_block_def) (simp add: keeps_def same_table_def)

text \<open>The result of splitting: a block with the new pair, unless memory is short.\<close>

definition split_result ::
    "bihash_env \<Rightarrow> nat \<Rightarrow> (nat \<Rightarrow> role) \<Rightarrow> bihash \<Rightarrow> (u64 \<Rightarrow> bool) \<Rightarrow> bihash_kv list \<Rightarrow> bihash_kv \<Rightarrow> (nat \<times> nat \<times> bool \<times> bihash) bihash_result \<Rightarrow> bool" where
  "split_result e n \<rho> h mine blk kv r \<longleftrightarrow>
     (case r of
        Inl err \<Rightarrow> err = Null_deref \<and> short_of e n h
      | Inr (nv, l, linear, h') \<Rightarrow> 0 < l \<and>
          (\<exists>\<rho>'. new_block \<rho> h nv l linear mine ((block_map blk)(kv_key kv \<mapsto> kv_value kv)) (live_count blk + 1) \<rho>' h'))"

lemma split_result_later:
  assumes "keeps \<rho> h \<rho>1 h1" "bh_arena_next h1 \<le> bh_arena_next h + a" "split_result e n \<rho>1 h1 mine blk kv r"
  shows "split_result e (a + n) \<rho> h mine blk kv r"
proof (cases r)
  case (Inl err)
  have "bh_arena_size h1 = bh_arena_size h" using assms(1) by (simp add: keeps_def same_table_def)
  then show ?thesis using Inl assms(2,3) by (auto simp: split_result_def short_of_def)
next
  case (Inr x)
  obtain nv l linear h' where x: "x = (nv, l, linear, h')" using prod_cases4 by blast
  then obtain \<rho>' where n: "0 < l" "new_block \<rho>1 h1 nv l linear mine ((block_map blk)(kv_key kv \<mapsto> kv_value kv)) (live_count blk + 1) \<rho>' h'"
    using Inr assms(3) by (auto simp: split_result_def)
  then show ?thesis using new_block_trans [OF assms(1) n(2)] Inr x by (auto simp: split_result_def)
qed

lemma new_block_drop:
  assumes "new_block \<rho> h nv l linear mine m c \<rho>' h'"
  shows "\<exists>\<rho>''. mem_ok \<rho>'' (value_free nv l h') \<and> keeps \<rho> h \<rho>'' (value_free nv l h')"
    "bh_arena_next (value_free nv l h') = bh_arena_next h'"
proof -
  have n: "mem_ok \<rho>' h'" "keeps \<rho> h \<rho>' h'" "\<rho>' nv = R_new" "l < length (bh_freelists h')" "length (bh_mem h' nv) = kvs l"
    using assms by (auto simp: new_block_def dest: block_okD)
  show "\<exists>\<rho>''. mem_ok \<rho>'' (value_free nv l h') \<and> keeps \<rho> h \<rho>'' (value_free nv l h')"
    "bh_arena_next (value_free nv l h') = bh_arena_next h'" using new_block_free [OF n] by blast+
qed

definition to_add :: "(u64 \<Rightarrow> bool) \<Rightarrow> bihash_kv list \<Rightarrow> bihash_kv \<Rightarrow> bool" where
  "to_add mine blk kv \<longleftrightarrow> mine (kv_key kv) \<and> live kv \<and> block_map blk (kv_key kv) = None"

lemma mark_linear_spec:
  assumes "old_pairs \<rho> h w ol mine blk" "to_add mine blk kv" "ol < l"
  shows "split_result e (rounded l) \<rho> h mine blk kv (mark_linear e w ol kv (Suc l) h)"
proof (cases "split_and_rehash_linear e w ol l h")
  case (Inl err)
  then show ?thesis using split_and_rehash_linear_spec [OF assms(1,3), of e] by (simp add: split_result_def)
next
  case (Inr x)
  then obtain nv h1 \<rho>' where s: "split_and_rehash_linear e w ol l h = Inr (Some nv, h1)"
      "new_block \<rho> h nv l True mine (block_map blk) (live_count blk) \<rho>' h1" "\<exists>p<kvs l. bihash_is_free (bh_mem h1 nv ! p)"
    using split_and_rehash_linear_spec [OF assms(1,3), of e] by (cases x) auto
  then obtain j where j: "find_free 0 (kvs l) (bh_mem h1 nv) = Some j"
    by (cases "find_free 0 (kvs l) (bh_mem h1 nv)") (auto simp: find_free_def scan_None)
  define h2 where "h2 = h1\<lparr>bh_linear := bh_linear h1 + 1, bh_resplit := bh_resplit h1 + 1, bh_splits := bh_splits h1 + of_nat ol + 1\<rparr>"
  have "new_block \<rho> h nv l True mine (block_map blk) (live_count blk) \<rho>' h2" unfolding h2_def by (rule new_block_stats [OF s(2)])
  moreover have "find_free (search_start (bh_log2_nbuckets h) True l (xxhash (kv_key kv))) (search_limit True l) (bh_mem h2 nv) = Some j"
    using j by (simp add: search_start_def search_limit_def h2_def)
  ultimately have "new_block \<rho> h nv l True mine ((block_map blk)(kv_key kv \<mapsto> kv_value kv)) (live_count blk + 1) \<rho>' (set_block nv ((bh_mem h2 nv)[j := kv]) h2)"
    using assms(2) by (intro new_block_add) (simp_all add: to_add_def)
  then show ?thesis using s(1) j assms(3) by (auto simp: split_result_def h2_def Let_def)
qed

lemma try_resplit_spec:
  assumes "old_pairs \<rho> h w ol mine blk" "to_add mine blk kv" "ol < l"
  shows "split_result e (rounded (Suc l) + rounded l) \<rho> h mine blk kv (try_resplit e w ol kv l h)"
proof -
  note s = split_and_rehash_spec [OF assms(1), of e "l + 1"]
  have lin: "split_result e (rounded (Suc l) + rounded l) \<rho> h mine blk kv (mark_linear e w ol kv (Suc l) h1)"
    if "mem_ok \<rho>1 h1" "keeps \<rho> h \<rho>1 h1" "bh_arena_next h1 \<le> bh_arena_next h + rounded (Suc l)" for \<rho>1 h1
    using split_result_later [OF that(2,3)] mark_linear_spec [OF old_pairs_kept [OF assms(1) that(1,2)] assms(2,3)] by blast
  show ?thesis
  proof (cases "split_and_rehash e w ol (l + 1) h")
    case (Inl err)
    then show ?thesis using s by (auto simp: split_result_def try_resplit_def short_of_def)
  next
    case (Inr x)
    then obtain r h1 where x: "split_and_rehash e w ol (l + 1) h = Inr (r, h1)" by (cases x) auto
    then have nx: "bh_arena_next h1 \<le> bh_arena_next h + rounded (Suc l)" using s by simp
    show ?thesis
    proof (cases r)
      case None
      then show ?thesis using x s nx lin by (auto simp: try_resplit_def)
    next
      case (Some nv)
      then obtain \<rho>' where n: "new_block \<rho> h nv (l + 1) False mine (block_map blk) (live_count blk) \<rho>' h1" using x s by auto
      define h2 where "h2 = h1\<lparr>bh_resplit := bh_resplit h1 + 1, bh_splits := bh_splits h1 + of_nat ol + 1\<rparr>"
      have n2: "new_block \<rho> h nv (l + 1) False mine (block_map blk) (live_count blk) \<rho>' h2" unfolding h2_def by (rule new_block_stats [OF n])
      have lb: "bh_log2_nbuckets h2 = bh_log2_nbuckets h" using n2 by (simp add: new_block_def keeps_def same_table_def)
      show ?thesis
      proof (cases "find_free (search_start (bh_log2_nbuckets h) False (l + 1) (xxhash (kv_key kv))) (search_limit False (l + 1)) (bh_mem h2 nv)")
        case None
        obtain \<rho>2 where "mem_ok \<rho>2 (value_free nv (l + 1) h2)" "keeps \<rho> h \<rho>2 (value_free nv (l + 1) h2)"
          using new_block_drop(1) [OF n2] by blast
        moreover have "bh_arena_next (value_free nv (l + 1) h2) \<le> bh_arena_next h + rounded (Suc l)"
          using new_block_drop(2) [OF n2] nx by (simp add: h2_def)
        ultimately have "split_result e (rounded (Suc l) + rounded l) \<rho> h mine blk kv (mark_linear e w ol kv (Suc l) (value_free nv (l + 1) h2))"
          by (rule lin)
        then show ?thesis using x Some None lb [symmetric]
          by (simp add: try_resplit_def Let_def h2_def search_start_def search_limit_def bihash_hash_def)
      next
        case (Some j)
        have "new_block \<rho> h nv (l + 1) False mine ((block_map blk)(kv_key kv \<mapsto> kv_value kv)) (live_count blk + 1) \<rho>' (set_block nv ((bh_mem h2 nv)[j := kv]) h2)"
          using assms(2) by (intro new_block_add [OF n2 _ _ _ Some]) (simp_all add: to_add_def)
        then show ?thesis using x \<open>r = Some nv\<close> Some lb
          by (auto simp: try_resplit_def Let_def h2_def search_start_def search_limit_def bihash_hash_def split_result_def)
      qed
    qed
  qed
qed

lemma split_add_spec:
  assumes "old_pairs \<rho> h w ol mine blk" "to_add mine blk kv"
  shows "split_result e (rounded (Suc ol) + (rounded (Suc (Suc ol)) + rounded (Suc ol))) \<rho> h mine blk kv (split_add e w ol kv h)"
proof -
  note s = split_and_rehash_spec [OF assms(1), of e "ol + 1"]
  have re: "split_result e (rounded (Suc ol) + (rounded (Suc (Suc ol)) + rounded (Suc ol))) \<rho> h mine blk kv (try_resplit e w ol kv (Suc ol) h1)"
    if "mem_ok \<rho>1 h1" "keeps \<rho> h \<rho>1 h1" "bh_arena_next h1 \<le> bh_arena_next h + rounded (Suc ol)" for \<rho>1 h1
    using split_result_later [OF that(2,3)] try_resplit_spec [OF old_pairs_kept [OF assms(1) that(1,2)] assms(2)] by blast
  show ?thesis
  proof (cases "split_and_rehash e w ol (ol + 1) h")
    case (Inl err)
    then show ?thesis using s by (auto simp: split_result_def split_add_def short_of_def)
  next
    case (Inr x)
    then obtain r h1 where x: "split_and_rehash e w ol (ol + 1) h = Inr (r, h1)" by (cases x) auto
    then have nx: "bh_arena_next h1 \<le> bh_arena_next h + rounded (Suc ol)" using s by simp
    show ?thesis
    proof (cases r)
      case None
      then show ?thesis using x s nx re by (auto simp: split_add_def)
    next
      case (Some nv)
      then obtain \<rho>' where n: "new_block \<rho> h nv (ol + 1) False mine (block_map blk) (live_count blk) \<rho>' h1" using x s by auto
      have lb: "bh_log2_nbuckets h1 = bh_log2_nbuckets h" using n by (simp add: new_block_def keeps_def same_table_def)
      show ?thesis
      proof (cases "find_free (search_start (bh_log2_nbuckets h) False (ol + 1) (xxhash (kv_key kv))) (search_limit False (ol + 1)) (bh_mem h1 nv)")
        case None
        obtain \<rho>2 where "mem_ok \<rho>2 (value_free nv (ol + 1) h1)" "keeps \<rho> h \<rho>2 (value_free nv (ol + 1) h1)"
          using new_block_drop(1) [OF n] by blast
        moreover have "bh_arena_next (value_free nv (ol + 1) h1) \<le> bh_arena_next h + rounded (Suc ol)"
          using new_block_drop(2) [OF n] nx by simp
        ultimately have "split_result e (rounded (Suc ol) + (rounded (Suc (Suc ol)) + rounded (Suc ol))) \<rho> h mine blk kv
            (try_resplit e w ol kv (Suc ol) (value_free nv (ol + 1) h1))"
          by (rule re)
        then show ?thesis using x Some None lb [symmetric]
          by (simp add: split_add_def Let_def search_start_def search_limit_def bihash_hash_def)
      next
        case (Some j)
        have "new_block \<rho> h nv (ol + 1) False mine ((block_map blk)(kv_key kv \<mapsto> kv_value kv)) (live_count blk + 1) \<rho>' (set_block nv ((bh_mem h1 nv)[j := kv]) h1)"
          using assms(2) by (intro new_block_add [OF n _ _ _ Some]) (simp_all add: to_add_def)
        then show ?thesis using x \<open>r = Some nv\<close> Some lb
          by (auto simp: split_add_def Let_def search_start_def search_limit_def bihash_hash_def split_result_def)
      qed
    qed
  qed
qed

section \<open>The working copy\<close>

lemma mem_ok_new_work:
  assumes "mem_ok \<rho> h" "\<rho> w = R_new" "length (bh_mem h w) = kvs l" "t < length (bh_working_copies h)"
  shows "mem_ok (\<rho>(w := R_work t)) (h\<lparr>bh_working_copy_lengths := (bh_working_copy_lengths h)[t := int l], bh_working_copies := (bh_working_copies h)[t := w], bh_working_copy_lost := x\<rparr>)"
proof -
  define h' where "h' = h\<lparr>bh_working_copy_lengths := (bh_working_copy_lengths h)[t := int l], bh_working_copies := (bh_working_copies h)[t := w], bh_working_copy_lost := x\<rparr>"
  have n: "((\<rho>(w := R_work t)) y \<noteq> R_none) = (\<rho> y \<noteq> R_none)" "((\<rho>(w := R_work t)) y = R_free l') = (\<rho> y = R_free l')" for y l'
    using assms(2) by auto
  have "lists_ok (\<rho>(w := R_work t)) h' \<and> (\<forall>y. (\<rho>(w := R_work t)) y \<noteq> R_none \<longrightarrow> block_at (\<rho>(w := R_work t)) h' y)"
    using assms(1) unfolding mem_ok_def lists_ok_def block_at_def n by (simp add: h'_def)
  moreover have "work_ok (\<rho>(w := R_work t)) h'"
    using assms by (auto simp: work_ok_def mem_ok_def h'_def nth_list_update)
  ultimately show ?thesis using assms(1) unfolding h'_def [symmetric] by (simp add: mem_ok_def) (simp add: h'_def)
qed

lemma working_copy_vecs_spec:
  assumes "mem_ok \<rho> h" "working_copy_vecs e t h = (ok, h1)"
  shows "if ok then mem_ok \<rho> h1 \<and> t < length (bh_working_copies h1) else \<not> grants e"
    "h1 = h\<lparr>bh_working_copies := bh_working_copies h1, bh_working_copy_lengths := bh_working_copy_lengths h1\<rparr>"
proof -
  have "length (bh_working_copy_lengths h) = length (bh_working_copies h)" using assms(1) by (simp add: mem_ok_def work_ok_def)
  then show "if ok then mem_ok \<rho> h1 \<and> t < length (bh_working_copies h1) else \<not> grants e"
    using assms by (auto simp: working_copy_vecs_def mem_ok_def lists_ok_def block_at_def work_ok_def nth_append grants_def Let_def split: if_splits)
  show "h1 = h\<lparr>bh_working_copies := bh_working_copies h1, bh_working_copy_lengths := bh_working_copy_lengths h1\<rparr>"
    using assms(2) by (auto simp: working_copy_vecs_def Let_def split: if_splits)
qed

definition copied :: "(nat \<Rightarrow> role) \<Rightarrow> bihash \<Rightarrow> nat \<Rightarrow> nat \<Rightarrow> (nat \<Rightarrow> role) \<Rightarrow> bihash \<Rightarrow> bool" where
  "copied \<rho> h i t \<rho>' h' \<longleftrightarrow>
     (let b = bh_buckets h i; w = bh_working_copies h' ! t
      in mem_ok \<rho>' h' \<and> \<rho>' w = R_work t \<and> take (kvs (b_log2_pages b)) (bh_mem h' w) = bh_mem h (b_offset b) \<and> bh_saved_bucket h' = b \<and>
         bh_buckets h' = (bh_buckets h)(i := b\<lparr>b_offset := w\<rparr>) \<and> (\<forall>x. owned (\<rho> x) \<longrightarrow> \<rho>' x = \<rho> x \<and> bh_mem h' x = bh_mem h x) \<and>
         bh_nbuckets h' = bh_nbuckets h \<and> bh_log2_nbuckets h' = bh_log2_nbuckets h \<and> bh_alloc_lock h' = bh_alloc_lock h \<and>
         bh_arena_size h' = bh_arena_size h \<and> bh_freelists h' = bh_freelists h \<and> bh_arena_next h' \<le> bh_arena_next h + rounded (b_log2_pages b))"

text \<open>The end of \<^verbatim>\<open>make_working_copy\<close>, with a copy \<open>w\<close> that is large enough.\<close>

lemma copy_to:
  assumes "mem_ok \<rho> h" "bh_buckets h i = b" "owned (\<rho> (b_offset b))" "length (bh_mem h (b_offset b)) = kvs (b_log2_pages b)"
    "\<rho> w = R_work t" "bh_working_copies h ! t = w" "kvs (b_log2_pages b) \<le> length (bh_mem h w)" "bh_saved_bucket h = b"
  shows "copied \<rho> h i t \<rho> (set_bucket i (b\<lparr>b_offset := w\<rparr>) (set_block w (take (kvs (b_log2_pages b)) (bh_mem h (b_offset b)) @ drop (kvs (b_log2_pages b)) (bh_mem h w)) h))"
proof -
  have "mem_ok \<rho> (set_block w (take (kvs (b_log2_pages b)) (bh_mem h (b_offset b)) @ drop (kvs (b_log2_pages b)) (bh_mem h w)) h)"
    using assms(4,5,7) by (intro mem_ok_set_block [OF assms(1)]) simp_all
  then show ?thesis using assms by (auto simp: copied_def Let_def set_bucket_def set_block_def)
qed

lemma make_working_copy_spec:
  assumes "mem_ok \<rho> h" "bh_buckets h i = b" "owned (\<rho> (b_offset b))" "length (bh_mem h (b_offset b)) = kvs (b_log2_pages b)"
    "make_working_copy e t i h = (ok, h')"
  shows "if ok then \<exists>\<rho>'. copied \<rho> h i t \<rho>' h'
     else short_of e (rounded (b_log2_pages b)) h \<and> bh_buckets h' = bh_buckets h \<and> bh_alloc_lock h' = bh_alloc_lock h \<and> bh_nbuckets h' = bh_nbuckets h"
proof -
  obtain ok1 h1 where v: "working_copy_vecs e t h = (ok1, h1)" by fastforce
  note v1 = working_copy_vecs_spec [OF assms(1) v]
  show ?thesis
  proof (cases ok1)
    case False
    have "bh_buckets h1 = bh_buckets h" "bh_alloc_lock h1 = bh_alloc_lock h" "bh_nbuckets h1 = bh_nbuckets h" by (subst v1(2), simp)+
    then show ?thesis using False v v1(1) assms(5) by (auto simp: make_working_copy_def short_of_def)
  next
    case True
    then have m1: "mem_ok \<rho> h1" and t: "t < length (bh_working_copies h1)" using v1 by simp_all
    have f1: "bh_mem h1 = bh_mem h" "bh_buckets h1 = bh_buckets h" "bh_freelists h1 = bh_freelists h" "bh_arena_next h1 = bh_arena_next h"
        "bh_arena_size h1 = bh_arena_size h" "bh_alloc_lock h1 = bh_alloc_lock h" "bh_nbuckets h1 = bh_nbuckets h" "bh_log2_nbuckets h1 = bh_log2_nbuckets h"
      by (subst v1(2), simp)+
    define l where "l = b_log2_pages b"
    define h2 where "h2 = h1\<lparr>bh_saved_bucket := b\<rparr>"
    have m2: "mem_ok \<rho> h2" using m1 by (simp add: h2_def)
    show ?thesis
    proof (cases "int l > bh_working_copy_lengths h1 ! t")
      case False
      define w where "w = bh_working_copies h2 ! t"
      have w: "\<rho> w = R_work t" "length (bh_mem h2 w) = kvs (nat (bh_working_copy_lengths h1 ! t))"
        using m1 t False by (auto simp: mem_ok_def work_ok_def w_def h2_def)
      have "l \<le> nat (bh_working_copy_lengths h1 ! t)" using False by simp
      then have "kvs l \<le> length (bh_mem h2 w)" using w(2) by (simp add: power_increasing)
      then have "copied \<rho> h2 i t \<rho> h'"
        using copy_to [OF m2, of i b w t] assms(2-5) w v True False f1
        by (simp add: make_working_copy_def l_def h2_def w_def Let_def)
      then show ?thesis using assms(2,5) v True False f1
        by (auto simp: make_working_copy_def copied_def Let_def h2_def l_def)
    next
      case big: True
      obtain r h3 where a: "alloc_aligned e (page_bytes l) h2 = (r, h3)" by fastforce
      show ?thesis
      proof (cases r)
        case None
        then show ?thesis using alloc_frame [OF a] a None assms(2,5) v True big f1 alloc_aligned_None [of e "page_bytes l" h2 h3]
          by (auto simp: make_working_copy_def short_of_def l_def h2_def Let_def)
      next
        case (Some w)
        define h4 where "h4 = set_block w (replicate (kvs l) zero_kv) h3"
        define x where "x = bh_working_copy_lost h3 + push_bit l 1"
        define h5 where "h5 = h4\<lparr>bh_working_copy_lengths := (bh_working_copy_lengths h4)[t := int l], bh_working_copies := (bh_working_copies h4)[t := w], bh_working_copy_lost := x\<rparr>"
        define \<rho>' where "\<rho>' = \<rho>(w := R_work t)"
        note fr = alloc_frame [OF a]
        have "length (replicate (kvs l) zero_kv) = kvs l" "alloc_aligned e (page_bytes l) (h2\<lparr>bh_freelists := bh_freelists h2\<rparr>) = (Some w, h3)"
          using a Some by simp_all
        from fresh_block [OF m2 _ _ this(2,1)] have n: "mem_ok (\<rho>(w := R_new)) h4" "\<rho> w = R_none"
            "bh_freelists h4 = bh_freelists h2" "bh_arena_next h4 = bh_arena_next h2 + rounded l" "bh_mem h4 w = replicate (kvs l) zero_kv"
          by (simp_all add: h4_def)
        have t4: "t < length (bh_working_copies h4)" using t fr by (simp add: h4_def set_block_def h2_def)
        have m5: "mem_ok \<rho>' h5" using mem_ok_new_work [OF n(1) _ _ t4, of w l x] n(5) by (simp add: \<rho>'_def h5_def)
        have f5: "bh_mem h5 = (bh_mem h)(w := replicate (kvs l) zero_kv)" "bh_buckets h5 = bh_buckets h" "bh_freelists h5 = bh_freelists h"
            "bh_arena_next h5 = bh_arena_next h + rounded l" "bh_arena_size h5 = bh_arena_size h" "bh_alloc_lock h5 = bh_alloc_lock h"
            "bh_nbuckets h5 = bh_nbuckets h" "bh_log2_nbuckets h5 = bh_log2_nbuckets h" "bh_saved_bucket h5 = b" "bh_working_copies h5 ! t = w"
          using n(3,4) f1 fr t4 by (simp_all add: h5_def h4_def set_block_def h2_def)
        have ow: "\<rho>' x = \<rho> x" "bh_mem h5 x = bh_mem h x" if "owned (\<rho> x)" for x using that n(2) by (auto simp: \<rho>'_def f5)
        have h': "h' = set_bucket i (b\<lparr>b_offset := w\<rparr>) (set_block w (take (kvs (b_log2_pages b)) (bh_mem h5 (b_offset b)) @ drop (kvs (b_log2_pages b)) (bh_mem h5 w)) h5)" "ok"
          using assms(2,5) v True big a Some f1 fr
          by (auto simp: make_working_copy_def Let_def h2_def [symmetric] l_def [symmetric]) (simp_all add: h5_def h4_def x_def set_block_def set_bucket_def l_def)
        have "copied \<rho>' h5 i t \<rho>' h'"
          unfolding h'(1) using assms(2-4) ow [OF assms(3)] f5 by (intro copy_to [OF m5]) (simp_all add: \<rho>'_def l_def)
        moreover have "bh_arena_next h' = bh_arena_next h5" unfolding h'(1) by (simp add: set_bucket_def set_block_def)
        ultimately have "copied \<rho> h i t \<rho>' h'" using f5 ow ow(2) [OF assms(3)] assms(2) by (auto simp: copied_def Let_def l_def)
        then show ?thesis using h'(2) by auto
      qed
    qed
  qed
qed

end
