(* ===== verification/Bihash_Map.thy ===== *)
theory Bihash_Map
  imports Bihash_Memory
begin

text \<open>
  The hash table as a finite map: the invariant of the table, kept by every operation, and what the operations do to the map.
\<close>

unbundle bit_operations_syntax

section \<open>The invariant\<close>

abbreviation in_bucket :: "bihash \<Rightarrow> nat \<Rightarrow> u64 \<Rightarrow> bool" where
  "in_bucket h i k \<equiv> get_bucket h (xxhash k) = i"

definition bucket_ok :: "(nat \<Rightarrow> role) \<Rightarrow> bihash \<Rightarrow> nat \<Rightarrow> bool" where
  "bucket_ok \<rho> h i \<longleftrightarrow>
     (let b = bh_buckets h i; blk = bh_mem h (b_offset b)
      in \<not> b_lock b \<and>
         (if b_log2_pages b = 0 then b_offset b = bucket_page i \<and> \<not> b_linear_search b
          else \<rho> (b_offset b) = R_bucket i \<and> b_log2_pages b < length (bh_freelists h)) \<and>
         \<rho> (bucket_page i) = R_page i \<and> length (bh_mem h (bucket_page i)) = kvs 0 \<and>
         block_ok (bh_log2_nbuckets h) (b_linear_search b) (b_log2_pages b) (in_bucket h i) blk \<and>
         unat (b_refcnt b) = 1 + live_count blk)"

definition table_ok :: "(nat \<Rightarrow> role) \<Rightarrow> bihash \<Rightarrow> bool" where
  "table_ok \<rho> h \<longleftrightarrow> mem_ok \<rho> h \<and> \<not> bh_alloc_lock h \<and> bh_log2_nbuckets h < 32 \<and> bh_nbuckets h = 2 ^ bh_log2_nbuckets h \<and>
     (\<forall>i<unat (bh_nbuckets h). bucket_ok \<rho> h i)"

definition bihash_ok :: "bihash \<Rightarrow> bool" where
  "bihash_ok h \<longleftrightarrow> (\<exists>\<rho>. table_ok \<rho> h)"

definition bihash_map :: "bihash \<Rightarrow> u64 \<Rightarrow> u64 option" where
  "bihash_map h k = block_map (bh_mem h (b_offset (bh_buckets h (get_bucket h (xxhash k))))) k"

lemma get_bucket_less:
  assumes "bh_log2_nbuckets h < 32" "bh_nbuckets h = 2 ^ bh_log2_nbuckets h"
  shows "get_bucket h hash < unat (bh_nbuckets h)"
proof -
  let ?l = "bh_log2_nbuckets h"
  have "bh_nbuckets h - 1 = mask ?l" using assms(2) by (simp add: mask_eq_exp_minus_1)
  moreover have "ucast (mask ?l :: u32) = (mask ?l :: u64)" using assms(1) by (intro bit_word_eqI) (auto simp: bit_simps)
  ultimately have "get_bucket h hash = unat (take_bit ?l hash)" by (simp add: get_bucket_def take_bit_eq_mask)
  also have "\<dots> < 2 ^ ?l" by (simp add: unsigned_take_bit_eq del: take_bit_eq_mod)
  also have "\<dots> = unat (bh_nbuckets h)"
    using assms by (simp add: unat_2_pow)
  finally show ?thesis .
qed

lemma table_okD:
  assumes "table_ok \<rho> h"
  shows "mem_ok \<rho> h" "\<not> bh_alloc_lock h" "\<And>hash. get_bucket h hash < unat (bh_nbuckets h)" "\<And>i. i < unat (bh_nbuckets h) \<Longrightarrow> bucket_ok \<rho> h i"
  using assms get_bucket_less by (auto simp: table_ok_def)

lemma bucket_okD:
  assumes "bucket_ok \<rho> h i" "bh_buckets h i = b"
  shows "\<not> b_lock b" "b_log2_pages b = 0 \<Longrightarrow> b_offset b = bucket_page i" "b_log2_pages b \<noteq> 0 \<Longrightarrow> \<rho> (b_offset b) = R_bucket i"
    "b_log2_pages b \<noteq> 0 \<Longrightarrow> b_log2_pages b < length (bh_freelists h)" "\<rho> (bucket_page i) = R_page i" "length (bh_mem h (bucket_page i)) = kvs 0"
    "block_ok (bh_log2_nbuckets h) (b_linear_search b) (b_log2_pages b) (in_bucket h i) (bh_mem h (b_offset b))"
    "unat (b_refcnt b) = 1 + live_count (bh_mem h (b_offset b))" "owned (\<rho> (b_offset b))" "b_log2_pages b = 0 \<Longrightarrow> \<not> b_linear_search b"
  using assms by (auto simp: bucket_ok_def Let_def split: if_splits)

text \<open>Blocks of different buckets are different.\<close>

definition belongs :: "role \<Rightarrow> nat \<Rightarrow> bool" where
  "belongs r i \<longleftrightarrow> r = R_page i \<or> r = R_bucket i"

lemma belongs_simps [simp]: "belongs (R_page j) i = (j = i)" "belongs (R_bucket j) i = (j = i)" "\<not> belongs R_new i" "\<not> belongs (R_free l) i"
    "\<not> belongs (R_work l) i" "\<not> belongs R_none i"
  by (auto simp: belongs_def)

lemma bucket_belongs: "bucket_ok \<rho> h i \<Longrightarrow> belongs (\<rho> (b_offset (bh_buckets h i))) i"
  by (auto simp: bucket_ok_def Let_def belongs_def split: if_splits)

text \<open>A bucket is untouched when its header and its blocks are.\<close>

lemma bucket_ok_kept:
  assumes "bucket_ok \<rho> h j" "bh_buckets h' j = bh_buckets h j" "\<And>x. belongs (\<rho> x) j \<Longrightarrow> \<rho>' x = \<rho> x \<and> bh_mem h' x = bh_mem h x"
    "bh_nbuckets h' = bh_nbuckets h" "bh_log2_nbuckets h' = bh_log2_nbuckets h" "length (bh_freelists h) \<le> length (bh_freelists h')"
  shows "bucket_ok \<rho>' h' j"
proof -
  have g: "get_bucket h' = get_bucket h" using assms(4) by (simp add: get_bucket_def fun_eq_iff)
  have "belongs (\<rho> (bucket_page j)) j" using assms(1) by (simp add: bucket_ok_def Let_def)
  then show ?thesis using assms bucket_belongs [OF assms(1)] g by (auto simp: bucket_ok_def Let_def split: if_splits)
qed

lemma map_kept:
  assumes "bucket_ok \<rho> h (get_bucket h (xxhash k))" "bh_buckets h' (get_bucket h (xxhash k)) = bh_buckets h (get_bucket h (xxhash k))"
    "\<And>x. belongs (\<rho> x) (get_bucket h (xxhash k)) \<Longrightarrow> bh_mem h' x = bh_mem h x" "bh_nbuckets h' = bh_nbuckets h"
  shows "bihash_map h' k = bihash_map h k"
  using assms bucket_belongs [OF assms(1)] by (simp add: bihash_map_def get_bucket_def)

text \<open>An operation on one bucket.\<close>

lemma table_update:
  assumes "table_ok \<rho> h" "i < unat (bh_nbuckets h)" "mem_ok \<rho>' h'" "bucket_ok \<rho>' h' i"
    and other: "\<And>j. j \<noteq> i \<Longrightarrow> bh_buckets h' j = bh_buckets h j"
    and mem: "\<And>x j. belongs (\<rho> x) j \<Longrightarrow> j \<noteq> i \<Longrightarrow> \<rho>' x = \<rho> x \<and> bh_mem h' x = bh_mem h x"
    and "bh_nbuckets h' = bh_nbuckets h" "bh_log2_nbuckets h' = bh_log2_nbuckets h" "length (bh_freelists h) \<le> length (bh_freelists h')"
    and "\<not> bh_alloc_lock h'"
    and m: "\<And>k. in_bucket h i k \<Longrightarrow> block_map (bh_mem h' (b_offset (bh_buckets h' i))) k = m k"
    and m': "\<And>k. \<not> in_bucket h i k \<Longrightarrow> m k = bihash_map h k"
  shows "table_ok \<rho>' h' \<and> bihash_map h' = m"
proof (intro conjI)
  have "bucket_ok \<rho>' h' j" if "j < unat (bh_nbuckets h)" for j
  proof (cases "j = i")
    case False
    then show ?thesis using bucket_ok_kept [OF table_okD(4) [OF assms(1) that] other] mem assms(7-9) by metis
  qed (use assms(4) in simp)
  then show "table_ok \<rho>' h'" using assms(1,3,7,8,10) by (simp add: table_ok_def)
  show "bihash_map h' = m"
  proof
    fix k
    show "bihash_map h' k = m k"
    proof (cases "in_bucket h i k")
      case True
      then show ?thesis using m assms(7) by (simp add: bihash_map_def get_bucket_def)
    next
      case False
      then show ?thesis using map_kept [OF table_okD(4) [OF assms(1) table_okD(3) [OF assms(1)]] other, of k] mem assms(7) m' by auto
    qed
  qed
qed

lemma table_ok_stats [simp]:
  "table_ok \<rho> (h\<lparr>bh_add := a\<rparr>) = table_ok \<rho> h" "table_ok \<rho> (h\<lparr>bh_replace := a\<rparr>) = table_ok \<rho> h" "table_ok \<rho> (h\<lparr>bh_del := a\<rparr>) = table_ok \<rho> h"
  "bihash_map (h\<lparr>bh_add := a\<rparr>) = bihash_map h" "bihash_map (h\<lparr>bh_replace := a\<rparr>) = bihash_map h" "bihash_map (h\<lparr>bh_del := a\<rparr>) = bihash_map h"
  by (simp_all add: table_ok_def bucket_ok_def get_bucket_def bihash_map_def Let_def fun_eq_iff)

section \<open>Searching\<close>

lemma bihash_search_spec:
  assumes "table_ok \<rho> h"
  shows "bihash_search h kv = Inr (case bihash_map h (kv_key kv) of None \<Rightarrow> (- 1, None) | Some v \<Rightarrow> (0, Some \<lparr>kv_key = kv_key kv, kv_value = v\<rparr>))"
proof -
  define i where "i = get_bucket h (xxhash (kv_key kv))"
  define b where "b = bh_buckets h i"
  have bo: "bucket_ok \<rho> h i" using table_okD(3,4) [OF assms] by (simp add: i_def)
  note d = bucket_okD [OF bo, of b, folded b_def, simplified]
  have m: "bihash_map h (kv_key kv) = block_map (bh_mem h (b_offset b)) (kv_key kv)" by (simp add: bihash_map_def b_def i_def)
  show ?thesis
  proof (cases "bucket_is_empty b")
    case True
    then have "live_count (bh_mem h (b_offset b)) = 0" using d(8) by (simp add: bucket_is_empty_def)
    then have "bihash_map h (kv_key kv) = None" using live_count_0 m by metis
    then show ?thesis using True by (simp add: bihash_search_def bihash_search_with_hash_def Let_def bihash_hash_def i_def b_def)
  next
    case False
    then show ?thesis using search_scan [OF d(7), of "kv_key kv"] d(1) m
      by (auto simp: bihash_search_def bihash_search_with_hash_def Let_def bihash_hash_def i_def [symmetric] b_def [symmetric] split: option.splits if_splits)
  qed
qed

section \<open>Adding and deleting without a split\<close>

text \<open>The bucket keeps its block; the block has new contents and the bucket a new count.\<close>

lemma bucket_write:
  assumes "table_ok \<rho> h" "i < unat (bh_nbuckets h)" "bh_buckets h i = b" "h' = set_bucket i (b\<lparr>b_refcnt := r\<rparr>) (set_block (b_offset b) blk h)"
    "block_ok (bh_log2_nbuckets h) (b_linear_search b) (b_log2_pages b) (in_bucket h i) blk" "unat r = 1 + live_count blk"
    "\<And>k. in_bucket h i k \<Longrightarrow> block_map blk k = m k" "\<And>k. \<not> in_bucket h i k \<Longrightarrow> m k = bihash_map h k"
  shows "table_ok \<rho> h' \<and> bihash_map h' = m"
proof -
  note bo = table_okD(4) [OF assms(1,2)] and mo = table_okD(1) [OF assms(1)]
  note d = bucket_okD [OF bo assms(3)]
  have f: "bh_buckets h' = (bh_buckets h)(i := b\<lparr>b_refcnt := r\<rparr>)" "bh_mem h' = (bh_mem h)(b_offset b := blk)" "bh_nbuckets h' = bh_nbuckets h"
      "bh_log2_nbuckets h' = bh_log2_nbuckets h" "bh_freelists h' = bh_freelists h" "bh_alloc_lock h' = bh_alloc_lock h"
    by (simp_all add: assms(4) set_bucket_def set_block_def)
  have len: "length blk = length (bh_mem h (b_offset b))" using block_okD(1) [OF assms(5)] block_okD(1) [OF d(7)] by simp
  have "mem_ok \<rho> (set_block (b_offset b) blk h)" using d(9) len by (intro mem_ok_set_block [OF mo]) auto
  then have m': "mem_ok \<rho> h'" by (simp add: assms(4) set_bucket_def)
  have g: "get_bucket h' = get_bucket h" by (simp add: get_bucket_def f fun_eq_iff)
  have "bucket_ok \<rho> h' i" using d(1-6,10) assms(5,6) len by (auto simp: bucket_ok_def Let_def f g)
  moreover have "x \<noteq> b_offset b" if "belongs (\<rho> x) j" "j \<noteq> i" for x j using that bucket_belongs [OF bo] assms(3) by (auto simp: belongs_def)
  ultimately show ?thesis
    using table_okD(2) [OF assms(1)] assms(7,8) by (intro table_update [OF assms(1,2) m']) (auto simp: f)
qed

lemma lock_simps [simp]:
  "bh_mem (lock_bucket i h) = bh_mem h" "bh_log2_nbuckets (lock_bucket i h) = bh_log2_nbuckets h"
  "bh_buckets (lock_bucket i h) i = (bh_buckets h i)\<lparr>b_lock := True\<rparr>" "bh_alloc_lock (lock_bucket i h) = bh_alloc_lock h"
  by (simp_all add: lock_bucket_def set_bucket_def)

lemma unlocked: "\<not> b_lock b \<Longrightarrow> b\<lparr>b_lock := False\<rparr> = b" "\<not> b_lock b \<Longrightarrow> b\<lparr>b_refcnt := r, b_lock := False\<rparr> = b\<lparr>b_refcnt := r\<rparr>"
  by (cases b; simp)+

lemma unlock_lock: "\<not> b_lock (bh_buckets h i) \<Longrightarrow> unlock_bucket i (lock_bucket i h) = h"
  by (simp add: lock_bucket_def unlock_bucket_def set_bucket_def unlocked)

lemma unlock_write:
  assumes "\<not> b_lock (bh_buckets h i)"
  shows "unlock_bucket i (set_block off blk (lock_bucket i h)) = set_bucket i (bh_buckets h i) (set_block off blk h)"
    "unlock_bucket i (set_bucket i ((bh_buckets h i)\<lparr>b_lock := True, b_refcnt := r\<rparr>) (set_block off blk (lock_bucket i h))) =
       set_bucket i ((bh_buckets h i)\<lparr>b_refcnt := r\<rparr>) (set_block off blk h)"
  using assms by (simp_all add: lock_bucket_def unlock_bucket_def set_bucket_def set_block_def unlocked)

lemma unat_refcnt_up: "unat (r :: u16) + 1 < 2 ^ 16 \<Longrightarrow> unat (r + 1) = unat r + 1"
  by (simp add: unat_word_ariths)

text \<open>What follows is about the bucket \<open>i\<close> of a key and the block of that bucket.\<close>

definition here :: "(nat \<Rightarrow> role) \<Rightarrow> bihash \<Rightarrow> u64 \<Rightarrow> nat \<Rightarrow> bihash_bucket \<Rightarrow> bihash_kv list \<Rightarrow> bool" where
  "here \<rho> h k i b blk \<longleftrightarrow> table_ok \<rho> h \<and> i = get_bucket h (xxhash k) \<and> b = bh_buckets h i \<and> blk = bh_mem h (b_offset b)"

lemma hereD:
  assumes "here \<rho> h k i b blk"
  shows "table_ok \<rho> h" "i < unat (bh_nbuckets h)" "bucket_ok \<rho> h i" "bh_buckets h i = b" "bh_mem h (b_offset b) = blk" "in_bucket h i k"
    "\<not> b_lock b" "block_ok (bh_log2_nbuckets h) (b_linear_search b) (b_log2_pages b) (in_bucket h i) blk" "unat (b_refcnt b) = 1 + live_count blk"
    "bihash_map h k = block_map blk k" "\<And>k'. in_bucket h i k' \<Longrightarrow> bihash_map h k' = block_map blk k'" "\<not> bh_alloc_lock h"
proof -
  show t: "table_ok \<rho> h" "bh_buckets h i = b" "bh_mem h (b_offset b) = blk" "in_bucket h i k" using assms by (simp_all add: here_def)
  show i: "i < unat (bh_nbuckets h)" using t(4) table_okD(3) [OF t(1)] by metis
  show bo: "bucket_ok \<rho> h i" by (rule table_okD(4) [OF t(1) i])
  show "\<not> b_lock b" "block_ok (bh_log2_nbuckets h) (b_linear_search b) (b_log2_pages b) (in_bucket h i) blk" "unat (b_refcnt b) = 1 + live_count blk"
    using bucket_okD(1,7,8) [OF bo t(2)] t(3) by simp_all
  show "bihash_map h k = block_map blk k" "\<And>k'. in_bucket h i k' \<Longrightarrow> bihash_map h k' = block_map blk k'" using t by (simp_all add: bihash_map_def)
  show "\<not> bh_alloc_lock h" by (rule table_okD [OF t(1)])
qed

lemma write_here:
  assumes "here \<rho> h k i b blk" "block_ok (bh_log2_nbuckets h) (b_linear_search b) (b_log2_pages b) (in_bucket h i) blk'" "unat r = 1 + live_count blk'"
    "block_map blk' = (block_map blk)(k := v)"
  shows "table_ok \<rho> (set_bucket i (b\<lparr>b_refcnt := r\<rparr>) (set_block (b_offset b) blk' h)) \<and>
     bihash_map (set_bucket i (b\<lparr>b_refcnt := r\<rparr>) (set_block (b_offset b) blk' h)) = (bihash_map h)(k := v)"
  using hereD [OF assms(1)] assms(2-4) by (intro bucket_write [OF hereD(1,2,4) [OF assms(1)] refl]) auto

section \<open>Expanding a bucket\<close>

definition split_room :: "nat \<Rightarrow> nat" where
  "split_room l = rounded l + (rounded (Suc l) + (rounded (Suc (Suc l)) + rounded (Suc l)))"

definition add_result ::
    "bihash_env \<Rightarrow> bihash \<Rightarrow> bihash_kv \<Rightarrow> nat \<Rightarrow> nat \<Rightarrow> (int \<times> bihash) bihash_result \<Rightarrow> bool" where
  "add_result e h kv i l r \<longleftrightarrow>
     (case r of
        Inl err \<Rightarrow> err = Null_deref \<and> short_of e (split_room l) h
      | Inr (c, h') \<Rightarrow> c = 0 \<and> bihash_ok h' \<and> bihash_map h' = (bihash_map h)(kv_key kv \<mapsto> kv_value kv) \<or>
          c = - 4 \<and> short_of e (split_room l) h \<and> bh_alloc_lock h' \<and> bh_nbuckets h' = bh_nbuckets h \<and>
            bh_buckets h' i = (bh_buckets h i)\<lparr>b_lock := True\<rparr> \<and> 1 < b_refcnt (bh_buckets h i))"

lemma expand_ok_memory:
  assumes "mem_ok \<rho> h" "\<rho> nv = R_new" "0 < b_log2_pages sb \<Longrightarrow> \<rho> (b_offset sb) = R_bucket i \<and> length (bh_mem h (b_offset sb)) = kvs (b_log2_pages sb) \<and> b_log2_pages sb < length (bh_freelists h)"
    and h'_def: "h' = expand_ok i sb nv l linear h"
    and \<rho>'_def: "\<rho>' = (if 0 < b_log2_pages sb then \<rho>(nv := R_bucket i, b_offset sb := R_free (b_log2_pages sb)) else \<rho>(nv := R_bucket i))"
  shows "mem_ok \<rho>' h'" "\<And>x. x \<noteq> b_offset sb \<or> b_log2_pages sb = 0 \<Longrightarrow> bh_mem h' x = bh_mem h x"
    "bh_buckets h' = (bh_buckets h)(i := \<lparr>b_offset = nv, b_lock = False, b_linear_search = linear, b_log2_pages = l, b_refcnt = b_refcnt sb + 1\<rparr>)"
    "bh_nbuckets h' = bh_nbuckets h" "bh_log2_nbuckets h' = bh_log2_nbuckets h" "length (bh_freelists h') = length (bh_freelists h)" "\<not> bh_alloc_lock h'"
proof -
  define h4 where "h4 = set_bucket i \<lparr>b_offset = nv, b_lock = False, b_linear_search = linear, b_log2_pages = l, b_refcnt = b_refcnt sb + 1\<rparr> h"
  have m4: "mem_ok (\<rho>(nv := R_bucket i)) h4" using mem_ok_retag [OF assms(1), of nv "R_bucket i"] assms(2) by (simp add: h4_def set_bucket_def)
  have f4: "bh_mem h4 = bh_mem h" "bh_freelists h4 = bh_freelists h" by (simp_all add: h4_def set_bucket_def)
  have h': "h' = (if 0 < b_log2_pages sb then value_free (b_offset sb) (b_log2_pages sb) h4 else h4)\<lparr>bh_alloc_lock := False\<rparr>"
    by (simp add: h'_def expand_ok_def h4_def Let_def)
  have v: "mem_ok (\<rho>(nv := R_bucket i, b_offset sb := R_free (b_log2_pages sb))) (value_free (b_offset sb) (b_log2_pages sb) h4) \<and>
      (\<forall>x. x \<noteq> b_offset sb \<longrightarrow> bh_mem (value_free (b_offset sb) (b_log2_pages sb) h4) x = bh_mem h4 x)" if "0 < b_log2_pages sb"
    using value_free_ok(1,2) [OF m4, of "b_offset sb" "b_log2_pages sb"] assms(3) [OF that] f4 by auto
  show "mem_ok \<rho>' h'" "\<And>x. x \<noteq> b_offset sb \<or> b_log2_pages sb = 0 \<Longrightarrow> bh_mem h' x = bh_mem h x"
    using v m4 f4 by (auto simp: h' \<rho>'_def)
  show "bh_buckets h' = (bh_buckets h)(i := \<lparr>b_offset = nv, b_lock = False, b_linear_search = linear, b_log2_pages = l, b_refcnt = b_refcnt sb + 1\<rparr>)"
    "bh_nbuckets h' = bh_nbuckets h" "bh_log2_nbuckets h' = bh_log2_nbuckets h" "length (bh_freelists h') = length (bh_freelists h)" "\<not> bh_alloc_lock h'"
    by (auto simp: h' h4_def set_bucket_def value_free_def Let_def set_block_def)
qed

lemma expand_ok_map:
  assumes "here \<rho> h k i b blk" "0 < l" "unat (b_refcnt b) + 1 < 2 ^ 16"
    and copy: "\<And>x. owned (\<rho> x) \<Longrightarrow> \<rho>1 x = \<rho> x \<and> bh_mem h1 x = bh_mem h x"
    and h1: "bh_buckets h1 = (bh_buckets h)(i := b')" "bh_nbuckets h1 = bh_nbuckets h" "bh_log2_nbuckets h1 = bh_log2_nbuckets h" "bh_freelists h1 = bh_freelists h"
    and new: "new_block \<rho>1 h1 nv l linear (in_bucket h i) ((block_map blk)(k \<mapsto> v)) (live_count blk + 1) \<rho>3 h3"
    and sb: "b_offset sb = b_offset b" "b_log2_pages sb = b_log2_pages b" "b_refcnt sb = b_refcnt b"
  shows "bihash_ok (expand_ok i sb nv l linear h3)" "bihash_map (expand_ok i sb nv l linear h3) = (bihash_map h)(k \<mapsto> v)"
proof -
  note H = hereD [OF assms(1)]
  note d = bucket_okD [OF H(3,4)]
  have n: "mem_ok \<rho>3 h3" "keeps \<rho>1 h1 \<rho>3 h3" "\<rho>3 nv = R_new" "l < length (bh_freelists h3)" "block_map (bh_mem h3 nv) = (block_map blk)(k \<mapsto> v)"
      "live_count (bh_mem h3 nv) = live_count blk + 1" "block_ok (bh_log2_nbuckets h) linear l (in_bucket h i) (bh_mem h3 nv)"
    using new h1(3) by (simp_all add: new_block_def)
  have st: "same_table h1 h3" using n(2) by (simp add: keeps_def)
  have bel: "\<rho>3 x = \<rho> x \<and> bh_mem h3 x = bh_mem h x" if "belongs (\<rho> x) j" for x j
  proof -
    have "\<rho>1 x = \<rho> x \<and> bh_mem h1 x = bh_mem h x" using copy that by (auto simp: belongs_def)
    then show ?thesis using n(2) that by (auto simp: keeps_def belongs_def)
  qed
  have off: "\<rho>3 (b_offset b) = \<rho> (b_offset b) \<and> bh_mem h3 (b_offset b) = blk" using bel [OF bucket_belongs [OF H(3)]] H(4,5) by simp
  define h' where "h' = expand_ok i sb nv l linear h3"
  define \<rho>' where "\<rho>' = (if 0 < b_log2_pages sb then \<rho>3(nv := R_bucket i, b_offset sb := R_free (b_log2_pages sb)) else \<rho>3(nv := R_bucket i))"
  have pre: "\<rho>3 (b_offset sb) = R_bucket i \<and> length (bh_mem h3 (b_offset sb)) = kvs (b_log2_pages sb) \<and> b_log2_pages sb < length (bh_freelists h3)" if "0 < b_log2_pages sb"
    using that d(3,4) off sb block_okD(1) [OF H(8)] st h1(4) by (auto simp: same_table_def)
  note I = expand_ok_memory [OF n(1,3) pre h'_def \<rho>'_def]
  have ne: "x \<noteq> nv" if "belongs (\<rho> x) j" for x j using bel [OF that] that n(3) by auto
  have nvo: "nv \<noteq> b_offset sb \<or> b_log2_pages sb = 0" using n(3) off d(9) bucket_belongs [OF H(3)] ne sb(1) H(4) by metis
  have keep: "\<rho>' x = \<rho> x \<and> bh_mem h' x = bh_mem h x" if "belongs (\<rho> x) j" "b_log2_pages sb = 0 \<or> x \<noteq> b_offset b" for x j
    using that bel [OF that(1)] ne [OF that(1)] I(2) [of x] sb(1) by (auto simp: \<rho>'_def)
  have pg: "\<rho>' (bucket_page i) = R_page i \<and> bh_mem h' (bucket_page i) = bh_mem h (bucket_page i)"
  proof -
    have "b_log2_pages sb = 0 \<or> bucket_page i \<noteq> b_offset b" using d(3,5) sb(2) by (cases "b_log2_pages b = 0") (auto dest: sym)
    then show ?thesis using keep [of "bucket_page i" i] d(5) by simp
  qed
  have b': "bh_buckets h' i = \<lparr>b_offset = nv, b_lock = False, b_linear_search = linear, b_log2_pages = l, b_refcnt = b_refcnt b + 1\<rparr>" using I(3) sb(3) by simp
  have mnv: "bh_mem h' nv = bh_mem h3 nv" "\<rho>' nv = R_bucket i" using I(2) nvo by (auto simp: \<rho>'_def)
  have g: "get_bucket h' = get_bucket h" using I(4) h1(2) st by (simp add: get_bucket_def fun_eq_iff same_table_def)
  have lb: "bh_log2_nbuckets h' = bh_log2_nbuckets h" "bh_nbuckets h' = bh_nbuckets h" using I(4,5) h1(2,3) st by (simp_all add: same_table_def)
  have "bucket_ok \<rho>' h' i"
    using assms(2) n(4-7) pg d(6) mnv unat_refcnt_up [OF assms(3)] H(9) I(6) by (simp add: bucket_ok_def Let_def b' g lb)
  moreover have "\<rho>' x = \<rho> x \<and> bh_mem h' x = bh_mem h x" if "belongs (\<rho> x) j" "j \<noteq> i" for x j
    using keep [OF that(1)] that bucket_belongs [OF H(3)] H(4) by (metis belongs_def role.inject(1,2) role.distinct)
  ultimately have "table_ok \<rho>' h' \<and> bihash_map h' = (bihash_map h)(k \<mapsto> v)"
    using I st h1 lb n(5) mnv b' H(6,11) by (intro table_update [OF H(1,2) I(1)]) (auto simp: same_table_def)
  then show "bihash_ok (expand_ok i sb nv l linear h3)" "bihash_map (expand_ok i sb nv l linear h3) = (bihash_map h)(k \<mapsto> v)"
    unfolding h'_def bihash_ok_def by blast+
qed

lemma expand_bucket_spec:
  assumes "here \<rho> h (kv_key kv) i b blk" "live kv" "block_map blk (kv_key kv) = None" "0 < live_count blk" "unat (b_refcnt b) + 1 < 2 ^ 16"
  shows "add_result e h kv i (b_log2_pages b) (expand_bucket e t i kv (lock_bucket i h))"
proof -
  note H = hereD [OF assms(1)]
  note d = bucket_okD [OF H(3,4)]
  define l where "l = b_log2_pages b"
  define h0 where "h0 = (lock_bucket i h)\<lparr>bh_alloc_lock := True\<rparr>"
  have f0: "bh_mem h0 = bh_mem h" "bh_buckets h0 = (bh_buckets h)(i := b\<lparr>b_lock := True\<rparr>)" "bh_nbuckets h0 = bh_nbuckets h" "bh_log2_nbuckets h0 = bh_log2_nbuckets h"
      "bh_freelists h0 = bh_freelists h" "bh_alloc_lock h0" "bh_arena_next h0 = bh_arena_next h" "bh_arena_size h0 = bh_arena_size h"
    using H(4) by (simp_all add: h0_def lock_bucket_def set_bucket_def)
  have m0: "mem_ok \<rho> h0" using table_okD(1) [OF H(1)] by (simp add: h0_def lock_bucket_def set_bucket_def)
  obtain ok h1 where mk: "make_working_copy e t i h0 = (ok, h1)" by fastforce
  have "if ok then \<exists>\<rho>'. copied \<rho> h0 i t \<rho>' h1
      else short_of e (rounded l) h0 \<and> bh_buckets h1 = bh_buckets h0 \<and> bh_alloc_lock h1 = bh_alloc_lock h0 \<and> bh_nbuckets h1 = bh_nbuckets h0"
    using make_working_copy_spec [OF m0 _ _ _ mk, of "b\<lparr>b_lock := True\<rparr>"] d(9) f0(1,2) H(5) block_okD(1) [OF H(8)] by (cases ok) (simp_all add: l_def)
  note mwc = this
  have ex: "expand_bucket e t i kv (lock_bucket i h) = (case make_working_copy e t i h0 of
      (False, h1) \<Rightarrow> Inr (- 4, h1)
    | (True, h1) \<Rightarrow> (let saved = bh_saved_bucket h1; old_l = b_log2_pages saved;
           h2 = h1\<lparr>bh_split_add := bh_split_add h1 + 1, bh_splits := bh_splits h1 + of_nat old_l + 1\<rparr>
        in case split_add e (bh_working_copies h2 ! t) old_l kv h2 of
             Inl err \<Rightarrow> Inl err
           | Inr (nv, l, linear, h3) \<Rightarrow> if l = 0 then Inl Uninit else Inr (0, expand_ok i saved nv l linear h3)))"
    using H(12) by (simp add: expand_bucket_def h0_def)
  show ?thesis
  proof (cases ok)
    case False
    have "1 < b_refcnt b" using assms(4) H(9) by (simp add: word_less_nat_alt)
    then show ?thesis using False mwc mk ex f0 H(4) by (auto simp: add_result_def short_of_def split_room_def l_def)
  next
    case True
    then obtain \<rho>1 where c: "copied \<rho> h0 i t \<rho>1 h1" using mwc by auto
    define h2 where "h2 = h1\<lparr>bh_split_add := bh_split_add h1 + 1, bh_splits := bh_splits h1 + of_nat l + 1\<rparr>"
    define w where "w = bh_working_copies h1 ! t"
    have c1: "mem_ok \<rho>1 h1" "\<rho>1 w = R_work t" "take (kvs l) (bh_mem h1 w) = blk" "bh_saved_bucket h1 = b\<lparr>b_lock := True\<rparr>"
        "bh_buckets h1 = (bh_buckets h)(i := b\<lparr>b_lock := True, b_offset := w\<rparr>)"
        "\<And>x. owned (\<rho> x) \<Longrightarrow> \<rho>1 x = \<rho> x \<and> bh_mem h1 x = bh_mem h x" "bh_nbuckets h1 = bh_nbuckets h"
        "bh_log2_nbuckets h1 = bh_log2_nbuckets h" "bh_freelists h1 = bh_freelists h" "bh_arena_next h1 \<le> bh_arena_next h + rounded l"
        "bh_arena_size h1 = bh_arena_size h"
      using c f0 H(5) by (simp_all add: copied_def Let_def w_def l_def)
    have old: "old_pairs \<rho>1 h2 w l (in_bucket h i) blk"
      using c1(1-3) block_okD [OF H(8)] assms(4) by (auto simp: old_pairs_def h2_def l_def keys_placed_def in_set_conv_nth)
    have "to_add (in_bucket h i) blk kv" using assms(2,3) H(6) by (simp add: to_add_def)
    note sa = split_add_spec [OF old this, of e]
    show ?thesis
    proof (cases "split_add e w l kv h2")
      case (Inl err)
      then have "add_result e h kv i l (Inl err)"
        using sa c1(10,11) by (auto simp: add_result_def split_result_def short_of_def split_room_def h2_def)
      then show ?thesis using ex mk True Inl c1(4) by (simp add: Let_def l_def [symmetric] h2_def w_def)
    next
      case (Inr x)
      obtain nv l' linear h3 where x: "x = (nv, l', linear, h3)" using prod_cases4 by blast
      then obtain \<rho>3 where n: "0 < l'" "new_block \<rho>1 h2 nv l' linear (in_bucket h i) ((block_map blk)(kv_key kv \<mapsto> kv_value kv)) (live_count blk + 1) \<rho>3 h3"
        using sa Inr by (auto simp: split_result_def)
      have "bihash_ok (expand_ok i (bh_saved_bucket h1) nv l' linear h3)"
          "bihash_map (expand_ok i (bh_saved_bucket h1) nv l' linear h3) = (bihash_map h)(kv_key kv \<mapsto> kv_value kv)"
        using c1(4-9) by (intro expand_ok_map [OF assms(1) n(1) assms(5) _ _ _ _ _ n(2)]; simp add: h2_def)+
      then show ?thesis using ex mk True Inr x c1(4) n(1) by (simp add: Let_def l_def [symmetric] h2_def w_def add_result_def)
    qed
  qed
qed

section \<open>Adding\<close>

lemma full_page:
  assumes "block_ok lb linear l mine blk" "find_free (search_start lb linear l hash) (search_limit linear l) blk = None"
  shows "0 < live_count blk"
proof -
  have s: "searched lb linear l hash (search_start lb linear l hash)"
    by (simp add: searched_def search_limit_def BIHASH_KVP_PER_PAGE_def)
  then have "live (blk ! search_start lb linear l hash)" using assms(2) by (auto simp: find_free_def scan_None searched_def)
  then show ?thesis using searched_less [OF s] block_okD(1) [OF assms(1)] live_count_pos [of _ blk] by metis
qed

lemma bihash_add_del_add:
  assumes "here \<rho> h (kv_key kv) i b blk" "live kv" "unat (b_refcnt b) + 1 < 2 ^ 16" "n \<noteq> 0"
  shows "if n = 2 \<and> bihash_map h (kv_key kv) \<noteq> None then bihash_add_del e t kv n h = Inr (- 2, h)
     else add_result e h kv i (b_log2_pages b) (bihash_add_del e t kv n h)"
proof -
  note H = hereD [OF assms(1)]
  have ad: "bihash_add_del e t kv n h = bihash_add e t None (n = 2) kv (xxhash (kv_key kv)) i (lock_bucket i h)"
    using H(4,6,7) assms(4) by (simp add: bihash_add_del_def add_del_inline_with_hash_def bihash_hash_def Let_def)
  define s where "s = search_start (bh_log2_nbuckets h) (b_linear_search b) (b_log2_pages b) (xxhash (kv_key kv))"
  define m where "m = search_limit (b_linear_search b) (b_log2_pages b)"
  show ?thesis
  proof (cases "find_live s m (kv_key kv) blk")
    case (Some j)
    then have j: "j < length blk" "live (blk ! j)" "kv_key (blk ! j) = kv_key kv"
      using find_live_Some [OF H(8), of "kv_key kv" j] by (simp_all add: s_def m_def)
    have some: "bihash_map h (kv_key kv) \<noteq> None" using find_live_None [OF H(8), of "kv_key kv"] Some H(10) by (simp add: s_def m_def)
    have kv: "(blk ! j)\<lparr>kv_value := kv_value kv\<rparr> = kv" using j(3) by simp
    note rp = block_replace [OF H(8) j assms(2)]
    have "table_ok \<rho> (set_bucket i (b\<lparr>b_refcnt := b_refcnt b\<rparr>) (set_block (b_offset b) (blk[j := kv]) h)) \<and>
        bihash_map (set_bucket i (b\<lparr>b_refcnt := b_refcnt b\<rparr>) (set_block (b_offset b) (blk[j := kv]) h)) = (bihash_map h)(kv_key kv \<mapsto> kv_value kv)"
      using rp H(9) by (intro write_here [OF assms(1)]) simp_all
    then show ?thesis using some Some H(4,5,7) ad unlock_lock [of h i] unlock_write(1) [of h i] kv
      by (auto simp: bihash_add_def Let_def s_def m_def add_result_def bihash_ok_def)
  next
    case None
    then have none: "block_map blk (kv_key kv) = None" using find_live_None [OF H(8), of "kv_key kv"] by (simp add: s_def m_def)
    show ?thesis
    proof (cases "find_free s m blk")
      case None2: None
      have "add_result e h kv i (b_log2_pages b) (expand_bucket e t i kv (lock_bucket i h))"
        using full_page [OF H(8)] None2 by (intro expand_bucket_spec [OF assms(1,2) none _ assms(3)]) (simp add: s_def m_def)
      then show ?thesis using None None2 none H(4,5,10) ad by (simp add: bihash_add_def Let_def s_def m_def)
    next
      case (Some j)
      have "find_free (search_start (bh_log2_nbuckets h) (b_linear_search b) (b_log2_pages b) (xxhash (kv_key kv)))
          (search_limit (b_linear_search b) (b_log2_pages b)) blk = Some j" using Some by (simp add: s_def m_def)
      note a = block_add [OF H(8,6) assms(2) none this]
      have "table_ok \<rho> (set_bucket i (b\<lparr>b_refcnt := b_refcnt b + 1\<rparr>) (set_block (b_offset b) (blk[j := kv]) h)) \<and>
          bihash_map (set_bucket i (b\<lparr>b_refcnt := b_refcnt b + 1\<rparr>) (set_block (b_offset b) (blk[j := kv]) h)) = (bihash_map h)(kv_key kv \<mapsto> kv_value kv)"
        using a H(9) unat_refcnt_up [OF assms(3)] by (intro write_here [OF assms(1)]) simp_all
      then show ?thesis using None Some none H(4,5,7,10) ad unlock_write(2) [of h i "b_refcnt b + 1"]
        by (auto simp: bihash_add_def Let_def s_def m_def add_result_def bihash_ok_def)
    qed
  qed
qed

section \<open>Deleting\<close>

text \<open>The last pair of a bucket with a block of its own is deleted: the bucket goes back to the page behind its header.\<close>

lemma switch_back:
  assumes "here \<rho> h k i b blk" "0 < b_log2_pages b" "live_count blk = 1" "j < length blk" "live (blk ! j)" "kv_key (blk ! j) = k"
    and h2: "h2 = set_block (bucket_page i) (map bihash_mark_free (bh_mem h (bucket_page i)))
      (set_bucket i \<lparr>b_offset = bucket_page i, b_lock = False, b_linear_search = False, b_log2_pages = 0, b_refcnt = 1\<rparr>
        (set_block (b_offset b) (blk[j := bihash_mark_free (blk ! j)]) h))"
  shows "bihash_ok (value_free (b_offset b) (b_log2_pages b) h2) \<and> bihash_map (value_free (b_offset b) (b_log2_pages b) h2) = (bihash_map h)(k := None)"
proof -
  note H = hereD [OF assms(1)]
  note d = bucket_okD [OF H(3,4)]
  define l where "l = b_log2_pages b"
  define off where "off = b_offset b"
  have r: "\<rho> off = R_bucket i" "l < length (bh_freelists h)" "\<rho> (bucket_page i) = R_page i" using d(3,4,5) assms(2) by (simp_all add: l_def off_def)
  have ne: "bucket_page i \<noteq> off" using r by auto
  have m1: "mem_ok \<rho> (set_block off (blk[j := bihash_mark_free (blk ! j)]) h)"
    using r(1) H(5) table_okD(1) [OF H(1)] by (intro mem_ok_set_block) (auto simp: off_def)
  have m2: "mem_ok \<rho> h2"
    unfolding h2 off_def [symmetric] using m1 r(3) ne by (intro mem_ok_set_block) (auto simp: set_bucket_def set_block_def)
  have f2: "bh_mem h2 = (bh_mem h)(off := blk[j := bihash_mark_free (blk ! j)], bucket_page i := map bihash_mark_free (bh_mem h (bucket_page i)))"
      "bh_buckets h2 = (bh_buckets h)(i := \<lparr>b_offset = bucket_page i, b_lock = False, b_linear_search = False, b_log2_pages = 0, b_refcnt = 1\<rparr>)"
      "bh_nbuckets h2 = bh_nbuckets h" "bh_log2_nbuckets h2 = bh_log2_nbuckets h" "bh_freelists h2 = bh_freelists h" "bh_alloc_lock h2 = bh_alloc_lock h"
    by (simp_all add: h2 set_bucket_def set_block_def off_def)
  define h' where "h' = value_free off l h2"
  have "length (bh_mem h2 off) = kvs l" using block_okD(1) [OF H(8)] ne f2(1) by (simp add: l_def)
  note v = value_free_ok [OF m2 _ this, folded h'_def]
  have v': "mem_ok (\<rho>(off := R_free l)) h'" "\<And>x. x \<noteq> off \<Longrightarrow> bh_mem h' x = bh_mem h2 x" "same_table h2 h'" using v r f2(5) by auto
  have free: "\<forall>p<length (bh_mem h' (bucket_page i)). bihash_is_free (bh_mem h' (bucket_page i) ! p)" "length (bh_mem h' (bucket_page i)) = kvs 0"
    using v'(2) [OF ne] f2(1) d(6) by simp_all
  note af = all_free [OF free(2,1)]
  have "block_map (blk[j := bihash_mark_free (blk ! j)]) = (\<lambda>_. None)"
    using block_delete(3) [OF H(8) assms(4,5)] assms(3) live_count_0 by simp
  then have emp: "(block_map blk)(k := None) = (\<lambda>_. None)" using block_delete(2) [OF H(8) assms(4,5)] assms(6) by simp
  have g: "get_bucket h' = get_bucket h" using v'(3) f2(3) by (simp add: get_bucket_def fun_eq_iff same_table_def)
  have st: "bh_buckets h' = bh_buckets h2" "bh_log2_nbuckets h' = bh_log2_nbuckets h" "bh_nbuckets h' = bh_nbuckets h" "\<not> bh_alloc_lock h'"
      "length (bh_freelists h) \<le> length (bh_freelists h')"
    using v'(3) f2 H(12) by (simp_all add: same_table_def)
  have "bucket_ok (\<rho>(off := R_free l)) h' i" using af r(3) ne free(2) by (simp add: bucket_ok_def Let_def st f2)
  moreover have "(\<rho>(off := R_free l)) x = \<rho> x \<and> bh_mem h' x = bh_mem h x" if "belongs (\<rho> x) p" "p \<noteq> i" for x p
  proof -
    have "x \<noteq> off" "x \<noteq> bucket_page i" using that r(1,3) by auto
    then show ?thesis using v'(2) f2(1) by simp
  qed
  ultimately have "table_ok (\<rho>(off := R_free l)) h' \<and> bihash_map h' = (bihash_map h)(k := None)"
  proof (intro table_update [OF H(1,2) v'(1)])
    fix k' assume "in_bucket h i k'"
    then show "block_map (bh_mem h' (b_offset (bh_buckets h' i))) k' = ((bihash_map h)(k := None)) k'"
      using fun_cong [OF emp, of k'] H(11) [of k'] af(2) by (simp add: st f2 split: if_splits)
  qed (use st f2 H(6) in auto)
  then show ?thesis unfolding h'_def off_def l_def bihash_ok_def by blast
qed

lemma bihash_add_del_delete:
  assumes "here \<rho> h k i b blk" "kv_key kv = k"
  shows "if bihash_map h k = None then bihash_add_del e t kv 0 h = Inr (- 3, h)
     else \<exists>h'. bihash_add_del e t kv 0 h = Inr (0, h') \<and> bihash_ok h' \<and> bihash_map h' = (bihash_map h)(k := None)"
proof -
  note H = hereD [OF assms(1)]
  have ad: "bihash_add_del e t kv 0 h = bihash_del k (xxhash k) i (lock_bucket i h)"
    using H(4,6,7) assms(2) by (simp add: bihash_add_del_def add_del_inline_with_hash_def bihash_hash_def Let_def)
  define s where "s = search_start (bh_log2_nbuckets h) (b_linear_search b) (b_log2_pages b) (xxhash k)"
  define m where "m = search_limit (b_linear_search b) (b_log2_pages b)"
  show ?thesis
  proof (cases "find_live s m k blk")
    case None
    then have "bihash_map h k = None" using find_live_None [OF H(8), of k] H(10) by (simp add: s_def m_def)
    then show ?thesis using None ad H(4,5,7) unlock_lock [of h i] by (simp add: bihash_del_def Let_def s_def m_def)
  next
    case (Some j)
    then have j: "j < length blk" "live (blk ! j)" "kv_key (blk ! j) = k" using find_live_Some [OF H(8), of k j] by (simp_all add: s_def m_def)
    have some: "bihash_map h k \<noteq> None" using find_live_None [OF H(8), of k] Some H(10) by (simp add: s_def m_def)
    note del = block_delete [OF H(8) j(1,2)]
    have rc: "unat (b_refcnt b) \<ge> 2" using H(9) live_count_pos [OF j(1,2)] by simp
    then have gt: "b_refcnt b > 1" by (simp add: word_less_nat_alt)
    have dn: "unat (b_refcnt b - 1) = live_count blk" using H(9) rc by (subst unat_minus_one) auto
    define blk' where "blk' = blk[j := bihash_mark_free (blk ! j)]"
    show ?thesis
    proof (cases "b_refcnt b - 1 = 1 \<and> 0 < b_log2_pages b")
      case True
      define h2 where "h2 = set_block (bucket_page i) (map bihash_mark_free (bh_mem h (bucket_page i)))
        (set_bucket i \<lparr>b_offset = bucket_page i, b_lock = False, b_linear_search = False, b_log2_pages = 0, b_refcnt = 1\<rparr> (set_block (b_offset b) blk' h))"
      have "live_count blk = 1" using dn True by simp
      from switch_back [OF assms(1) _ this j, of h2] have sb: "bihash_ok (value_free (b_offset b) (b_log2_pages b) h2)"
          "bihash_map (value_free (b_offset b) (b_log2_pages b) h2) = (bihash_map h)(k := None)"
        using True by (simp_all add: h2_def blk'_def)
      have ne: "bucket_page i \<noteq> b_offset b" using bucket_okD(3,5) [OF H(3,4)] True by auto
      have be: "b\<lparr>b_refcnt := 1, b_offset := x, b_linear_search := False, b_log2_pages := 0, b_lock := False\<rparr> =
          \<lparr>b_offset = x, b_lock = False, b_linear_search = False, b_log2_pages = 0, b_refcnt = 1\<rparr>" for x by (cases b) simp
      have "\<exists>c. bihash_add_del e t kv 0 h = Inr (0, (value_free (b_offset b) (b_log2_pages b) h2)\<lparr>bh_del := c\<rparr>)"
        using True Some ad gt H(4,5,12) ne
        by (intro exI [of _ "2 + bh_del h"])
          (simp add: bihash_del_def Let_def s_def m_def free_backing_store_def h2_def blk'_def lock_bucket_def unlock_bucket_def set_bucket_def set_block_def value_free_def be)
      then show ?thesis using some sb by (auto simp: bihash_ok_def)
    next
      case False
      have "table_ok \<rho> (set_bucket i (b\<lparr>b_refcnt := b_refcnt b - 1\<rparr>) (set_block (b_offset b) blk' h)) \<and>
          bihash_map (set_bucket i (b\<lparr>b_refcnt := b_refcnt b - 1\<rparr>) (set_block (b_offset b) blk' h)) = (bihash_map h)(k := None)"
        using del dn j(3) by (intro write_here [OF assms(1)]) (simp_all add: blk'_def)
      then show ?thesis using False Some ad gt H(4,5,7) some unlock_write(2) [of h i "b_refcnt b - 1"]
        by (auto simp: bihash_del_def Let_def s_def m_def blk'_def bihash_ok_def)
    qed
  qed
qed

section \<open>Walking over all pairs\<close>

definition all_pairs :: "bihash \<Rightarrow> bihash_kv list" where
  "all_pairs h = concat (map (\<lambda>i. filter live (bh_mem h (b_offset (bh_buckets h i)))) [0..<unat (bh_nbuckets h)])"

lemma walk_block_all: "walk_block (\<lambda>kv s. (True, f kv s)) blk s = (True, fold f (filter live blk) s)"
  by (induction blk arbitrary: s) auto

lemma walk_buckets_all:
  assumes "\<And>i. i \<in> set is \<Longrightarrow> bucket_ok \<rho> h i"
  shows "walk_buckets (\<lambda>kv s. (True, f kv s)) h is s = fold f (concat (map (\<lambda>i. filter live (bh_mem h (b_offset (bh_buckets h i)))) is)) s"
  using assms
proof (induction "is" arbitrary: s)
  case (Cons i "is")
  have bo: "bucket_ok \<rho> h i" using Cons.prems by simp
  note d = bucket_okD [OF bo refl]
  have "take (kvs (b_log2_pages (bh_buckets h i))) (bh_mem h (b_offset (bh_buckets h i))) = bh_mem h (b_offset (bh_buckets h i))" using block_okD(1) [OF d(7)] by simp
  moreover have "filter live (bh_mem h (b_offset (bh_buckets h i))) = []" if "bucket_is_empty (bh_buckets h i)"
    using that d(8) by (simp add: bucket_is_empty_def live_count_def)
  ultimately show ?case using Cons by (simp add: Let_def walk_block_all)
qed simp

lemma foreach_all_pairs:
  assumes "table_ok \<rho> h"
  shows "bihash_foreach_key_value_pair h (\<lambda>kv s. (True, f kv s)) s = fold f (all_pairs h) s"
  using walk_buckets_all [of "[0..<unat (bh_nbuckets h)]" \<rho> h f s] table_okD(4) [OF assms] by (simp add: bihash_foreach_key_value_pair_def all_pairs_def)

lemma all_pairs_map:
  assumes "table_ok \<rho> h"
  shows "\<lparr>kv_key = k, kv_value = v\<rparr> \<in> set (all_pairs h) \<longleftrightarrow> bihash_map h k = Some v"
proof -
  have ok: "block_ok (bh_log2_nbuckets h) (b_linear_search (bh_buckets h i)) (b_log2_pages (bh_buckets h i)) (in_bucket h i) (bh_mem h (b_offset (bh_buckets h i)))"
    if "i < unat (bh_nbuckets h)" for i using bucket_okD(7) [OF table_okD(4) [OF assms that] refl] .
  have mem: "(\<lparr>kv_key = k, kv_value = v\<rparr> \<in> set (filter live blk)) = (block_map blk k = Some v)" if "keys_distinct blk" for blk
  proof -
    have e: "(x = \<lparr>kv_key = k, kv_value = v\<rparr>) = (kv_key x = k \<and> kv_value x = v)" for x by (cases x) simp
    have "(\<lparr>kv_key = k, kv_value = v\<rparr> \<in> set (filter live blk)) = (\<exists>p<length blk. live (blk ! p) \<and> blk ! p = \<lparr>kv_key = k, kv_value = v\<rparr>)"
      by (simp add: in_set_conv_nth) metis
    then show ?thesis unfolding e block_map_Some [OF that] .
  qed
  have mem': "(\<lparr>kv_key = k, kv_value = v\<rparr> \<in> set (filter live (bh_mem h (b_offset (bh_buckets h i))))) = (block_map (bh_mem h (b_offset (bh_buckets h i))) k = Some v)"
    if "i < unat (bh_nbuckets h)" for i by (rule mem [OF block_okD(2) [OF ok [OF that]]])
  have "(\<lparr>kv_key = k, kv_value = v\<rparr> \<in> set (all_pairs h)) = (\<exists>i<unat (bh_nbuckets h). block_map (bh_mem h (b_offset (bh_buckets h i))) k = Some v)"
    unfolding all_pairs_def set_concat set_map using mem' by (auto simp del: set_filter)
  also have "\<dots> = (bihash_map h k = Some v)"
  proof -
    have "in_bucket h i k" if i: "i < unat (bh_nbuckets h)" "block_map (bh_mem h (b_offset (bh_buckets h i))) k = Some v" for i
      using block_map_SomeD [OF i(2)] block_okD(3) [OF ok [OF i(1)]] by (auto simp: keys_placed_def)
    then show ?thesis using table_okD(3) [OF assms] by (auto simp: bihash_map_def)
  qed
  finally show ?thesis .
qed

section \<open>Creation\<close>

lemma first_set:
  assumes n_def: "n = length (takeWhile (\<lambda>i. \<not> P i) (rev [0..<N]))" and "\<exists>i<N. P i"
  shows "n < N" "P (N - n - 1)" "N - n - 1 < j \<Longrightarrow> j < N \<Longrightarrow> \<not> P j"
proof -
  let ?xs = "rev [0..<N]"
  have "n \<noteq> length ?xs"
  proof
    assume "n = length ?xs"
    then have "takeWhile (\<lambda>i. \<not> P i) ?xs = take (length ?xs) ?xs" using takeWhile_eq_take [of "\<lambda>i. \<not> P i" ?xs] n_def by argo
    then have "takeWhile (\<lambda>i. \<not> P i) ?xs = ?xs" by simp
    then have "\<forall>i\<in>set ?xs. \<not> P i" by (simp only: takeWhile_eq_all_conv)
    then show False using assms(2) by auto
  qed
  moreover have "n \<le> length ?xs" unfolding n_def by (rule length_takeWhile_le)
  ultimately have n: "n < length ?xs" by simp
  then show "n < N" by simp
  have "P (?xs ! n)" using nth_length_takeWhile [of "\<lambda>i. \<not> P i" ?xs] n by (simp add: n_def)
  then show "P (N - n - 1)" using n by (simp add: rev_nth)
  show "\<not> P j" if "N - n - 1 < j" "j < N"
  proof -
    have "N - 1 - j < n" using that by linarith
    then have l: "N - 1 - j < length (takeWhile (\<lambda>i. \<not> P i) ?xs)" by (simp add: n_def)
    have "takeWhile (\<lambda>i. \<not> P i) ?xs ! (N - 1 - j) = ?xs ! (N - 1 - j)" by (rule takeWhile_nth [OF l])
    then have "\<not> P (?xs ! (N - 1 - j))" using set_takeWhileD [OF nth_mem [OF l]] by simp
    then show ?thesis using that by (simp add: rev_nth)
  qed
qed

lemma count_leading_zeros_spec:
  assumes "x \<noteq> 0"
  shows "bit x (min_log2 x)" "min_log2 x < j \<Longrightarrow> \<not> bit x j"
proof -
  have ex: "\<exists>i<64. bit x i"
  proof (rule ccontr)
    assume "\<not> (\<exists>i<64. bit x i)"
    then have "x = 0" by (intro bit_word_eqI) auto
    then show False using assms by simp
  qed
  note f = first_set [OF count_leading_zeros_def ex, folded min_log2_def]
  show "bit x (min_log2 x)" by (rule f)
  show "\<not> bit x j" if "min_log2 x < j" using f(3) [OF that] bit_imp_le_length [of x j] by (cases "j < 64") auto
qed

lemma min_log2_pow: "l < 32 \<Longrightarrow> min_log2 (ucast (push_bit l 1 :: u32)) = l"
proof -
  assume l: "l < 32"
  let ?x = "ucast (push_bit l 1 :: u32) :: u64"
  have b: "bit ?x j = (j = l)" for j using l by (auto simp: bit_simps)
  then have "?x \<noteq> 0" by (metis bit_0_eq bot_apply bot_bool_def)
  then show ?thesis using count_leading_zeros_spec(1) b by blast
qed

lemma max_log2_pow:
  assumes "l < 32"
  shows "max_log2 (ucast (push_bit l 1 :: u32)) = l"
proof -
  have "ucast (push_bit l 1 :: u32) = (push_bit l 1 :: u64)" using assms by (intro bit_word_eqI) (auto simp: bit_simps)
  then show ?thesis using min_log2_pow [OF assms] by (simp add: max_log2_def Let_def)
qed

lemma max_log2_le:
  assumes "n \<noteq> 0" "n \<le> (2 ^ k :: u32)" "k < 32"
  shows "max_log2 (ucast n) \<le> k"
proof -
  let ?x = "ucast n :: u64"
  have ne: "?x \<noteq> 0" using assms(1) by (metis ucast_ucast_u64 unsigned_0)
  define m where "m = min_log2 ?x"
  have "bit (unat n) m" using count_leading_zeros_spec(1) [OF ne] by (simp add: m_def bit_simps)
  then have ge: "2 ^ m \<le> unat n" by (metis bit_iff_odd div_less even_zero leI)
  have le: "unat n \<le> 2 ^ k" using assms(2,3) by (simp add: word_le_nat_alt unat_2_pow)
  have mk: "m \<le> k" using order_trans [OF ge le] power_le_imp_le_exp [of 2 m k] by simp
  have "(push_bit k 1 :: u64) = ucast (2 ^ k :: u32)" using assms(3) by (intro bit_word_eqI) (auto simp: bit_simps)
  then have "\<not> push_bit k 1 < ?x" using le assms(3) by (simp only: word_less_nat_alt) (simp add: unat_2_pow)
  then show ?thesis using mk by (cases "m = k") (auto simp: max_log2_def Let_def m_def [symmetric])
qed

text \<open>The pages behind the bucket headers.\<close>

lemma bucket_page_simps: "bucket_page i = i * 120 + 8" "KV_SZ * kvs 0 = 112" "BUCKET_SZ + page_bytes 0 = 120"
  by (simp_all add: bucket_page_def BUCKET_SZ_def KV_SZ_def BIHASH_KVP_PER_PAGE_def)

lemma bucket_page_inj: "bucket_page i = bucket_page j \<longleftrightarrow> i = j"
  by (simp add: bucket_page_simps)

definition page_role :: "nat \<Rightarrow> nat \<Rightarrow> role" where
  "page_role n x = (if \<exists>i<n. x = bucket_page i then R_page ((x - 8) div 120) else R_none)"

lemma page_role_page: "i < n \<Longrightarrow> page_role n (bucket_page i) = R_page i"
  by (auto simp: page_role_def bucket_page_simps)

lemma page_role_some: "page_role n x \<noteq> R_none \<Longrightarrow> \<exists>i<n. x = bucket_page i"
  by (auto simp: page_role_def split: if_splits)

lemma fresh_table:
  assumes "bh_freelists h = []" "bh_working_copies h = []" "bh_working_copy_lengths h = []" "\<not> bh_alloc_lock h"
    "bh_log2_nbuckets h < 32" "bh_nbuckets h = 2 ^ bh_log2_nbuckets h" "n = unat (bh_nbuckets h)"
    "n * 120 \<le> bh_arena_next h" "bh_arena_next h \<le> bh_arena_size h" "bh_arena_size h \<le> 2 ^ 36"
    and b: "\<And>i. i < n \<Longrightarrow> bh_buckets h i = \<lparr>b_offset = bucket_page i, b_lock = False, b_linear_search = False, b_log2_pages = 0, b_refcnt = 1\<rparr>"
    and m: "\<And>i. i < n \<Longrightarrow> bh_mem h (bucket_page i) = map bihash_mark_free (replicate (kvs 0) zero_kv)"
  shows "table_ok (page_role n) h" "bihash_map h = (\<lambda>_. None)"
proof -
  have n: "0 < n" using get_bucket_less [OF assms(5,6)] assms(7) by (metis gr_zeroI not_less0)
  have len: "length (bh_mem h (bucket_page i)) = kvs 0" if "i < n" for i using m [OF that] by simp
  have free: "\<forall>p<length (bh_mem h (bucket_page i)). bihash_is_free (bh_mem h (bucket_page i) ! p)" if "i < n" for i using m [OF that] by simp
  have "block_at (page_role n) h x" if x: "page_role n x \<noteq> R_none" for x
  proof -
    obtain i where i: "i < n" "x = bucket_page i" using page_role_some [OF x] by blast
    have "Suc i * 120 \<le> n * 120" using i(1) by simp
    moreover have "bucket_page i + 112 \<le> y" if y: "page_role n y \<noteq> R_none" "bucket_page i < y" for y
      using page_role_some [OF y(1)] y(2) by (auto simp: bucket_page_simps)
    ultimately show ?thesis using assms(8) i len [OF i(1)] page_role_page [OF i(1)] kvs_pos [of 0] bucket_page_simps(2) by (auto simp: block_at_def bucket_page_simps)
  qed
  then have "mem_ok (page_role n) h" using assms(1-3,8-10) n by (auto simp: mem_ok_def lists_ok_def work_ok_def)
  moreover have "bucket_ok (page_role n) h i" if "i < n" for i
    using all_free [OF len [OF that] free [OF that]] b [OF that] page_role_page [OF that] len [OF that] by (simp add: bucket_ok_def Let_def)
  ultimately show t: "table_ok (page_role n) h" using assms(4-7) by (simp add: table_ok_def)
  show "bihash_map h = (\<lambda>_. None)"
  proof
    fix k
    have i: "get_bucket h (xxhash k) < n" using table_okD(3) [OF t] assms(7) by simp
    then show "bihash_map h k = None" using all_free(2) [OF len [OF i] free [OF i]] b [OF i] by (simp add: bihash_map_def)
  qed
qed

lemma bihash_init_spec:
  assumes "bihash_init e reserve lock_mem nb sz h0 = (0, h)" "nb \<noteq> 0" "nb \<le> 2 ^ 29" "sz \<le> 2 ^ 36"
    "bh_freelists h0 = []" "bh_working_copies h0 = []" "bh_working_copy_lengths h0 = []"
  shows "bihash_ok h" "bihash_map h = (\<lambda>_. None)"
proof -
  define l where "l = max_log2 (ucast nb)"
  have l29: "l \<le> 29" using max_log2_le [OF assms(2,3)] by (simp add: l_def)
  then have l: "l < 32" by simp
  define n where "n = unat (2 ^ l :: u32)"
  have n: "n = 2 ^ l" using l by (simp add: n_def unat_2_pow)
  have "n \<le> 2 ^ 29" using l29 power_increasing [of l 29 "2 :: nat"] by (simp add: n)
  then have "unat (2 ^ l * 7 :: u32) = n * 7" unfolding n_def by (subst unat_mult_lem [THEN iffD1]) simp_all
  then have sz: "n * BUCKET_SZ + unat (2 ^ l * of_nat BIHASH_KVP_PER_PAGE :: u32) * KV_SZ = n * (BUCKET_SZ + page_bytes 0)"
    by (simp add: BIHASH_KVP_PER_PAGE_def KV_SZ_def BUCKET_SZ_def)
  define h1 where "h1 = h0\<lparr>bh_nbuckets := 2 ^ l, bh_log2_nbuckets := l, bh_instantiated := False, bh_alloc_lock := False, bh_arena_next := 0, bh_arena_size := sz, bh_arena_mapped := 0\<rparr>"
  obtain rv h2 where a: "alloc_aligned e (n * (BUCKET_SZ + page_bytes 0)) h1 = (Some rv, h2)"
    and h: "h = h2\<lparr>bh_buckets := (\<lambda>i. if i < n then \<lparr>b_offset = bucket_page i, b_lock = False, b_linear_search = False, b_log2_pages = 0, b_refcnt = 1\<rparr> else bh_buckets h2 i),
        bh_mem := (\<lambda>off. if \<exists>i<n. off = bucket_page i then map bihash_mark_free (replicate (kvs 0) zero_kv) else bh_mem h2 off), bh_instantiated := True\<rparr>"
    using assms(1) max_log2_pow [OF l]
    by (auto simp: bihash_init_def bihash_instantiate_def Let_def l_def [symmetric] n_def [symmetric] sz h1_def split: if_splits option.splits prod.splits)
  note s = alloc_aligned_Some [OF a] and f = alloc_frame [OF a]
  have "bh_arena_next h2 = rv + round_pow2 (n * (BUCKET_SZ + page_bytes 0)) 64" using arg_cong [OF s(2), of bh_arena_next] by simp
  then have nx: "bh_arena_next h2 = round_pow2 (n * 120) 64" "bh_arena_next h2 \<le> sz" using s(1,3) unfolding bucket_page_simps(3) by (simp_all add: h1_def)
  have "table_ok (page_role n) h \<and> bihash_map h = (\<lambda>_. None)"
    using f assms(4-7) nx round_64(1) [of "n * 120"] l
    by (intro conjI fresh_table [where n = n]) (auto simp: h h1_def n_def push_bit_eq_mult bucket_page_inj)
  then show "bihash_ok h" "bihash_map h = (\<lambda>_. None)" by (auto simp: bihash_ok_def)
qed

section \<open>What the clients rely on\<close>

text \<open>The caches of the agent use a hash table through its search and its \<^verbatim>\<open>add_del\<close>: a finite map, as long as what is added
  \<open>fits\<close>.\<close>

locale hash_table =
  fixes ok :: "'s \<Rightarrow> bool"
    and abs :: "'s \<Rightarrow> u64 \<Rightarrow> u64 option"
    and fits :: "'s \<Rightarrow> bihash_kv \<Rightarrow> bool"
    and lookup :: "'s \<Rightarrow> bihash_kv \<Rightarrow> (int \<times> bihash_kv option) bihash_result"
    and add_del :: "bihash_kv \<Rightarrow> int \<Rightarrow> 's \<Rightarrow> (int \<times> 's) bihash_result"
  assumes lookup_spec: "ok s \<Longrightarrow> lookup s kv =
      Inr (case abs s (kv_key kv) of None \<Rightarrow> (- 1, None) | Some v \<Rightarrow> (0, Some \<lparr>kv_key = kv_key kv, kv_value = v\<rparr>))"
    and add_spec: "ok s \<Longrightarrow> fits s kv \<Longrightarrow> \<exists>s'. add_del kv 1 s = Inr (0, s') \<and> ok s' \<and> abs s' = (abs s)(kv_key kv \<mapsto> kv_value kv)"
    and add_new_spec: "ok s \<Longrightarrow> fits s kv \<Longrightarrow> abs s (kv_key kv) = None \<Longrightarrow>
      \<exists>s'. add_del kv 2 s = Inr (0, s') \<and> ok s' \<and> abs s' = (abs s)(kv_key kv \<mapsto> kv_value kv)"
    and add_old_spec: "ok s \<Longrightarrow> abs s (kv_key kv) \<noteq> None \<Longrightarrow> add_del kv 2 s = Inr (- 2, s)"
    and del_spec: "ok s \<Longrightarrow> if abs s (kv_key kv) = None then add_del kv 0 s = Inr (- 3, s)
      else \<exists>s'. add_del kv 0 s = Inr (0, s') \<and> ok s' \<and> abs s' = (abs s)(kv_key kv := None)"
begin

lemma add_found:
  assumes "ok s" "fits s kv" "add_del kv 1 s = Inr (r, s')"
  shows "lookup s' \<lparr>kv_key = kv_key kv, kv_value = x\<rparr> = Inr (0, Some \<lparr>kv_key = kv_key kv, kv_value = kv_value kv\<rparr>)"
  using add_spec [OF assms(1,2)] assms(3) lookup_spec by auto

lemma add_others:
  assumes "ok s" "fits s kv" "add_del kv 1 s = Inr (r, s')" "kv_key kv' \<noteq> kv_key kv"
  shows "lookup s' kv' = lookup s kv'"
  using add_spec [OF assms(1,2)] assms(1,3,4) lookup_spec by auto

lemma del_gone:
  assumes "ok s" "add_del kv 0 s = Inr (r, s')"
  shows "lookup s' \<lparr>kv_key = kv_key kv, kv_value = x\<rparr> = Inr (- 1, None)"
  using del_spec [OF assms(1), of kv] assms lookup_spec by (auto split: if_splits)

end

definition bihash_fits :: "bihash_env \<Rightarrow> bihash \<Rightarrow> bihash_kv \<Rightarrow> bool" where
  "bihash_fits e h kv \<longleftrightarrow>
     (let b = bh_buckets h (get_bucket h (xxhash (kv_key kv)))
      in live kv \<and> unat (b_refcnt b) + 1 < 2 ^ 16 \<and> grants e \<and> bh_arena_next h + split_room (b_log2_pages b) \<le> bh_arena_size h)"

lemma here_exists:
  assumes "bihash_ok h"
  obtains \<rho> i b blk where "here \<rho> h k i b blk" "b = bh_buckets h (get_bucket h (xxhash k))" "i = get_bucket h (xxhash k)"
  using assms by (auto simp: bihash_ok_def here_def)

lemma bihash_add_fits:
  assumes "bihash_ok h" "bihash_fits e h kv" "n = 1 \<or> n = 2 \<and> bihash_map h (kv_key kv) = None"
  shows "\<exists>h'. bihash_add_del e t kv n h = Inr (0, h') \<and> bihash_ok h' \<and> bihash_map h' = (bihash_map h)(kv_key kv \<mapsto> kv_value kv)"
proof -
  obtain \<rho> i b blk where b: "here \<rho> h (kv_key kv) i b blk" "b = bh_buckets h (get_bucket h (xxhash (kv_key kv)))" using here_exists [OF assms(1)] by metis
  have f: "live kv" "unat (b_refcnt b) + 1 < 2 ^ 16" "\<not> short_of e (split_room (b_log2_pages b)) h"
    using assms(2) b(2) by (simp_all add: bihash_fits_def Let_def short_of_def)
  have "add_result e h kv i (b_log2_pages b) (bihash_add_del e t kv n h)" using bihash_add_del_add [OF b(1) f(1,2), of n e t] assms(3) by auto
  then show ?thesis using f(3) by (auto simp: add_result_def split: sum.splits)
qed

lemma bihash_add_old:
  assumes "bihash_ok h" "bihash_map h (kv_key kv) \<noteq> None"
  shows "bihash_add_del e t kv 2 h = Inr (- 2, h)"
proof -
  obtain \<rho> i b blk where "here \<rho> h (kv_key kv) i b blk" using here_exists [OF assms(1)] by metis
  note H = hereD [OF this]
  have "block_map blk (kv_key kv) \<noteq> None" using H(10) assms(2) by simp
  then obtain j where "find_live (search_start (bh_log2_nbuckets h) (b_linear_search b) (b_log2_pages b) (xxhash (kv_key kv)))
      (search_limit (b_linear_search b) (b_log2_pages b)) (kv_key kv) blk = Some j" using find_live_None [OF H(8), of "kv_key kv"] by auto
  then show ?thesis using H(4-7) unlock_lock [of h i]
    by (simp add: bihash_add_del_def add_del_inline_with_hash_def bihash_hash_def bihash_add_def Let_def)
qed

interpretation bh: hash_table bihash_ok bihash_map "bihash_fits e" bihash_search "bihash_add_del e t" for e t
proof (unfold_locales, goal_cases)
  case (1 h kv)
  then show ?case using bihash_search_spec by (auto simp: bihash_ok_def)
next
  case (2 h kv)
  then show ?case by (intro bihash_add_fits) simp_all
next
  case (3 h kv)
  then show ?case by (intro bihash_add_fits) simp_all
next
  case (4 h kv)
  then show ?case by (rule bihash_add_old)
next
  case (5 h kv)
  then show ?case using here_exists [of h "kv_key kv"] bihash_add_del_delete [OF _ refl] by metis
qed

end
