(* ===== verification/Bihash_Table.thy ===== *)
theory Bihash_Table
  imports Bihash_Map
begin

text \<open>
  What the hash table promises to its clients, on a table with one full bucket as an example, and what happens when
  memory runs out.
\<close>

text \<open>A table with one bucket, whose page is full: the pairs 1 to 7.\<close>

definition page_1_to_7 :: "bihash_kv list" where
  "page_1_to_7 = map (\<lambda>i. \<lparr>kv_key = of_nat (i + 1), kv_value = of_nat (i + 1)\<rparr>) [0..<7]"

definition full_table :: "nat \<Rightarrow> bihash" where
  "full_table sz =
     \<lparr>bh_nbuckets = 1, bh_log2_nbuckets = 0,
      bh_buckets = (\<lambda>_. \<lparr>b_offset = 8, b_lock = False, b_linear_search = False, b_log2_pages = 0, b_refcnt = 8\<rparr>),
      bh_mem = (\<lambda>_. page_1_to_7), bh_freelists = [],
      bh_arena_next = 128, bh_arena_size = sz, bh_arena_mapped = 0, bh_alloc_lock = False, bh_working_copies = [], bh_working_copy_lengths = [],
      bh_saved_bucket = \<lparr>b_offset = 0, b_lock = False, b_linear_search = False, b_log2_pages = 0, b_refcnt = 0\<rparr>, bh_instantiated = True,
      bh_add = 7, bh_replace = 0, bh_del = 0, bh_working_copy_lost = 0, bh_split_add = 0, bh_splits = 0, bh_resplit = 0, bh_linear = 0\<rparr>"

definition granting :: bihash_env where
  "granting = \<lparr>be_vec = (\<lambda>_ _. True), be_mmap_huge = (\<lambda>_ _. True), be_mmap = (\<lambda>_ _. True)\<rparr>"

lemma full_bucket: "get_bucket (full_table sz) hash = 0"
  by (simp add: get_bucket_def full_table_def)

lemma page_of_0: "page_of lb 0 hash = 0"
  using page_less [of lb 0 hash] by simp

lemma page_1_to_7_nth:
  assumes "p < 7"
  shows "page_1_to_7 ! p = \<lparr>kv_key = of_nat (p + 1), kv_value = of_nat (p + 1)\<rparr>" "live (page_1_to_7 ! p)" "unat (kv_key (page_1_to_7 ! p)) = p + 1"
proof -
  show n: "page_1_to_7 ! p = \<lparr>kv_key = of_nat (p + 1), kv_value = of_nat (p + 1)\<rparr>" using assms by (simp add: page_1_to_7_def del: upt_rec_numeral)
  have u: "unat (of_nat (p + 1) :: u64) = p + 1" using assms by (intro unat_of_nat_u64) simp
  then show "unat (kv_key (page_1_to_7 ! p)) = p + 1" unfolding n by simp
  have "of_nat (p + 1) \<noteq> FREE_VALUE"
  proof
    assume "of_nat (p + 1) = FREE_VALUE"
    then have "p + 1 = unat FREE_VALUE" using u by simp
    then show False using assms by (simp add: FREE_VALUE_def)
  qed
  then show "live (page_1_to_7 ! p)" unfolding n bihash_is_free_def by simp
qed

lemma full_block: "block_ok 0 False 0 (in_bucket (full_table sz) 0) page_1_to_7"
proof -
  have len: "length page_1_to_7 = 7" by (simp add: page_1_to_7_def)
  have "p = q" if "p < 7" "q < 7" "kv_key (page_1_to_7 ! p) = kv_key (page_1_to_7 ! q)" for p q
  proof -
    have "p + 1 = q + 1" using page_1_to_7_nth(3) [OF that(1)] page_1_to_7_nth(3) [OF that(2)] that(3) by argo
    then show ?thesis by simp
  qed
  then have "keys_distinct page_1_to_7" unfolding keys_distinct_def len by metis
  moreover have "keys_placed 0 False 0 (in_bucket (full_table sz) 0) page_1_to_7"
    unfolding keys_placed_def len by (simp add: full_bucket page_of_0 BIHASH_KVP_PER_PAGE_def)
  moreover have "stale_after False page_1_to_7" unfolding stale_after_def len using page_1_to_7_nth(2) less_trans by metis
  ultimately show ?thesis using len by (simp add: block_ok_def BIHASH_KVP_PER_PAGE_def)
qed

lemma full_live_count: "live_count page_1_to_7 = 7"
proof -
  have len: "length page_1_to_7 = 7" by (simp add: page_1_to_7_def)
  have "live x" if "x \<in> set page_1_to_7" for x using that page_1_to_7_nth(2) len by (metis in_set_conv_nth)
  then have "filter live page_1_to_7 = page_1_to_7" by (intro filter_True) auto
  then show ?thesis using len by (simp add: live_count_def)
qed

lemma full_table_ok:
  assumes "128 \<le> sz" "sz \<le> 2 ^ 36"
  shows "table_ok (page_role 1) (full_table sz)"
proof -
  have len: "length page_1_to_7 = 7" by (simp add: page_1_to_7_def)
  have r: "page_role 1 x \<noteq> R_none \<longleftrightarrow> x = 8" "page_role 1 8 = R_page 0" for x
    by (auto simp: page_role_def bucket_page_simps)
  have r': "page_role 1 x \<noteq> R_free l" for x l by (simp add: page_role_def)
  have "mem_ok (page_role 1) (full_table sz)"
    using assms r r' len by (auto simp: mem_ok_def lists_ok_def work_ok_def block_at_def full_table_def KV_SZ_def)
  moreover have "bucket_ok (page_role 1) (full_table sz) 0"
    using full_block [of sz] full_live_count r(2) len by (simp add: bucket_ok_def Let_def bucket_page_simps BIHASH_KVP_PER_PAGE_def) (simp add: full_table_def)
  ultimately show ?thesis by (simp add: table_ok_def) (simp add: full_table_def)
qed

lemma full_here: "128 \<le> sz \<Longrightarrow> sz \<le> 2 ^ 36 \<Longrightarrow> bihash_ok (full_table sz)"
  using full_table_ok by (auto simp: bihash_ok_def)

text \<open>A small table as \<^verbatim>\<open>clib_bihash_init\<close> makes it from a zeroed header.\<close>

definition blank_table :: bihash where
  "blank_table =
     \<lparr>bh_nbuckets = 0, bh_log2_nbuckets = 0, bh_buckets = (\<lambda>_. \<lparr>b_offset = 0, b_lock = False, b_linear_search = False, b_log2_pages = 0, b_refcnt = 0\<rparr>),
      bh_mem = (\<lambda>_. []), bh_freelists = [], bh_arena_next = 0, bh_arena_size = 0, bh_arena_mapped = 0, bh_alloc_lock = False,
      bh_working_copies = [], bh_working_copy_lengths = [],
      bh_saved_bucket = \<lparr>b_offset = 0, b_lock = False, b_linear_search = False, b_log2_pages = 0, b_refcnt = 0\<rparr>, bh_instantiated = False,
      bh_add = 0, bh_replace = 0, bh_del = 0, bh_working_copy_lost = 0, bh_split_add = 0, bh_splits = 0, bh_resplit = 0, bh_linear = 0\<rparr>"

definition small_table :: bihash where
  "small_table = snd (bihash_init granting (\<lambda>_. True) True 1 4096 blank_table)"

definition zeroed :: "bihash \<Rightarrow> bool" where
  "zeroed h \<longleftrightarrow> bh_freelists h = [] \<and> bh_working_copies h = [] \<and> bh_working_copy_lengths h = []"

lemma small_init: "bihash_init granting (\<lambda>_. True) True 1 4096 blank_table = (0, small_table)"
    "bh_nbuckets small_table = 1" "b_refcnt (bh_buckets small_table 0) = 1" "b_log2_pages (bh_buckets small_table 0) = 0"
    "bh_arena_next small_table = 128" "bh_arena_size small_table = 4096"
proof -
  have m: "max_log2 1 = 0" using max_log2_pow [of 0] by simp
  note d = bihash_init_def bihash_instantiate_def Let_def m alloc_aligned_def granting_def round_pow2_def bucket_page_simps small_table_def blank_table_def
  show "bihash_init granting (\<lambda>_. True) True 1 4096 blank_table = (0, small_table)"
    "bh_nbuckets small_table = 1" "b_refcnt (bh_buckets small_table 0) = 1" "b_log2_pages (bh_buckets small_table 0) = 0"
    "bh_arena_next small_table = 128" "bh_arena_size small_table = 4096"
    by (simp_all add: d BUCKET_SZ_def KV_SZ_def BIHASH_KVP_PER_PAGE_def)
qed

lemma small_fits: "bihash_fits granting small_table \<lparr>kv_key = 8, kv_value = 9\<rparr>"
  by (simp add: bihash_fits_def Let_def get_bucket_def small_init bihash_is_free_def FREE_VALUE_def)
    (simp add: granting_def grants_def split_room_def round_pow2_def KV_SZ_def BIHASH_KVP_PER_PAGE_def)

text \<open>C7: The hash table is a finite map. A table made by \<^verbatim>\<open>clib_bihash_init\<close> is the empty map and satisfies the invariant.
  On a table that satisfies it, a search returns the pair of its key exactly when the map has one, although free slots keep the
  keys that were deleted from them. Adding a pair that fits succeeds, updates the map at that key and nowhere else, and keeps the
  invariant, whether the bucket has a free slot, is split, is split twice or falls back to linear search.
  Deleting removes the key, or reports that it is absent.
  The table is made in zeroed memory, for 1 to 2^29 buckets and at most 2^36 bytes.\<close>

theorem bihash_refines_map:
  "(bihash_init e reserve lock_mem nb sz h0 = (0, h) \<and> zeroed h0 \<and> nb \<noteq> 0 \<and> nb \<le> 2 ^ 29 \<and> sz \<le> 2 ^ 36 \<longrightarrow> bihash_ok h \<and> bihash_map h = Map.empty) \<and>
   (bihash_ok h \<longrightarrow>
      bihash_search h kv = Inr (case bihash_map h (kv_key kv) of None \<Rightarrow> (- 1, None) | Some v \<Rightarrow> (0, Some \<lparr>kv_key = kv_key kv, kv_value = v\<rparr>)) \<and>
      (bihash_fits e h kv \<longrightarrow>
         (\<exists>h'. bihash_add_del e t kv 1 h = Inr (0, h') \<and> bihash_ok h' \<and> bihash_map h' = (bihash_map h)(kv_key kv \<mapsto> kv_value kv))) \<and>
      (if bihash_map h (kv_key kv) = None then bihash_add_del e t kv 0 h = Inr (- 3, h)
       else \<exists>h'. bihash_add_del e t kv 0 h = Inr (0, h') \<and> bihash_ok h' \<and> bihash_map h' = (bihash_map h)(kv_key kv := None)))"
proof (intro conjI impI; (elim conjE)?)
  assume "bihash_init e reserve lock_mem nb sz h0 = (0, h)" "zeroed h0" "nb \<noteq> 0" "nb \<le> 2 ^ 29" "sz \<le> 2 ^ 36"
  then show "bihash_ok h" "bihash_map h = Map.empty" using bihash_init_spec [of e reserve lock_mem nb sz h0 h] by (simp_all add: zeroed_def)
qed (use bh.lookup_spec bh.add_spec bh.del_spec in blast)+

theorem bihash_refines_map_witness:
  "bihash_ok small_table \<and> bihash_map small_table = Map.empty \<and>
   bihash_search small_table \<lparr>kv_key = 8, kv_value = 0\<rparr> = Inr (- 1, None) \<and>
   (\<exists>h'. bihash_add_del granting 0 \<lparr>kv_key = 8, kv_value = 9\<rparr> 1 small_table = Inr (0, h') \<and> bihash_map h' = [8 \<mapsto> 9])"
  using bihash_refines_map [of granting "\<lambda>_. True" True 1 4096 blank_table small_table "\<lparr>kv_key = 8, kv_value = 9\<rparr>" 0]
    bihash_refines_map [of granting "\<lambda>_. True" True 1 4096 blank_table small_table "\<lparr>kv_key = 8, kv_value = 0\<rparr>" 0] small_init(1) small_fits
  by (auto simp: zeroed_def blank_table_def)

text \<open>C18: Memory that runs out while a bucket is full hangs the table. When adding returns -4 the lock of the bucket and the lock of the
  allocator are still held: every later search, addition or deletion in that bucket, and every later expansion of any bucket, waits forever.\<close>

theorem bihash_shortage_hangs:
  assumes "bihash_ok h" "kv_value kv \<noteq> FREE_VALUE" "unat (b_refcnt (bh_buckets h (get_bucket h (xxhash (kv_key kv))))) + 1 < 2 ^ 16"
    and "n \<noteq> 0" "bihash_add_del e t kv n h = Inr (- 4, h')"
  shows "(get_bucket h (xxhash (kv_key kv')) = get_bucket h (xxhash (kv_key kv)) \<longrightarrow>
      bihash_search h' kv' = Inl Spins \<and> bihash_add_del e' t' kv' n' h' = Inl Spins) \<and> expand_bucket e' t' i' kv' h' = Inl Spins"
proof -
  obtain \<rho> i b blk where b: "here \<rho> h (kv_key kv) i b blk" "b = bh_buckets h (get_bucket h (xxhash (kv_key kv)))" "i = get_bucket h (xxhash (kv_key kv))"
    using here_exists [OF assms(1)] by metis
  have "add_result e h kv i (b_log2_pages b) (Inr (- 4, h'))"
    using bihash_add_del_add [OF b(1), of n e t] assms(2-5) b(2) by (auto simp: bihash_is_free_def split: if_splits)
  then have r: "bh_alloc_lock h'" "bh_nbuckets h' = bh_nbuckets h" "bh_buckets h' i = (bh_buckets h i)\<lparr>b_lock := True\<rparr>" "b_refcnt (bh_buckets h i) > 1"
    by (simp_all add: add_result_def)
  have "get_bucket h' = get_bucket h" using r(2) by (simp add: get_bucket_def fun_eq_iff)
  then show ?thesis using r b(3)
    by (auto simp: bihash_search_def bihash_search_with_hash_def bihash_add_del_def add_del_inline_with_hash_def bihash_hash_def Let_def bucket_is_empty_def expand_bucket_def)
qed

lemma page_1_to_7_found: "find_live 0 7 8 page_1_to_7 = None" "find_free 0 7 page_1_to_7 = None"
proof -
  have "kv_key (page_1_to_7 ! p) \<noteq> 8" if "p < 7" for p
  proof
    assume "kv_key (page_1_to_7 ! p) = 8"
    then show False using page_1_to_7_nth(3) [OF that] that by simp
  qed
  then show "find_live 0 7 8 page_1_to_7 = None" "find_free 0 7 page_1_to_7 = None"
    using page_1_to_7_nth(2) by (auto simp: find_live_def find_free_def scan_None)
qed

lemma full_shortage: "\<exists>h'. bihash_add_del granting 0 \<lparr>kv_key = 8, kv_value = 9\<rparr> 1 (full_table 128) = Inr (- 4, h')"
  using page_1_to_7_found
  by (simp add: bihash_add_del_def add_del_inline_with_hash_def bihash_add_def Let_def full_bucket search_start_def search_limit_def page_of_0 BIHASH_KVP_PER_PAGE_def)
    (simp add: full_table_def page_of_0 lock_bucket_def set_bucket_def expand_bucket_def make_working_copy_def working_copy_vecs_def granting_def alloc_aligned_def Let_def
      round_pow2_def KV_SZ_def BIHASH_KVP_PER_PAGE_def)

theorem bihash_shortage_hangs_witness:
  "bihash_ok (full_table 128) \<and> (\<exists>h'. bihash_add_del granting 0 \<lparr>kv_key = 8, kv_value = 9\<rparr> 1 (full_table 128) = Inr (- 4, h') \<and>
     bihash_search h' \<lparr>kv_key = 3, kv_value = 0\<rparr> = Inl Spins)"
proof -
  obtain h' where h': "bihash_add_del granting 0 \<lparr>kv_key = 8, kv_value = 9\<rparr> 1 (full_table 128) = Inr (- 4, h')" using full_shortage by blast
  have "bihash_search h' \<lparr>kv_key = 3, kv_value = 0\<rparr> = Inl Spins"
    using bihash_shortage_hangs [OF full_here _ _ _ h', of "\<lparr>kv_key = 3, kv_value = 0\<rparr>"] by (simp add: full_bucket FREE_VALUE_def) (simp add: full_table_def)
  then show ?thesis using h' full_here by auto
qed

end
