(* ===== verification/Spec2Isabelle.thy ===== *)
theory Spec2Isabelle
  imports Known_Socket Split_Reads Ring_Steps Bihash_Table
begin

text \<open>
  The eBPF collector of the ZeroTrace agent (\<^verbatim>\<open>src/src/collectors/ebpf/legacy\<close>).

  The collector has two halves. Programs in the kernel (\<^verbatim>\<open>kernel/\<close>) run at system calls: they find the socket
  behind a descriptor, decide which application protocol the bytes belong to, tie the message to the trace of its
  thread or goroutine and put an event into the push buffer of the CPU; full or late buffers are sent to the agent.
  The agent (\<^verbatim>\<open>user/\<close>) configures the programs and reads the events.

  \<^bold>\<open>Theories.\<close>

    \<^item> \<^verbatim>\<open>ZT_Prelude\<close>: words, byte buffers, little-endian loads, the byte order helpers of \<^verbatim>\<open>bpf_endian.h\<close>,
      and the lemmas on them that the components share.
    \<^item> \<^verbatim>\<open>Conn_Info\<close>: the enumerations of \<^verbatim>\<open>common.h\<close>; \<^verbatim>\<open>socket_info_s\<close> and \<^verbatim>\<open>conn_info_s\<close>; protocol filter and port
      bitmaps; the bytes a socket keeps from one segment to the next; the start of reassembly.
    \<^item> \<^verbatim>\<open>Infer_Contract\<close>: what inference asks of every classifier, as locales: a classifier keeps the identity of the
      connection, accepts only its protocol on a known socket, reports a protocol only when it is enabled, and reads
      only the inference buffer. Each classifier is an interpretation.
    \<^item> \<^verbatim>\<open>Infer_Web\<close>, \<^verbatim>\<open>Infer_Sql\<close>, \<^verbatim>\<open>Infer_Rpc\<close>, \<^verbatim>\<open>Infer_Mq\<close>: the classifiers of \<^verbatim>\<open>protocol_inference.h\<close>.
    \<^item> \<^verbatim>\<open>Infer_Dispatch\<close>: \<^verbatim>\<open>infer_protocol_1\<close>, \<^verbatim>\<open>_2\<close>, \<^verbatim>\<open>_3\<close> with the copy of the first bytes from a buffer or from
      iovecs, the TLS stage, the per process cache of the last protocol and the chains of classifiers.
    \<^item> \<^verbatim>\<open>Kern_State\<close>: the maps of the tracer as one record, the kernel's helpers as the record \<^verbatim>\<open>kern_env\<close>, and the
      readers of kernel structures (socket of a descriptor, TCP sequence numbers, addresses, kind of a socket).
    \<^item> \<^verbatim>\<open>Kern_Offsets\<close>: the two phases that find the layout of kernel structures by trial.
    \<^item> \<^verbatim>\<open>Trace_Process\<close>: trace keys, goroutine ancestors and \<^verbatim>\<open>trace_process\<close>; the counters the agent starts.
    \<^item> \<^verbatim>\<open>Push_Buffer\<close>, \<^verbatim>\<open>Push_Stream\<close>: the packed header, the payload copy, the output of an event, the periodic push;
      and the stream of events of a CPU as the agent decodes it, which the operations refine.
    \<^item> \<^verbatim>\<open>Data_Submit\<close>: \<^verbatim>\<open>__data_submit\<close>, the three inference classes and the programs chained by tail calls.
    \<^item> \<^verbatim>\<open>Files_Rw\<close>: file read and write events of \<^verbatim>\<open>files_rw.bpf.c\<close>.
    \<^item> \<^verbatim>\<open>Syscalls\<close>: \<^verbatim>\<open>process_data\<close> and the entry and exit programs of the system calls.
    \<^item> \<^verbatim>\<open>Kern_Runs\<close>: sequences of programs on all CPUs. \<^verbatim>\<open>Socket_Ids\<close>: socket identifiers over such sequences.
      \<^verbatim>\<open>Known_Socket\<close>: the path of one message on a known socket. \<^verbatim>\<open>Split_Reads\<close>: messages whose header is read first.
    \<^item> \<^verbatim>\<open>Ring\<close>: the ring of \<^verbatim>\<open>user/ring.h\<close>, through which the reading threads of the agent hand events to its
      workers: creation, enqueue and dequeue, as an interpretation of the locale of bounded queues. \<^verbatim>\<open>Ring_Steps\<close>: several threads
      on one ring, as an inductive step relation on shared memory.
    \<^item> \<^verbatim>\<open>Bihash\<close>: the hash table of \<^verbatim>\<open>user/bihash_template.c\<close> for keys and values of 8 bytes, with its arena, free lists, working
      copies and the splitting of buckets. \<^verbatim>\<open>Bihash_Blocks\<close>: blocks of pairs as maps. \<^verbatim>\<open>Bihash_Memory\<close>: who owns which block of the arena.
      \<^verbatim>\<open>Bihash_Map\<close>: the invariant of the table, and the table as an interpretation of the locale of finite maps.
      \<^verbatim>\<open>Bihash_Table\<close>: what clients may rely on, and what happens when memory runs out.

  \<^bold>\<open>State and helpers.\<close> A program is a function on \<^verbatim>\<open>kern_state\<close>, whose fields are the BPF maps: per CPU maps are
  functions of the CPU, hash maps are partial functions, the perf ring is the list of batches
  handed to \<^verbatim>\<open>bpf_perf_event_output\<close>, each with whether the ring took it.
  \<^verbatim>\<open>kern_env\<close> holds everything a program asks of the kernel in one run: the CPU, the thread, the clock at each call
  site, reads of user and kernel memory, the maps only the agent writes, whether a map is full, which entries an LRU map
  evicts, which tail calls fail and which batches the perf ring refuses. Nothing is assumed of these in the definitions, so that the theorems hold for every answer of the kernel, failing reads included, except where they name one. Pointers are 64-bit
  words, memory is little-endian, integers keep their width.
  A pointer to a map's value is modelled by the value with its key at hand: writes through it go to the map.
  Unions are modelled by one of the members with functions for the others: \<^verbatim>\<open>ipaddr\<close> shares the bytes of
  \<^verbatim>\<open>prev_data\<close>, \<^verbatim>\<open>port\<close> the low half of \<^verbatim>\<open>correlation_id\<close>, \<^verbatim>\<open>ipaddr_ptr\<close> the first bytes of \<^verbatim>\<open>addr\<close>.
  The field \<^verbatim>\<open>ke_ver_5_2_plus\<close> selects between the build for kernels from 5.2 on, where a program runs to its end, and the
  default build, where tail calls chain it; a program whose tail call fails goes on behind it. The tail call context that the default build keeps in the payload area of
  the event under construction is a field beside the buffer.

  \<^bold>\<open>What is shown.\<close>

    \<^item> Inference: protocols stick to a socket, only enabled protocols are reported, results are consistent, nothing
      but the first 64 bytes of the buffer matters, the caches stay in bounds, copies of iovecs stay in bounds.
    \<^item> Classifiers: characterisations of what is accepted, equivalence of a message read at once and in two
      pieces, from the first read through the socket map to the second, round trip of encoded lengths.
    \<^item> Kernel layout: offsets declared ready are candidates that fit.
    \<^item> Tracing: a request and the calls its thread makes share a trace; live traces are distinct.
    \<^item> Push buffer: batching neither loses, duplicates, reorders nor alters events.
    \<^item> Programs: any sequence of system calls keeps the buffers well formed and only appends to the streams; as long as no
      tail call of the output program fails, the reference counts are balanced and the next periodic push hands
      everything over to the perf ring, of which the agent receives what the ring took; live sockets have distinct identifiers; a message on a
      known socket becomes one event with the bytes of the call.
    \<^item> Ring: at every moment of every interleaving what was dequeued is a prefix of what was enqueued, also when the
      indices wrap around; some operation that is under way can always go on.
    \<^item> Hash table: search, add and delete are those of a finite map, whatever splits a bucket goes through; running out
      of memory leaves locks behind that block the table.

  \<^bold>\<open>Bounds.\<close> Loops of the source have constant bounds (unrolled loops), which the definitions take as the fuel of
  a structural recursion: 18 iovecs for the output, 4 for inference, the number of fields, ancestors or frames the source
  allows. No bound is added by the model.

  \<^bold>\<open>Simplifications.\<close> A program runs without interruption on its CPU, as BPF programs of one CPU do
  except for nesting of uprobes. Reads of the program's own map memory succeed. Removal of entries of the maps by the
  agent while the programs run is not modelled. A shift by the TCP state of more than 31 takes the count modulo 32.
  Builds with kfunc (CO-RE relocations), for arm64 and for kernels with kprobes only differ in how arguments are
  fetched; the candidate lists of offsets are those of the 5.2+ and default builds.

  \<^bold>\<open>Not modelled.\<close>
  The uprobes of Go and OpenSSL, the profiler programs, and of the agent all but its start values, its ring and its hash table:
  they read the stacks of other runtimes, use libbcc and libelf, or are input and output around the programs.
\<close>

section \<open>Protocol inference as a whole\<close>

text \<open>C8: Protocols stick. On a socket whose protocol is known, a message of the data is reported under that
  protocol, as TLS, or as the custom protocol the connection is marked with; never under another.\<close>

theorem infer_protocol_1_sticky:
  assumes "is_infer_socket_valid (ci_socket_info_ptr c)"
    and "infer_protocol_1 env args ib n extra (c, q) = (m, err, ib', s')"
    and "pm_type m \<notin> {MSG_UNKNOWN, MSG_PRESTORE}"
  shows "pm_protocol m \<in> {sock_l7_proto c, PROTO_TLS} \<or>
    (ci_protocol c = PROTO_CUSTOM \<and> pm_protocol m = PROTO_CUSTOM)"
proof -
  obtain c' q' where "s' = (c', q')" by (metis surj_pair)
  with assms(2) have "infer_protocol_1 env args ib n extra (c, q) = (m, err, ib', (c', q'))" by simp
  then show ?thesis
  proof (cases rule: infer_protocol_1_cases)
    case (matched c4)
    then show ?thesis
      using infer_match_ok [OF matched(1)] conn_ident_sock [of c4 c] assms(1,3) by (auto simp: infer_ok_def)
  next
    case (tls c3)
    then show ?thesis using tls_stage_frame(4) [OF tls(1)] assms(3) by auto
  qed (use assms(3) in \<open>auto simp: inferred_def\<close>)
qed

theorem infer_protocol_1_sticky_witness:
  "pm_protocol (fst (infer_protocol_1 (example_env False example_get) example_args example_data 14
     example_extra (example_conn T_EGRESS (Some (example_sock PROTO_HTTP1)), \<lambda>_. None)))
   \<in> {PROTO_HTTP1, PROTO_TLS}"
proof -
  let ?c = "example_conn T_EGRESS (Some (example_sock PROTO_HTTP1))"
  let ?r = "infer_protocol_1 (example_env False example_get) example_args example_data 14 example_extra (?c, \<lambda>_. None)"
  obtain m err ib' s' where r: "?r = (m, err, ib', s')" by (metis surj_pair)
  have "pm_type (fst ?r) = MSG_REQUEST" by code_simp
  then show ?thesis
    using infer_protocol_1_sticky [OF _ r]
    by (simp add: r example_simps is_infer_socket_valid_def sock_l7_proto_def)
qed

text \<open>C9: Switched off protocols. Take a connection record on which reassembly is not enabled yet, as on every record
  that \<^verbatim>\<open>process_data\<close> sets up. Whatever the data, a protocol is reported only if it is enabled in the
  protocol filter, is the known protocol of a socket whose message is under reassembly and goes on with these data
  (\<open>reasm_continues\<close>: the protocol is one that is reassembled, the message has not ended, the direction is that of the data
  before and, when the CPU has its context, no bytes were kept and the limit is not reached), or is the custom protocol the connection is marked
  with.\<close>

theorem infer_protocol_1_enabled:
  assumes "\<not> ci_enable_reasm c"
    and "infer_protocol_1 env args ib n extra (c, q) = (m, err, ib', s')" "pm_protocol m \<noteq> PROTO_UNKNOWN"
  shows "is_protocol_enabled env (pm_protocol m) \<or>
    (reasm_continues env c \<and> pm_protocol m = sock_l7_proto c) \<or>
    (ci_protocol c = PROTO_CUSTOM \<and> pm_protocol m = PROTO_CUSTOM)"
proof -
  obtain c' q' where "s' = (c', q')" by (metis surj_pair)
  with assms(2) have "infer_protocol_1 env args ib n extra (c, q) = (m, err, ib', (c', q'))" by simp
  then show ?thesis
  proof (cases rule: infer_protocol_1_cases)
    case (matched c4)
    then show ?thesis
      using infer_match_ok [OF matched(1)] conn_ident_sock [of c4 c] matched(4) assms(1,3)
      by (auto simp: infer_ok_def)
  next
    case (tls c3)
    then show ?thesis using tls_stage_frame(4,5) [OF tls(1)] assms(3) by metis
  qed (use assms(3) in \<open>auto simp: inferred_def\<close>)
qed

theorem infer_protocol_1_enabled_witness:
  "pm_protocol (fst (infer_protocol_1 ((example_env False example_get)\<lparr>protocol_filter := \<lambda>_. None\<rparr>)
     example_args example_data 14 example_extra (example_conn T_EGRESS None, \<lambda>_. None))) \<in> {PROTO_UNKNOWN}"
proof -
  let ?env = "(example_env False example_get)\<lparr>protocol_filter := \<lambda>_. None\<rparr>"
  let ?r = "infer_protocol_1 ?env example_args example_data 14 example_extra (example_conn T_EGRESS None, \<lambda>_. None)"
  obtain m err ib' s' where r: "?r = (m, err, ib', s')" by (metis surj_pair)
  have "\<not> reasm_continues ?env (example_conn T_EGRESS None)"
    using reasm_continues_valid [of ?env "example_conn T_EGRESS None"] by (auto simp: example_simps is_infer_socket_valid_def)
  then show ?thesis
    using infer_protocol_1_enabled [OF _ r]
    by (auto simp: r example_simps is_protocol_enabled_def)
qed

text \<open>C16: Verdicts are consistent. A message of unknown type has no protocol, and data without a protocol
  is of unknown type or kept for the next segment.\<close>

theorem infer_protocol_1_consistent:
  assumes "\<not> ci_enable_reasm c"
    and "infer_protocol_1 env args ib n extra (c, q) = (m, err, ib', s')"
  shows "(pm_type m = MSG_UNKNOWN \<longrightarrow> pm_protocol m = PROTO_UNKNOWN) \<and>
    (pm_protocol m = PROTO_UNKNOWN \<longrightarrow> pm_type m \<in> {MSG_UNKNOWN, MSG_PRESTORE})"
proof -
  obtain c' q' where "s' = (c', q')" by (metis surj_pair)
  with assms(2) have "infer_protocol_1 env args ib n extra (c, q) = (m, err, ib', (c', q'))" by simp
  then show ?thesis
  proof (cases rule: infer_protocol_1_cases)
    case (matched c4)
    then show ?thesis
      using infer_match_ok [OF matched(1)] conn_ident_sock [of c4 c] matched(4) assms(1) reasm_continues_valid [of env c]
      by (auto simp: infer_ok_def)
  next
    case (tls c3)
    then show ?thesis using tls_stage_frame(4,5) [OF tls(1)] by fastforce
  qed (auto simp: inferred_def)
qed

theorem infer_protocol_1_consistent_witness:
  "pm_protocol (fst (infer_protocol_1 (example_env False [1, 2, 3, 4, 5, 6, 7, 8, 9, 10, 11, 12, 13]) example_args
     example_data 13 example_extra (example_conn T_EGRESS None, \<lambda>_. None))) = PROTO_UNKNOWN"
proof -
  let ?r = "infer_protocol_1 (example_env False [1, 2, 3, 4, 5, 6, 7, 8, 9, 10, 11, 12, 13]) example_args
     example_data 13 example_extra (example_conn T_EGRESS None, \<lambda>_. None)"
  obtain m err ib' s' where r: "?r = (m, err, ib', s')" by (metis surj_pair)
  have "pm_type (fst ?r) = MSG_UNKNOWN" by code_simp
  then show ?thesis
    using infer_protocol_1_consistent [OF _ r] by (simp add: r example_simps)
qed

text \<open>C15: What inference leaves alone. The inference of a protocol keeps the address tuple, the socket,
  its direction, descriptor, identity and protocol, and keeps the caches of bytes within their 16
  bytes.\<close>

theorem infer_protocol_1_frame:
  assumes "infer_protocol_1 env args ib n extra (c, q) = (m, err, ib', (c', q'))" "cache_ok c"
  shows "conn_ident c' = conn_ident c \<and> cache_ok c'"
  using infer_protocol_1_keeps [OF assms(1)] assms(2) by simp

theorem infer_protocol_1_frame_witness:
  "conn_ident (fst (snd (snd (snd (infer_protocol_1 (example_env True example_get) example_args example_data 14
      example_extra (example_conn T_EGRESS None, \<lambda>_. None)))))) = conn_ident (example_conn T_EGRESS None)"
proof -
  let ?r = "infer_protocol_1 (example_env True example_get) example_args example_data 14
      example_extra (example_conn T_EGRESS None, \<lambda>_. None)"
  obtain m err ib' c' q' where r: "?r = (m, err, ib', (c', q'))" by (metis surj_pair)
  then show ?thesis
    using infer_protocol_1_frame [OF r] by (simp add: r example_simps cache_ok_def)
qed

text \<open>C13: No read past the buffer. The outcome of the fast and the slow path, the connection included, depends on
  the 64 bytes of the inference buffer only.\<close>

theorem infer_match_local:
  assumes "agree_on INFER_DATA_SZ b b'"
  shows "infer_match env b n s = infer_match env b' n s"
proof -
  have "infer_fast_match (\<lambda>(c, q). infer_slow_path p env b n (c\<lparr>ci_skip_proto := p\<rparr>, q)) p env b n s =
        infer_fast_match (\<lambda>(c, q). infer_slow_path p env b' n (c\<lparr>ci_skip_proto := p\<rparr>, q)) p env b' n s" for p
    by (rule infer_fast_match_local [OF assms]) (simp add: split_beta infer_slow_path_local [OF assms])
  then show ?thesis
    by (simp add: infer_match_def Let_def infer_slow_path_local [OF assms] split: option.split)
qed

theorem infer_match_local_witness:
  "infer_match (example_env True []) (buf_of (map byte ''GET / HTTP/1.1'')) 14 (example_conn T_EGRESS None, \<lambda>_. None) =
   infer_match (example_env True []) (\<lambda>i. if i < 64 then buf_of (map byte ''GET / HTTP/1.1'') i else 255) 14
     (example_conn T_EGRESS None, \<lambda>_. None)"
  by (rule infer_match_local) (simp add: agree_on_def INFER_DATA_SZ_def)

end
